(* ===== verification/CAS_Prelude.thy ===== *)
theory CAS_Prelude
  imports Main "HOL-Library.Multiset"
begin

text \<open>
  Generic vocabulary shared by the component theories: sequencing of fallible steps
  (\<open>bindE\<close>), the few operations of the JavaScript standard library the code uses
  (splitting and joining strings, decimal rendering, \<open>parseInt\<close>, removal of duplicates
  through a \<open>Set\<close>), and facts on lists and row-wise updates.
\<close>

named_theorems err_simps \<open>case analysis of sequenced fallible steps\<close>
named_theorems repo_simps \<open>effect of repository operations on single rows\<close>
named_theorems table_inv \<open>operations that keep the invariant of the database tables\<close>

section \<open>Fallible steps\<close>

definition bindE :: "'e + 'a \<Rightarrow> ('a \<Rightarrow> 'e + 'b) \<Rightarrow> 'e + 'b" where
  "bindE m f = (case m of Inl e \<Rightarrow> Inl e | Inr x \<Rightarrow> f x)"

lemma bindE_simps [simp]:
  "bindE (Inl e) f = Inl e"
  "bindE (Inr x) f = f x"
  by (simp_all add: bindE_def)

lemma bindE_Inr_iff [err_simps]: "bindE m f = Inr y \<longleftrightarrow> (\<exists>x. m = Inr x \<and> f x = Inr y)"
  by (cases m) simp_all

lemma bindE_Inl_iff [err_simps]:
  "bindE m f = Inl e \<longleftrightarrow> m = Inl e \<or> (\<exists>x. m = Inr x \<and> f x = Inl e)"
  by (cases m) simp_all

lemma bindE_assoc: "bindE (bindE m f) g = bindE m (\<lambda>x. bindE (f x) g)"
  by (cases m) simp_all

text \<open>An option that must be there: \<open>undefined\<close> becomes the given error.\<close>

definition need :: "'e \<Rightarrow> 'a option \<Rightarrow> 'e + 'a" where
  "need e v = (case v of None \<Rightarrow> Inl e | Some x \<Rightarrow> Inr x)"

lemma need_simps [simp]:
  "need e None = Inl e"
  "need e (Some x) = Inr x"
  by (simp_all add: need_def)

lemma need_Inr_iff [err_simps]: "need e v = Inr x \<longleftrightarrow> v = Some x"
  by (cases v) simp_all

text \<open>A loop that runs a fallible body over a list and stops at the first error.\<close>

fun mapE :: "('a \<Rightarrow> 'e + 'b) \<Rightarrow> 'a list \<Rightarrow> 'e + 'b list" where
  "mapE f [] = Inr []"
| "mapE f (x # xs) = bindE (f x) (\<lambda>y. bindE (mapE f xs) (\<lambda>ys. Inr (y # ys)))"

lemma mapE_Inr_iff: "mapE f xs = Inr ys \<longleftrightarrow> list_all2 (\<lambda>x y. f x = Inr y) xs ys"
proof (induction xs arbitrary: ys)
  case Nil
  then show ?case by auto
next
  case (Cons x xs)
  then show ?case by (auto simp: err_simps list_all2_Cons1)
qed

lemma mapE_total: "(\<And>x. x \<in> set xs \<Longrightarrow> f x = Inr (g x)) \<Longrightarrow> mapE f xs = Inr (map g xs)"
  by (induction xs) auto

section \<open>Lists\<close>

text \<open>\<open>Array.from(new Set(xs))\<close>: the first occurrence of every element, in order.\<close>

fun js_unique :: "'a list \<Rightarrow> 'a list" where
  "js_unique [] = []"
| "js_unique (x # xs) = x # filter (\<lambda>y. y \<noteq> x) (js_unique xs)"

lemma set_js_unique [simp]: "set (js_unique xs) = set xs"
  by (induction xs) auto

lemma distinct_js_unique [simp]: "distinct (js_unique xs)"
  by (induction xs) auto

lemma length_js_unique: "length (js_unique xs) = card (set xs)"
  using distinct_card [of "js_unique xs"] by simp

lemma count_members:
  assumes "distinct (map f xs)" and "distinct ks" and "set ks \<subseteq> f ` set xs"
  shows "length (filter (\<lambda>x. f x \<in> set ks) xs) = length ks"
proof -
  have "distinct (map f (filter (\<lambda>x. f x \<in> set ks) xs))"
    using assms(1) by (rule distinct_map_filter)
  then have "length (filter (\<lambda>x. f x \<in> set ks) xs) = card (f ` set (filter (\<lambda>x. f x \<in> set ks) xs))"
    using distinct_card by (metis length_map set_map)
  also have "f ` set (filter (\<lambda>x. f x \<in> set ks) xs) = set ks"
    using assms(3) by auto
  finally show ?thesis
    using assms(2) by (simp add: distinct_card)
qed

lemma distinct_key_eq:
  assumes "distinct (map f xs)" and "x \<in> set xs" and "y \<in> set xs" and "f x = f y"
  shows "x = y"
  using assms by (metis distinct_map inj_onD)

lemma find_some_mem: "find P xs = Some x \<Longrightarrow> x \<in> set xs \<and> P x"
  by (induction xs) (auto split: if_splits)

lemma find_none_iff: "find P xs = None \<longleftrightarrow> (\<forall>x\<in>set xs. \<not> P x)"
  by (induction xs) auto

lemma find_unique_key:
  assumes "distinct (map f xs)" and "x \<in> set xs"
  shows "find (\<lambda>y. f y = f x) xs = Some x"
  using assms by (induction xs) (auto simp: image_iff)

lemma sorted_hd_le:
  assumes "sorted (map f (x # xs))" and "y \<in> set (x # xs)"
  shows "f x \<le> f y"
  using assms by (auto simp: sorted_wrt_map)

lemma mset_eq_set: "mset xs = mset ys \<Longrightarrow> set xs = set ys"
  by (rule mset_eq_setD)

lemma mset_eq_len: "mset xs = mset ys \<Longrightarrow> length xs = length ys"
  by (rule mset_eq_length)

lemma mset_eq_distinct: "mset xs = mset ys \<Longrightarrow> distinct xs = distinct ys"
  by (rule mset_eq_imp_distinct_iff)

text \<open>Selecting from rows some of which were rewritten so that they no longer qualify.\<close>

lemma filter_map_if:
  assumes "\<And>x. x \<in> set xs \<Longrightarrow> c x \<Longrightarrow> \<not> P (g x)"
  shows "filter P (map (\<lambda>x. if c x then g x else x) xs) = filter (\<lambda>x. P x \<and> \<not> c x) xs"
  using assms by (induction xs) auto

lemma filter_is: "distinct xs \<Longrightarrow> a \<in> set xs \<Longrightarrow> filter (\<lambda>x. x = a) xs = [a]"
  by (induction xs) (auto simp: filter_empty_conv)

lemma filter_only:
  assumes "distinct xs" and "a \<in> set xs" and "\<And>x. x \<in> set xs \<Longrightarrow> P x \<longleftrightarrow> x = a"
  shows "filter P xs = [a]"
  using filter_is [OF assms(1,2)] assms(3) by (metis (mono_tags, lifting) filter_cong)

section \<open>Strings\<close>

text \<open>\<open>xs.join(sep)\<close> and \<open>s.split(sep)\<close> for a separator of one character.\<close>

fun js_join :: "char \<Rightarrow> string list \<Rightarrow> string" where
  "js_join c [] = []"
| "js_join c [s] = s"
| "js_join c (s # t # ss) = s @ c # js_join c (t # ss)"

fun js_split :: "char \<Rightarrow> string \<Rightarrow> string list" where
  "js_split c [] = [[]]"
| "js_split c (x # xs) =
     (if x = c then [] # js_split c xs
      else (case js_split c xs of [] \<Rightarrow> [[x]] | s # ss \<Rightarrow> (x # s) # ss))"

lemma js_split_nonempty [simp]: "js_split c s \<noteq> []"
  by (induction s) (auto split: list.splits)

lemma js_split_plain: "c \<notin> set s \<Longrightarrow> js_split c s = [s]"
  by (induction s) auto

lemma js_split_append_sep: "c \<notin> set s \<Longrightarrow> js_split c (s @ c # t) = s # js_split c t"
  by (induction s) auto

lemma js_split_join:
  assumes "ss \<noteq> []" and "\<And>s. s \<in> set ss \<Longrightarrow> c \<notin> set s"
  shows "js_split c (js_join c ss) = ss"
  using assms
  by (induction c ss rule: js_join.induct) (auto simp: js_split_plain js_split_append_sep)

lemma js_join_split: "js_join c (js_split c s) = s"
proof (induction s)
  case Nil
  then show ?case by simp
next
  case (Cons x xs)
  obtain t ts where "js_split c xs = t # ts"
    by (cases "js_split c xs") auto
  with Cons show ?case by (cases ts) auto
qed

lemma js_split_members: "s \<in> set (js_split c t) \<Longrightarrow> c \<notin> set s"
proof (induction t arbitrary: s)
  case Nil
  then show ?case by simp
next
  case (Cons x xs)
  obtain u us where "js_split c xs = u # us"
    by (cases "js_split c xs") auto
  with Cons show ?case by (auto split: if_splits)
qed

text \<open>\<open>s.includes(t)\<close>: \<open>t\<close> occurs in \<open>s\<close>.\<close>

fun js_starts_with :: "string \<Rightarrow> string \<Rightarrow> bool" where
  "js_starts_with s [] = True"
| "js_starts_with [] (y # ys) = False"
| "js_starts_with (x # xs) (y # ys) = (x = y \<and> js_starts_with xs ys)"

fun js_includes :: "string \<Rightarrow> string \<Rightarrow> bool" where
  "js_includes [] t = (t = [])"
| "js_includes (x # xs) t = (js_starts_with (x # xs) t \<or> js_includes xs t)"

lemma js_starts_with_iff: "js_starts_with s t \<longleftrightarrow> (\<exists>u. s = t @ u)"
  by (induction s t rule: js_starts_with.induct) auto

lemma js_includes_iff: "js_includes s t \<longleftrightarrow> (\<exists>a b. s = a @ t @ b)"
proof (induction s)
  case Nil
  then show ?case by auto
next
  case (Cons x xs)
  have "(\<exists>a b. x # xs = a @ t @ b) \<longleftrightarrow> (\<exists>b. x # xs = t @ b) \<or> (\<exists>a b. xs = a @ t @ b)"
    by (metis append_Cons append_self_conv2 list.inject neq_Nil_conv)
  with Cons show ?case by (simp add: js_starts_with_iff)
qed

section \<open>Decimal numbers\<close>

text \<open>
  \<open>String(n)\<close> for an integer \<open>n\<close>, and \<open>parseInt(s, 10)\<close>: leading white space and a sign
  are accepted, then the longest run of digits counts; \<open>None\<close> is \<open>NaN\<close>.
\<close>

definition digit_char :: "nat \<Rightarrow> char" where
  "digit_char d = char_of (48 + d)"

definition is_digit :: "char \<Rightarrow> bool" where
  "is_digit c \<longleftrightarrow> 48 \<le> (of_char c :: nat) \<and> (of_char c :: nat) \<le> 57"

definition digit_val :: "char \<Rightarrow> nat" where
  "digit_val c = of_char c - 48"

fun nat_to_string :: "nat \<Rightarrow> string" where
  "nat_to_string n = (if n < 10 then [digit_char n] else nat_to_string (n div 10) @ [digit_char (n mod 10)])"

declare nat_to_string.simps [simp del]

definition int_to_string :: "int \<Rightarrow> string" where
  "int_to_string i = (if i < 0 then CHR ''-'' # nat_to_string (nat (- i)) else nat_to_string (nat i))"

definition number_to_string :: "int option \<Rightarrow> string" where
  "number_to_string v = (case v of None \<Rightarrow> ''NaN'' | Some i \<Rightarrow> int_to_string i)"

definition is_space :: "char \<Rightarrow> bool" where
  "is_space c \<longleftrightarrow> c \<in> {CHR '' '', CHR 0x09, CHR 0x0A, CHR 0x0B, CHR 0x0C, CHR 0x0D}"

text \<open>\<open>s.trim()\<close>\<close>

definition js_trim :: "string \<Rightarrow> string" where
  "js_trim s = rev (dropWhile is_space (rev (dropWhile is_space s)))"

definition digits_val :: "string \<Rightarrow> nat" where
  "digits_val = foldl (\<lambda>acc c. acc * 10 + digit_val c) 0"

definition parse_digits :: "string \<Rightarrow> nat option" where
  "parse_digits s = (case takeWhile is_digit s of [] \<Rightarrow> None | ds \<Rightarrow> Some (digits_val ds))"

definition parse_int10 :: "string \<Rightarrow> int option" where
  "parse_int10 s =
     (case dropWhile is_space s of
        [] \<Rightarrow> None
      | c # t \<Rightarrow>
          if c = CHR ''-'' then map_option (\<lambda>n. - int n) (parse_digits t)
          else if c = CHR ''+'' then map_option int (parse_digits t)
          else map_option int (parse_digits (c # t)))"

lemma of_char_digit_char [simp]: "d < 10 \<Longrightarrow> (of_char (digit_char d) :: nat) = 48 + d"
  by (simp add: digit_char_def)

lemma is_digit_digit_char [simp]: "d < 10 \<Longrightarrow> is_digit (digit_char d)"
  by (simp add: is_digit_def)

lemma digit_val_digit_char [simp]: "d < 10 \<Longrightarrow> digit_val (digit_char d) = d"
  by (simp add: digit_val_def)

lemma nat_to_string_digits: "c \<in> set (nat_to_string n) \<Longrightarrow> is_digit c"
proof (induction n rule: nat_to_string.induct)
  case (1 n)
  then show ?case
    by (cases "n < 10") (auto simp: nat_to_string.simps [of n])
qed

lemma nat_to_string_nonempty [simp]: "nat_to_string n \<noteq> []"
  by (subst nat_to_string.simps) simp

lemma digits_val_nat_to_string: "digits_val (nat_to_string n) = n"
proof (induction n rule: nat_to_string.induct)
  case (1 n)
  show ?case
  proof (cases "n < 10")
    case True
    then show ?thesis by (simp add: nat_to_string.simps [of n] digits_val_def)
  next
    case False
    with 1 have "digits_val (nat_to_string (n div 10)) = n div 10" by simp
    with False show ?thesis by (simp add: nat_to_string.simps [of n] digits_val_def)
  qed
qed

lemma parse_digits_nat_to_string: "parse_digits (nat_to_string n) = Some n"
proof -
  have *: "takeWhile is_digit (nat_to_string n) = nat_to_string n"
    by (rule takeWhile_eq_all_conv [THEN iffD2]) (simp add: nat_to_string_digits)
  obtain c t where ct: "nat_to_string n = c # t"
    by (cases "nat_to_string n") auto
  have "parse_digits (nat_to_string n) = Some (digits_val (c # t))"
    unfolding parse_digits_def * by (simp add: ct)
  then show ?thesis
    by (simp add: digits_val_nat_to_string flip: ct)
qed

lemma parse_int10_nat_to_string: "parse_int10 (nat_to_string n) = Some (int n)"
proof -
  obtain c t where ct: "nat_to_string n = c # t"
    by (cases "nat_to_string n") auto
  then have d: "is_digit c" using nat_to_string_digits [of c n] by simp
  then have "c \<noteq> CHR ''-''" "c \<noteq> CHR ''+''" "\<not> is_space c"
    by (auto simp: is_digit_def is_space_def)
  with ct show ?thesis
    using parse_digits_nat_to_string [of n] by (simp add: parse_int10_def)
qed

end
