(* ===== verification/Models.thy ===== *)
theory Models
  imports CAS_Prelude
begin

text \<open>
  The data model of \<open>src/src/models\<close>: request statuses, requests (as the application builds
  them, as they are sent to the database, and as rows of the \<open>request\<close> table), anchors,
  transactions and queue messages; and the errors the service throws.
  Dates are milliseconds since the epoch (\<open>int\<close>). CIDs and stream ids are their canonical
  strings; parsing them is done by third-party code and is a parameter where it is used.
\<close>

type_synonym cid = string
type_synonym stream_id = string
type_synonym date = int

section \<open>Errors\<close>

datatype cas_error =
    SerializationFailure            \<comment> \<open>PostgreSQL error code 40001\<close>
  | UniqueViolation
  | ForeignKeyViolation
  | NotNullViolation
  | DbError string
  | TypeError                       \<comment> \<open>property access on \<open>undefined\<close>\<close>
  | OnlyFound nat nat
  | OnlyUpdated nat nat
  | MutexNotAcquired nat
  | NoCidPresent
  | InvalidCID string
  | InvalidStreamID string
  | InvalidPathLine
  | MerkleTreeFailure cas_error
  | LibraryError string             \<comment> \<open>an error raised by code outside the repository\<close>
  | NoBlock cid string              \<comment> \<open>\<open>raiseNoBlockError\<close>\<close>
  | InvalidWitnessCAR string
  | UserAborted string
  | QueueNotConfigured
  | RequestDoesNotExist cid
  | InvalidRequestStatus

section \<open>Request status\<close>

datatype request_status = PENDING | PROCESSING | COMPLETED | FAILED | READY | REPLACED

text \<open>The numbers of the TypeScript enum, which is what the \<open>status\<close> column stores.\<close>

fun status_code :: "request_status \<Rightarrow> nat" where
  "status_code PENDING = 0"
| "status_code PROCESSING = 1"
| "status_code COMPLETED = 2"
| "status_code FAILED = 3"
| "status_code READY = 4"
| "status_code REPLACED = 5"

lemma status_code_inj: "status_code s = status_code t \<Longrightarrow> s = t"
  by (cases s; cases t) simp_all

instantiation request_status :: linorder
begin

definition less_eq_request_status :: "request_status \<Rightarrow> request_status \<Rightarrow> bool" where
  "less_eq_request_status s t \<longleftrightarrow> status_code s \<le> status_code t"

definition less_request_status :: "request_status \<Rightarrow> request_status \<Rightarrow> bool" where
  "less_request_status s t \<longleftrightarrow> status_code s < status_code t"

instance
  by standard
    (auto simp: less_eq_request_status_def less_request_status_def intro: status_code_inj)

end

section \<open>Requests\<close>

text \<open>
  \<open>Partial<Request>\<close>: what the constructor of \<open>Request\<close> is given; \<open>None\<close> is \<open>undefined\<close>.
  The constructor copies every field, so the object built is the same record.
\<close>

record partial_request =
  p_id :: "string option"
  p_status :: "request_status option"
  p_cid :: "string option"
  p_streamId :: "string option"
  p_message :: "string option"
  p_pinned :: "bool option"
  p_createdAt :: "date option"
  p_updatedAt :: "date option"
  p_timestamp :: "date option"
  p_origin :: "string option"

definition empty_request :: partial_request where
  "empty_request = \<lparr>p_id = None, p_status = None, p_cid = None, p_streamId = None,
     p_message = None, p_pinned = None, p_createdAt = None, p_updatedAt = None,
     p_timestamp = None, p_origin = None\<rparr>"

record idb_request =
  db_id :: "string option"
  db_status :: "request_status option"
  db_cid :: string
  db_streamId :: string
  db_message :: "string option"
  db_pinned :: "bool option"
  db_createdAt :: "date option"
  db_updatedAt :: "date option"
  db_timestamp :: "date option"
  db_origin :: "string option"

text \<open>\<open>this.cid.toString()\<close> and \<open>this.streamId.toString()\<close> throw when the field is \<open>undefined\<close>.\<close>

definition toDB :: "partial_request \<Rightarrow> cas_error + idb_request" where
  "toDB p =
     bindE (need TypeError (p_cid p)) (\<lambda>c.
     bindE (need TypeError (p_streamId p)) (\<lambda>s.
     Inr \<lparr>db_id = p_id p, db_status = p_status p, db_cid = c, db_streamId = s,
          db_message = p_message p, db_pinned = p_pinned p, db_createdAt = p_createdAt p,
          db_updatedAt = p_updatedAt p, db_timestamp = p_timestamp p, db_origin = p_origin p\<rparr>))"

text \<open>A row of the table \<open>request\<close>. The columns \<open>message\<close> and \<open>origin\<close> may be null.\<close>

record request =
  req_id :: string
  status :: request_status
  req_cid :: string
  streamId :: string
  message :: "string option"
  pinned :: bool
  createdAt :: date
  updatedAt :: date
  timestamp :: date
  origin :: "string option"

text \<open>\<open>RequestUpdateFields\<close>: an \<open>undefined\<close> field is left out of the update.\<close>

record update_fields =
  f_message :: "string option"
  f_status :: "request_status option"
  f_pinned :: "bool option"

definition only_status :: "request_status \<Rightarrow> update_fields" where
  "only_status s = \<lparr>f_message = None, f_status = Some s, f_pinned = None\<rparr>"

section \<open>Anchors, transactions, queue messages\<close>

record fresh_anchor =
  requestId :: string
  proofCid :: cid
  path :: string
  anchor_cid :: cid

record stored_anchor = fresh_anchor +
  anchor_id :: string
  anchor_createdAt :: date
  anchor_updatedAt :: date

record transaction =
  chain :: string
  txHash :: string
  blockNumber :: int
  blockTimestamp :: int

record anchor_batch_message =
  bid :: string
  rids :: "string list"

record request_message =
  q_rid :: string
  q_cid :: string
  q_sid :: string
  q_ts :: date
  q_org :: string
  q_crt :: date

end
