(* ===== verification/Sql.thy ===== *)
theory Sql
  imports Models
begin

text \<open>
  What the repositories rely on of PostgreSQL (through knex), which is not part of the
  repository: the order of result rows is a parameter (\<open>db_engine\<close>), because SQL leaves ties
  of an \<open>ORDER BY\<close>, and every order without one, to the server; \<open>sql_engine\<close> states what is
  documented, that sorting permutes the rows and puts the keys in order. A transaction with
  isolation level \<open>repeatable read\<close> either runs on one snapshot or is aborted with error
  40001; \<open>retrying\<close> is the \<open>catch\<close> clause that runs it again.
\<close>

section \<open>Row order\<close>

record db_engine =
  order_by :: "(request \<Rightarrow> int) \<Rightarrow> request list \<Rightarrow> request list"
  order_groups :: "(stream_id \<times> date) list \<Rightarrow> (stream_id \<times> date) list"
  db_scan :: "request list \<Rightarrow> request list"
  anchor_scan :: "stored_anchor list \<Rightarrow> stored_anchor list"

definition sql_engine :: "db_engine \<Rightarrow> bool" where
  "sql_engine e \<longleftrightarrow>
     (\<forall>k rows. mset (order_by e k rows) = mset rows \<and> sorted (map k (order_by e k rows))) \<and>
     (\<forall>gs. mset (order_groups e gs) = mset gs \<and> sorted (map snd (order_groups e gs))) \<and>
     (\<forall>rows. mset (db_scan e rows) = mset rows) \<and>
     (\<forall>rows. mset (anchor_scan e rows) = mset rows)"

lemma sql_engineD:
  assumes "sql_engine e"
  shows mset_order_by: "mset (order_by e k rows) = mset rows"
    and sorted_order_by: "sorted (map k (order_by e k rows))"
    and set_order_by: "set (order_by e k rows) = set rows"
    and length_order_by: "length (order_by e k rows) = length rows"
    and distinct_order_by: "distinct (order_by e k rows) = distinct rows"
    and mset_order_groups: "mset (order_groups e gs) = mset gs"
    and sorted_order_groups: "sorted (map snd (order_groups e gs))"
    and set_order_groups: "set (order_groups e gs) = set gs"
    and length_order_groups: "length (order_groups e gs) = length gs"
    and mset_db_scan: "mset (db_scan e rows) = mset rows"
    and set_db_scan: "set (db_scan e rows) = set rows"
    and length_db_scan: "length (db_scan e rows) = length rows"
    and mset_anchor_scan: "mset (anchor_scan e arows) = mset arows"
    and set_anchor_scan: "set (anchor_scan e arows) = set arows"
proof -
  have o: "mset (order_by e k rows) = mset rows" and g: "mset (order_groups e gs) = mset gs"
    and d: "mset (db_scan e rows) = mset rows" and a: "mset (anchor_scan e arows) = mset arows"
    using assms by (auto simp: sql_engine_def)
  show "mset (order_by e k rows) = mset rows" "mset (order_groups e gs) = mset gs"
    "mset (db_scan e rows) = mset rows" "mset (anchor_scan e arows) = mset arows"
    by (fact o g d a)+
  show "sorted (map k (order_by e k rows))" "sorted (map snd (order_groups e gs))"
    using assms by (auto simp: sql_engine_def)
  show "set (order_by e k rows) = set rows" "set (order_groups e gs) = set gs"
    "set (db_scan e rows) = set rows" "set (anchor_scan e arows) = set arows"
    using mset_eq_set [OF o] mset_eq_set [OF g] mset_eq_set [OF d] mset_eq_set [OF a] by simp_all
  show "length (order_by e k rows) = length rows" "length (order_groups e gs) = length gs"
    "length (db_scan e rows) = length rows"
    using mset_eq_len [OF o] mset_eq_len [OF g] mset_eq_len [OF d] by simp_all
  show "distinct (order_by e k rows) = distinct rows"
    using mset_eq_distinct [OF o] by simp
qed

text \<open>The engine that breaks ties by the stored order, for evaluating examples.\<close>

definition stable_engine :: db_engine where
  "stable_engine = \<lparr>order_by = sort_key, order_groups = sort_key snd, db_scan = (\<lambda>rows. rows),
     anchor_scan = (\<lambda>rows. rows)\<rparr>"

lemma stable_engine_simps [simp]:
  "order_by stable_engine k rows = sort_key k rows"
  "order_groups stable_engine gs = sort_key snd gs"
  "db_scan stable_engine rows = rows"
  "anchor_scan stable_engine arows = arows"
  by (simp_all add: stable_engine_def)

lemma sql_engine_stable [simp]: "sql_engine stable_engine"
  by (simp add: sql_engine_def)

section \<open>Limits\<close>

text \<open>\<open>LIMIT n\<close> as the code sets it: no clause at all when \<open>n\<close> is 0.\<close>

definition limit_unless_zero :: "nat \<Rightarrow> 'a list \<Rightarrow> 'a list" where
  "limit_unless_zero n xs = (if n = 0 then xs else take n xs)"

lemma set_limit_unless_zero: "set (limit_unless_zero n xs) \<subseteq> set xs"
  by (auto simp: limit_unless_zero_def dest: in_set_takeD)

lemma length_limit_unless_zero:
  "length (limit_unless_zero n xs) = (if n = 0 then length xs else min n (length xs))"
  by (simp add: limit_unless_zero_def min.commute)

lemma distinct_limit_unless_zero: "distinct xs \<Longrightarrow> distinct (limit_unless_zero n xs)"
  by (simp add: limit_unless_zero_def)

lemma sorted_limit_unless_zero: "sorted (map f xs) \<Longrightarrow> sorted (map f (limit_unless_zero n xs))"
  by (simp add: limit_unless_zero_def take_map [symmetric] sorted_wrt_take)

lemma limit_unless_zero_least:
  assumes "sorted (map f xs)" and "x \<in> set (limit_unless_zero n xs)"
    and "y \<in> set xs" and "y \<notin> set (limit_unless_zero n xs)"
  shows "f x \<le> f y"
proof -
  have n: "n \<noteq> 0" using assms(3,4) by (auto simp: limit_unless_zero_def split: if_splits)
  then have x: "x \<in> set (take n xs)" using assms(2) by (simp add: limit_unless_zero_def)
  have "set xs = set (take n xs) \<union> set (drop n xs)"
    by (metis append_take_drop_id set_append)
  then have y: "y \<in> set (drop n xs)"
    using assms(3,4) n by (auto simp: limit_unless_zero_def)
  have "sorted (map f (take n xs) @ map f (drop n xs))"
    using assms(1) by (metis append_take_drop_id map_append)
  with x y show ?thesis by (auto simp: sorted_append)
qed

section \<open>Transactions\<close>

definition repeatable_read :: "bool \<Rightarrow> cas_error + 'r \<Rightarrow> cas_error + 'r" where
  "repeatable_read aborted r = (if aborted then Inl SerializationFailure else r)"

text \<open>
  One try of a transaction: the tables it sees, the clock when the operation starts and when
  it writes, and whether the server aborts it. The list holds the tries to come; \<open>None\<close>
  means that all of them were aborted and the code is still retrying.
\<close>

record 'db attempt =
  att_db :: 'db
  att_now :: date
  att_clock :: date
  att_aborted :: bool

fun retrying :: "('db attempt \<Rightarrow> cas_error + 'r) \<Rightarrow> 'db attempt list \<Rightarrow> (cas_error + 'r) option" where
  "retrying body [] = None"
| "retrying body (a # as) =
     (case body a of
        Inl e \<Rightarrow> (if e = SerializationFailure then retrying body as else Some (Inl e))
      | Inr r \<Rightarrow> Some (Inr r))"

declare retrying.simps(2) [simp del]

text \<open>
  The contract every retried transaction of the service has: it fails with 40001 exactly when
  the server aborts it.
\<close>

locale retried_transaction =
  fixes body :: "'db attempt \<Rightarrow> cas_error + 'r"
  assumes aborted_iff: "body a = Inl SerializationFailure \<longleftrightarrow> att_aborted a"
begin

lemma retry_step:
  "retrying body (a # as) = (if att_aborted a then retrying body as else Some (body a))"
proof (cases "body a")
  case (Inl e)
  then show ?thesis using aborted_iff [of a] by (auto simp: retrying.simps)
next
  case (Inr r)
  then have "\<not> att_aborted a" using aborted_iff [of a] by simp
  with Inr show ?thesis by (simp add: retrying.simps)
qed

lemma retry_first_live:
  assumes "\<And>a. a \<in> set before \<Longrightarrow> att_aborted a" and "\<not> att_aborted a"
  shows "retrying body (before @ a # rest) = Some (body a)"
  using assms(1)
proof (induction before)
  case Nil
  show ?case using assms(2) by (simp add: retry_step)
next
  case (Cons b bs)
  then show ?case by (simp add: retry_step)
qed

lemma retry_None_iff: "retrying body as = None \<longleftrightarrow> (\<forall>a\<in>set as. att_aborted a)"
  by (induction as) (simp_all add: retry_step)

lemma retry_never_serialization: "retrying body as \<noteq> Some (Inl SerializationFailure)"
proof (induction as)
  case (Cons a as)
  then show ?case using aborted_iff [of a] by (simp add: retry_step)
qed simp

lemma retry_Some_cases:
  assumes "retrying body as = Some r"
  obtains a where "a \<in> set as" "\<not> att_aborted a" "body a = r"
  using assms
proof (induction as arbitrary: thesis)
  case (Cons a as)
  show ?case
  proof (cases "att_aborted a")
    case True
    with Cons.prems(2) have "retrying body as = Some r" by (simp add: retry_step)
    with Cons.IH Cons.prems(1) show ?thesis by (metis list.set_intros(2))
  next
    case False
    with Cons.prems show ?thesis by (auto simp: retry_step)
  qed
qed simp

end

end
