(* ===== verification/Request_Repository.thy ===== *)
theory Request_Repository
  imports Sql
begin

text \<open>
  \<open>src/src/repositories/request-repository.ts\<close>: the table \<open>request\<close> as the list of its rows and
  one definition per query and per update of \<open>RequestRepository\<close>, with the clock, the generated
  row id and the engine's row order as arguments. Operations that write return the new table
  and the value the method resolves to.
\<close>

section \<open>The table\<close>

text \<open>The migrations make \<open>id\<close> the primary key and \<open>cid\<close> unique.\<close>

definition request_table_wf :: "request list \<Rightarrow> bool" where
  "request_table_wf tbl \<longleftrightarrow> distinct (map req_id tbl) \<and> distinct (map req_cid tbl)"

definition PROCESSING_TIMEOUT :: int where
  "PROCESSING_TIMEOUT = 1000 * 60 * 60 * 3"

definition ANCHOR_DATA_RETENTION_WINDOW :: int where
  "ANCHOR_DATA_RETENTION_WINDOW = 1000 * 60 * 60 * 24 * 30"

text \<open>Column defaults of the migrations: \<open>uuid_generate_v4()\<close>, \<open>now()\<close> and \<open>false\<close>.\<close>

definition insert_row :: "string \<Rightarrow> date \<Rightarrow> idb_request \<Rightarrow> cas_error + request" where
  "insert_row new_id now d =
     bindE (need NotNullViolation (db_status d)) (\<lambda>s.
     Inr \<lparr>req_id = case_option new_id (\<lambda>i. i) (db_id d), status = s, req_cid = db_cid d,
          streamId = db_streamId d, message = db_message d,
          pinned = case_option False (\<lambda>b. b) (db_pinned d),
          createdAt = case_option now (\<lambda>t. t) (db_createdAt d),
          updatedAt = case_option now (\<lambda>t. t) (db_updatedAt d),
          timestamp = case_option now (\<lambda>t. t) (db_timestamp d),
          origin = db_origin d\<rparr>)"

definition create :: "string \<Rightarrow> date \<Rightarrow> partial_request \<Rightarrow> request list
    \<Rightarrow> cas_error + (request list \<times> request option)" where
  "create new_id now p tbl =
     bindE (toDB p) (\<lambda>d.
     bindE (insert_row new_id now d) (\<lambda>row.
       if req_cid row \<in> set (map req_cid tbl) then Inr (tbl, None)
       else if req_id row \<in> set (map req_id tbl) then Inl UniqueViolation
       else Inr (tbl @ [row], Some row)))"

text \<open>One \<open>INSERT\<close> of several rows without a conflict clause: all of them or none.\<close>

fun insert_all :: "(string \<times> idb_request) list \<Rightarrow> date \<Rightarrow> request list
    \<Rightarrow> cas_error + (request list \<times> request list)" where
  "insert_all [] now tbl = Inr (tbl, [])"
| "insert_all ((new_id, d) # ds) now tbl =
     bindE (insert_row new_id now d) (\<lambda>row.
       if req_cid row \<in> set (map req_cid tbl) \<or> req_id row \<in> set (map req_id tbl)
       then Inl UniqueViolation
       else bindE (insert_all ds now (tbl @ [row])) (\<lambda>(tbl', rows). Inr (tbl', row # rows)))"

definition createRequests :: "string list \<Rightarrow> date \<Rightarrow> partial_request list \<Rightarrow> request list
    \<Rightarrow> cas_error + (request list \<times> request list)" where
  "createRequests new_ids now ps tbl =
     bindE (mapE toDB ps) (\<lambda>ds. insert_all (zip new_ids ds) now tbl)"

section \<open>Queries\<close>

definition allRequests :: "db_engine \<Rightarrow> request list \<Rightarrow> request list" where
  "allRequests e tbl = order_by e createdAt tbl"

definition findByIds :: "db_engine \<Rightarrow> string list \<Rightarrow> request list \<Rightarrow> cas_error + request list" where
  "findByIds e givenIds tbl =
     (let uniqueIds = js_unique givenIds;
          requests = order_by e createdAt (filter (\<lambda>r. req_id r \<in> set uniqueIds) tbl)
      in if length requests \<noteq> length uniqueIds
         then Inl (OnlyFound (length requests) (length uniqueIds))
         else Inr requests)"

definition findByCid :: "cid \<Rightarrow> request list \<Rightarrow> request option" where
  "findByCid c tbl = find (\<lambda>r. req_cid r = c) tbl"

definition findByStatus :: "db_engine \<Rightarrow> request_status \<Rightarrow> request list \<Rightarrow> request list" where
  "findByStatus e s tbl = order_by e updatedAt (filter (\<lambda>r. status r = s) tbl)"

text \<open>
  \<open>parse-count-result.util.ts\<close>: the driver returns a \<open>count\<close> as a string or a number;
  \<open>None\<close> is \<open>undefined\<close>, and the result \<open>None\<close> is \<open>NaN\<close>.
\<close>

datatype count_value = CountString string | CountNumber int

definition parseCountResult :: "count_value option \<Rightarrow> int option" where
  "parseCountResult c =
     (case c of
        None \<Rightarrow> Some 0
      | Some (CountString s) \<Rightarrow> (if s = [] then Some 0 else parse_int10 s)
      | Some (CountNumber n) \<Rightarrow> (if n = 0 then Some 0 else parse_int10 (int_to_string n)))"

text \<open>\<open>count\<close> is a \<open>bigint\<close>, which the driver hands over as a decimal string.\<close>

definition countByStatus :: "request_status \<Rightarrow> request list \<Rightarrow> int option" where
  "countByStatus s tbl =
     parseCountResult (Some (CountString (nat_to_string (length (filter (\<lambda>r. status r = s) tbl)))))"

definition recently_updated :: "date \<Rightarrow> request list \<Rightarrow> stream_id list" where
  "recently_updated deadline tbl = map streamId (filter (\<lambda>r. deadline \<le> updatedAt r) tbl)"

definition findRequestsToGarbageCollect :: "db_engine \<Rightarrow> date \<Rightarrow> request list \<Rightarrow> request list" where
  "findRequestsToGarbageCollect e now tbl =
     (let deadlineDate = now - ANCHOR_DATA_RETENTION_WINDOW
      in order_by e (\<lambda>r. - updatedAt r)
           (filter (\<lambda>r. status r \<in> {COMPLETED, FAILED} \<and> pinned r \<and> updatedAt r < deadlineDate
                      \<and> streamId r \<notin> set (recently_updated deadlineDate tbl)) tbl))"

definition needs_anchoring :: "date \<Rightarrow> request \<Rightarrow> bool" where
  "needs_anchoring now r \<longleftrightarrow>
     status r = PENDING \<or> (status r = PROCESSING \<and> updatedAt r < now - PROCESSING_TIMEOUT)"

definition findRequestsToAnchor :: "date \<Rightarrow> request list \<Rightarrow> request list" where
  "findRequestsToAnchor now tbl = filter (needs_anchoring now) tbl"

text \<open>\<open>SELECT stream_id, MIN(created_at) ... GROUP BY stream_id\<close>.\<close>

definition stream_groups :: "request list \<Rightarrow> (stream_id \<times> date) list" where
  "stream_groups rows =
     map (\<lambda>s. (s, min_list (map createdAt (filter (\<lambda>r. streamId r = s) rows))))
         (js_unique (map streamId rows))"

definition findStreamsToAnchor :: "db_engine \<Rightarrow> nat \<Rightarrow> nat \<Rightarrow> date \<Rightarrow> date \<Rightarrow> request list
    \<Rightarrow> stream_id list" where
  "findStreamsToAnchor e maxStreamLimit minStreamLimit anchoringDeadline now tbl =
     (let streamsToAnchor =
        limit_unless_zero maxStreamLimit (order_groups e (stream_groups (findRequestsToAnchor now tbl)))
      in case streamsToAnchor of
           [] \<Rightarrow> []
         | first # _ \<Rightarrow>
             (let enoughStreams = minStreamLimit \<le> length streamsToAnchor;
                  earliestIsExpired = snd first < anchoringDeadline
              in if \<not> enoughStreams \<and> \<not> earliestIsExpired then []
                 else map fst streamsToAnchor))"

definition findRequestsToAnchorForStreams :: "db_engine \<Rightarrow> stream_id list \<Rightarrow> date \<Rightarrow> request list
    \<Rightarrow> request list" where
  "findRequestsToAnchorForStreams e streamIds now tbl =
     order_by e createdAt (filter (\<lambda>r. streamId r \<in> set streamIds) (findRequestsToAnchor now tbl))"

definition findCompletedForStream :: "db_engine \<Rightarrow> stream_id \<Rightarrow> nat \<Rightarrow> date option \<Rightarrow> request list
    \<Rightarrow> request list" where
  "findCompletedForStream e s limit after tbl =
     take limit (order_by e (\<lambda>r. - updatedAt r)
       (filter (\<lambda>r. streamId r = s \<and> status r = COMPLETED
                  \<and> (case after of None \<Rightarrow> True | Some t \<Rightarrow> t \<le> updatedAt r)) tbl))"

section \<open>Updates\<close>

definition apply_fields :: "update_fields \<Rightarrow> date \<Rightarrow> request \<Rightarrow> request" where
  "apply_fields f now r =
     r\<lparr>message := (case f_message f of None \<Rightarrow> message r | Some m \<Rightarrow> Some m),
       status := case_option (status r) (\<lambda>s. s) (f_status f),
       pinned := case_option (pinned r) (\<lambda>b. b) (f_pinned f),
       updatedAt := now\<rparr>"

definition updateRequests :: "update_fields \<Rightarrow> request list \<Rightarrow> date \<Rightarrow> request list
    \<Rightarrow> request list \<times> nat" where
  "updateRequests f requests now tbl =
     (let ids = map req_id requests
      in (map (\<lambda>r. if req_id r \<in> set ids then apply_fields f now r else r) tbl,
          length (filter (\<lambda>r. req_id r \<in> set ids) tbl)))"

definition mark_processing_txn :: "db_engine \<Rightarrow> request list attempt
    \<Rightarrow> cas_error + (request list \<times> request list)" where
  "mark_processing_txn e a =
     repeatable_read (att_aborted a)
       (let tbl = att_db a; requests = findByStatus e READY tbl
        in if requests = [] then Inr (tbl, [])
           else (case updateRequests (only_status PROCESSING) requests (att_clock a) tbl of
                   (tbl', updatedCount) \<Rightarrow>
                     if updatedCount \<noteq> length requests
                     then Inl (OnlyUpdated updatedCount (length requests))
                     else Inr (tbl', requests)))"

definition findAndMarkAsProcessing :: "db_engine \<Rightarrow> request list attempt list
    \<Rightarrow> (cas_error + (request list \<times> request list)) option" where
  "findAndMarkAsProcessing e = retrying (mark_processing_txn e)"

definition mark_ready_txn :: "db_engine \<Rightarrow> int \<Rightarrow> nat \<Rightarrow> nat \<Rightarrow> request list attempt
    \<Rightarrow> cas_error + (request list \<times> request list)" where
  "mark_ready_txn e maxAnchoringDelayMS maxStreamLimit minStreamLimit a =
     (let now = att_now a; anchoringDeadline = now - maxAnchoringDelayMS; tbl = att_db a
      in repeatable_read (att_aborted a)
        (let streamIds = findStreamsToAnchor e maxStreamLimit minStreamLimit anchoringDeadline now tbl
         in if streamIds = [] then Inr (tbl, [])
            else let requests = findRequestsToAnchorForStreams e streamIds now tbl
              in if requests = [] then Inr (tbl, [])
                 else (case updateRequests (only_status READY) requests (att_clock a) tbl of
                         (tbl', updatedCount) \<Rightarrow>
                           if updatedCount \<noteq> length requests
                           then Inl (OnlyUpdated updatedCount (length requests))
                           else Inr (tbl', requests))))"

text \<open>\<open>minStreamLimit\<close> defaults to \<open>maxStreamLimit\<close>.\<close>

definition findAndMarkReady :: "db_engine \<Rightarrow> int \<Rightarrow> nat \<Rightarrow> nat option \<Rightarrow> request list attempt list
    \<Rightarrow> (cas_error + (request list \<times> request list)) option" where
  "findAndMarkReady e maxAnchoringDelayMS maxStreamLimit minStreamLimit =
     retrying (mark_ready_txn e maxAnchoringDelayMS maxStreamLimit
       (case minStreamLimit of None \<Rightarrow> maxStreamLimit | Some m \<Rightarrow> m))"

definition expire_ready_txn :: "db_engine \<Rightarrow> int \<Rightarrow> request list attempt
    \<Rightarrow> cas_error + (request list \<times> nat)" where
  "expire_ready_txn e readyRetryIntervalMS a =
     repeatable_read (att_aborted a)
       (let tbl = att_db a; readyRequests = findByStatus e READY tbl;
            readyDeadline = att_now a - readyRetryIntervalMS
        in case readyRequests of
             [] \<Rightarrow> Inr (tbl, 0)
           | earliest # _ \<Rightarrow>
               if readyDeadline < updatedAt earliest then Inr (tbl, 0)
               else Inr (updateRequests (only_status READY) readyRequests (att_clock a) tbl))"

definition updateExpiringReadyRequests :: "db_engine \<Rightarrow> int \<Rightarrow> request list attempt list
    \<Rightarrow> (cas_error + (request list \<times> nat)) option" where
  "updateExpiringReadyRequests e readyRetryIntervalMS = retrying (expire_ready_txn e readyRetryIntervalMS)"

definition replaced_rows :: "db_engine \<Rightarrow> request \<Rightarrow> request list \<Rightarrow> request list" where
  "replaced_rows e request tbl =
     drop 1 (order_by e (\<lambda>r. - timestamp r)
       (filter (\<lambda>r. origin r = origin request \<and> streamId r = streamId request
                  \<and> status r = PENDING) tbl))"

definition markReplaced :: "db_engine \<Rightarrow> request \<Rightarrow> request list \<Rightarrow> request list \<times> nat" where
  "markReplaced e request tbl =
     (let ids = map req_id (replaced_rows e request tbl)
      in (map (\<lambda>r. if req_id r \<in> set ids
                   then r\<lparr>status := REPLACED, message := Some (''Replaced by '' @ req_cid request)\<rparr>
                   else r) tbl,
          length (filter (\<lambda>r. req_id r \<in> set ids) tbl)))"

text \<open>
  \<open>UPDATE ... RETURNING\<close> hands back the updated rows in the order the server wrote them.
\<close>

definition batchProcessing :: "db_engine \<Rightarrow> nat \<Rightarrow> request list \<Rightarrow> request list \<times> request list" where
  "batchProcessing e maxStreamLimit tbl =
     (let ids = map req_id (limit_unless_zero maxStreamLimit
                  (db_scan e (filter (\<lambda>r. status r = READY) tbl)));
          mark = (\<lambda>r. r\<lparr>status := PROCESSING\<rparr>)
      in (map (\<lambda>r. if req_id r \<in> set ids then mark r else r) tbl,
          map mark (db_scan e (filter (\<lambda>r. req_id r \<in> set ids) tbl))))"

end
