(* ===== verification/Request_Laws.thy ===== *)
theory Request_Laws
  imports Request_Repository
begin

text \<open>
  Facts about the operations of \<open>Request_Repository\<close>: which rows and columns each of them
  changes, what the queries return, that every operation keeps the keys of the table, and the
  properties of batching, replacing, expiring and retrying built on them.
\<close>

section \<open>Row-wise updates\<close>

text \<open>The columns that no update of the service writes.\<close>

definition row_identity :: "request \<Rightarrow> string \<times> cid \<times> stream_id \<times> date \<times> date \<times> string option" where
  "row_identity r = (req_id r, req_cid r, streamId r, createdAt r, timestamp r, origin r)"

text \<open>
  The contract of every \<open>UPDATE\<close> of the service: rows are changed in place, none is added or
  removed, and their identity is kept.
\<close>

locale row_update =
  fixes step :: "request list \<Rightarrow> request list"
  assumes identity_kept: "map row_identity (step tbl) = map row_identity tbl"
begin

lemma same_length: "length (step tbl) = length tbl"
  using arg_cong [OF identity_kept, of length] by simp

lemma column_kept:
  assumes "\<And>r. col r = g (row_identity r)"
  shows "map col (step tbl) = map col tbl"
proof -
  have "map col (step tbl) = map g (map row_identity (step tbl))"
    using assms by simp
  also have "\<dots> = map g (map row_identity tbl)"
    by (simp only: identity_kept)
  also have "\<dots> = map col tbl"
    using assms by simp
  finally show ?thesis .
qed

lemma keeps_ids: "map req_id (step tbl) = map req_id tbl"
  by (rule column_kept [of _ fst]) (simp add: row_identity_def)

lemma keeps_cids: "map req_cid (step tbl) = map req_cid tbl"
  by (rule column_kept [of _ "fst \<circ> snd"]) (simp add: row_identity_def)

lemma keeps_streams: "map streamId (step tbl) = map streamId tbl"
  by (rule column_kept [of _ "fst \<circ> snd \<circ> snd"]) (simp add: row_identity_def)

lemma keeps_wf: "request_table_wf tbl \<Longrightarrow> request_table_wf (step tbl)"
  by (simp add: request_table_wf_def keeps_ids keeps_cids)

lemma row_survives:
  assumes "r \<in> set tbl"
  shows "\<exists>r'\<in>set (step tbl). row_identity r' = row_identity r"
proof -
  have "row_identity r \<in> row_identity ` set (step tbl)"
    using assms by (metis identity_kept image_eqI image_set)
  then show ?thesis by (auto dest: sym)
qed

end

lemma row_identity_simps [simp]:
  "row_identity (apply_fields f now r) = row_identity r"
  "row_identity (r\<lparr>status := s\<rparr>) = row_identity r"
  "row_identity (r\<lparr>status := s, message := m\<rparr>) = row_identity r"
  by (simp_all add: row_identity_def apply_fields_def)

lemma map_identity_if [simp]:
  "(\<And>r. row_identity (g r) = row_identity r) \<Longrightarrow>
   map row_identity (map (\<lambda>r. if P r then g r else r) tbl) = map row_identity tbl"
  by simp

interpretation upd: row_update "\<lambda>tbl. fst (updateRequests f requests now tbl)" for f requests now
  by unfold_locales (simp add: updateRequests_def Let_def)

interpretation repl: row_update "\<lambda>tbl. fst (markReplaced e request tbl)" for e request
  by unfold_locales (simp add: markReplaced_def Let_def)

interpretation batch: row_update "\<lambda>tbl. fst (batchProcessing e maxStreamLimit tbl)"
  for e maxStreamLimit
  by unfold_locales (simp add: batchProcessing_def Let_def)

lemmas wf_updates [table_inv] = upd.keeps_wf repl.keeps_wf batch.keeps_wf

section \<open>Columns after an update\<close>

lemma apply_fields_simps [simp]:
  "req_id (apply_fields f now r) = req_id r"
  "req_cid (apply_fields f now r) = req_cid r"
  "streamId (apply_fields f now r) = streamId r"
  "createdAt (apply_fields f now r) = createdAt r"
  "timestamp (apply_fields f now r) = timestamp r"
  "origin (apply_fields f now r) = origin r"
  "updatedAt (apply_fields f now r) = now"
  "status (apply_fields f now r) = case_option (status r) (\<lambda>s. s) (f_status f)"
  by (simp_all add: apply_fields_def)

lemma apply_only_status [simp]:
  "apply_fields (only_status s) now r = r\<lparr>status := s, updatedAt := now\<rparr>"
  by (simp add: apply_fields_def only_status_def)

text \<open>
  An update by \<open>id IN (...)\<close> hits exactly the given rows, since ids are unique: selecting by
  id the rows of a sublist is the same as membership in it.
\<close>

lemma id_in_rows_iff:
  assumes "request_table_wf tbl" and "set rows \<subseteq> set tbl" and "r \<in> set tbl"
  shows "req_id r \<in> set (map req_id rows) \<longleftrightarrow> r \<in> set rows"
proof
  assume "req_id r \<in> set (map req_id rows)"
  then obtain s where "s \<in> set rows" "req_id s = req_id r" by auto
  then have "s = r"
    using assms by (auto simp: request_table_wf_def intro: distinct_key_eq [of req_id tbl])
  with \<open>s \<in> set rows\<close> show "r \<in> set rows" by simp
qed simp

lemma update_count:
  assumes "request_table_wf tbl" and "set rows \<subseteq> set tbl" and "distinct rows"
  shows "length (filter (\<lambda>r. req_id r \<in> set (map req_id rows)) tbl) = length rows"
proof -
  have "inj_on req_id (set rows)"
    using assms(1,2) by (auto simp: request_table_wf_def distinct_map intro: inj_on_subset)
  with assms(3) have "distinct (map req_id rows)" by (simp add: distinct_map)
  moreover have "set (map req_id rows) \<subseteq> req_id ` set tbl" using assms(2) by auto
  ultimately show ?thesis
    using assms(1) count_members [of req_id tbl "map req_id rows"]
    by (simp add: request_table_wf_def)
qed

lemma updateRequests_rows:
  assumes "request_table_wf tbl" and "set rows \<subseteq> set tbl" and "distinct rows"
  shows "updateRequests f rows now tbl =
    (map (\<lambda>r. if r \<in> set rows then apply_fields f now r else r) tbl, length rows)"
  using id_in_rows_iff [OF assms(1,2)] update_count [OF assms]
  by (simp add: updateRequests_def Let_def)

lemma table_distinct: "request_table_wf tbl \<Longrightarrow> distinct tbl"
  by (simp add: request_table_wf_def distinct_map)

text \<open>What a query with an \<open>ORDER BY\<close> over filtered rows returns.\<close>

lemma query_rows:
  assumes "sql_engine e" and "request_table_wf tbl"
  shows "set (order_by e k (filter P tbl)) = {r \<in> set tbl. P r}"
    and "distinct (order_by e k (filter P tbl))"
    and "sorted (map k (order_by e k (filter P tbl)))"
    and "set (order_by e k (filter P tbl)) \<subseteq> set tbl"
  using assms
  by (auto simp: set_order_by distinct_order_by table_distinct sorted_order_by)

section \<open>Transactions of the repository\<close>

definition chosen_for_batch :: "db_engine \<Rightarrow> int \<Rightarrow> nat \<Rightarrow> nat \<Rightarrow> date \<Rightarrow> request list
    \<Rightarrow> request \<Rightarrow> bool" where
  "chosen_for_batch e d mx mn now tbl r \<longleftrightarrow>
     needs_anchoring now r \<and> streamId r \<in> set (findStreamsToAnchor e mx mn (now - d) now tbl)"

lemma mark_ready_body:
  fixes d :: int and mx mn :: nat
  assumes "sql_engine e" and "request_table_wf (att_db a)" and "\<not> att_aborted a"
  defines "chosen \<equiv> chosen_for_batch e d mx mn (att_now a) (att_db a)"
  shows "mark_ready_txn e d mx mn a =
    Inr (map (\<lambda>r. if chosen r then r\<lparr>status := READY, updatedAt := att_clock a\<rparr> else r) (att_db a),
         order_by e createdAt (filter chosen (att_db a)))"
proof -
  define streams where "streams = findStreamsToAnchor e mx mn (att_now a - d) (att_now a) (att_db a)"
  define reqs where "reqs = order_by e createdAt (filter chosen (att_db a))"
  have "chosen = (\<lambda>r. needs_anchoring (att_now a) r \<and> streamId r \<in> set streams)"
    by (auto simp: chosen_def chosen_for_batch_def streams_def)
  then have reqs_eq: "findRequestsToAnchorForStreams e streams (att_now a) (att_db a) = reqs"
    and empty: "streams = [] \<Longrightarrow> reqs = []"
    using query_rows(1) [OF assms(1,2), of createdAt chosen]
    by (simp_all add: findRequestsToAnchorForStreams_def findRequestsToAnchor_def reqs_def)
  have set_reqs: "set reqs = {r \<in> set (att_db a). chosen r}"
    and upd: "updateRequests f reqs c (att_db a) =
      (map (\<lambda>r. if r \<in> set reqs then apply_fields f c r else r) (att_db a), length reqs)" for f c
    using query_rows [OF assms(1,2), of createdAt chosen] updateRequests_rows [OF assms(2)]
    by (simp_all add: reqs_def)
  have none: "map (\<lambda>r. if chosen r then g r else r) (att_db a) = att_db a" if "reqs = []" for g
    using that set_reqs by (auto intro: map_idI)
  have some: "map (\<lambda>r. if r \<in> set reqs then g r else r) (att_db a)
      = map (\<lambda>r. if chosen r then g r else r) (att_db a)" for g
    using set_reqs by (intro map_cong) auto
  show ?thesis
    unfolding mark_ready_txn_def Let_def repeatable_read_def streams_def [symmetric] reqs_eq
      reqs_def [symmetric] upd prod.case some
    using assms(3) empty none by auto
qed

lemma mark_processing_body:
  assumes "sql_engine e" and "request_table_wf (att_db a)" and "\<not> att_aborted a"
  shows "mark_processing_txn e a =
    Inr (map (\<lambda>r. if status r = READY then r\<lparr>status := PROCESSING, updatedAt := att_clock a\<rparr> else r) (att_db a),
         findByStatus e READY (att_db a))"
proof -
  define reqs where "reqs = findByStatus e READY (att_db a)"
  have set_reqs: "set reqs = {r \<in> set (att_db a). status r = READY}"
    and upd: "updateRequests f reqs c (att_db a) =
      (map (\<lambda>r. if r \<in> set reqs then apply_fields f c r else r) (att_db a), length reqs)" for f c
    using query_rows [OF assms(1,2)] updateRequests_rows [OF assms(2)]
    by (simp_all add: reqs_def findByStatus_def)
  have "map (\<lambda>r. if r \<in> set reqs then g r else r) (att_db a)
      = map (\<lambda>r. if status r = READY then g r else r) (att_db a)" for g
    using set_reqs by (intro map_cong) auto
  moreover have "map (\<lambda>r. if status r = READY then g r else r) (att_db a) = att_db a"
    if "reqs = []" for g
    using that set_reqs by (auto intro: map_idI)
  ultimately show ?thesis
    using assms(3)
    by (auto simp: mark_processing_txn_def repeatable_read_def Let_def upd simp flip: reqs_def)
qed

lemma status_again: "status r = s \<Longrightarrow> r\<lparr>status := s, updatedAt := t\<rparr> = r\<lparr>updatedAt := t\<rparr>"
  by (cases r) simp

lemma expire_ready_body:
  assumes "sql_engine e" and "request_table_wf (att_db a)" and "\<not> att_aborted a"
  shows "expire_ready_txn e interval a =
    (if \<exists>r\<in>set (att_db a). status r = READY \<and> updatedAt r \<le> att_now a - interval
     then Inr (map (\<lambda>r. if status r = READY then r\<lparr>updatedAt := att_clock a\<rparr> else r) (att_db a),
               length (filter (\<lambda>r. status r = READY) (att_db a)))
     else Inr (att_db a, 0))"
proof -
  define reqs where "reqs = findByStatus e READY (att_db a)"
  have set_reqs: "set reqs = {r \<in> set (att_db a). status r = READY}"
    and sorted: "sorted (map updatedAt reqs)"
    and len: "length reqs = length (filter (\<lambda>r. status r = READY) (att_db a))"
    and upd: "updateRequests f reqs c (att_db a) =
      (map (\<lambda>r. if r \<in> set reqs then apply_fields f c r else r) (att_db a), length reqs)" for f c
    using query_rows [OF assms(1,2)] updateRequests_rows [OF assms(2)] length_order_by [OF assms(1)]
    by (simp_all add: reqs_def findByStatus_def)
  have same: "map (\<lambda>r. if r \<in> set reqs then apply_fields (only_status READY) c r else r) (att_db a)
      = map (\<lambda>r. if status r = READY then r\<lparr>updatedAt := c\<rparr> else r) (att_db a)" for c
    using set_reqs by (intro map_cong) (auto simp: status_again)
  have earliest: "(\<exists>r\<in>set (att_db a). status r = READY \<and> updatedAt r \<le> t) \<longleftrightarrow> updatedAt x \<le> t"
    if "reqs = x # xs" for x xs t
  proof
    assume "\<exists>r\<in>set (att_db a). status r = READY \<and> updatedAt r \<le> t"
    then obtain r where "r \<in> set reqs" "updatedAt r \<le> t" using set_reqs by auto
    with sorted that sorted_hd_le [of updatedAt x xs r] show "updatedAt x \<le> t" by auto
  next
    assume "updatedAt x \<le> t"
    with that set_reqs show "\<exists>r\<in>set (att_db a). status r = READY \<and> updatedAt r \<le> t"
      by (metis (mono_tags, lifting) list.set_intros(1) mem_Collect_eq)
  qed
  show ?thesis
  proof (cases reqs)
    case Nil
    then have "\<not> (\<exists>r\<in>set (att_db a). status r = READY \<and> updatedAt r \<le> att_now a - interval)"
      using set_reqs by auto
    then show ?thesis
      unfolding expire_ready_txn_def repeatable_read_def Let_def reqs_def [symmetric] Nil
      using assms(3) by (simp only: if_False list.case)
  next
    case (Cons x xs)
    have "expire_ready_txn e interval a =
        (if updatedAt x \<le> att_now a - interval
         then Inr (updateRequests (only_status READY) reqs (att_clock a) (att_db a))
         else Inr (att_db a, 0))"
      using assms(3) Cons
      by (auto simp: expire_ready_txn_def repeatable_read_def Let_def simp flip: reqs_def)
    then show ?thesis
      unfolding earliest [OF Cons] upd same by (simp add: len)
  qed
qed

text \<open>The three bodies fail with 40001 only when the server aborts them.\<close>

interpretation ready: retried_transaction "mark_ready_txn e d mx mn" for e d mx mn
  by unfold_locales
    (auto simp: mark_ready_txn_def repeatable_read_def Let_def split: prod.splits if_splits)

interpretation processing: retried_transaction "mark_processing_txn e" for e
  by unfold_locales
    (auto simp: mark_processing_txn_def repeatable_read_def Let_def split: prod.splits if_splits)

interpretation expiring: retried_transaction "expire_ready_txn e interval" for e interval
  by unfold_locales
    (auto simp: expire_ready_txn_def repeatable_read_def Let_def split: list.splits if_splits)

end
