(* ===== verification/Request_Batching.thy ===== *)
theory Request_Batching
  imports Request_Laws
begin

text \<open>
  Properties of the request repository: which streams a batch takes, that marking a batch is
  exact and always succeeds once the server commits, the all-or-nothing retry of \<open>READY\<close>
  requests, the replacement of older pending requests, and the lookups.
\<close>

section \<open>Streams to anchor\<close>

text \<open>The age of a stream among the requests to anchor: \<open>MIN(created_at)\<close> of its group.\<close>

definition stream_age :: "request list \<Rightarrow> stream_id \<Rightarrow> date" where
  "stream_age rows s = min_list (map createdAt (filter (\<lambda>r. streamId r = s) rows))"

lemma min_list_le:
  fixes xs :: "int list"
  shows "x \<in> set xs \<Longrightarrow> min_list xs \<le> x"
  by (metis Min_le finite_set list.distinct(1) list.set_cases min_list_Min)

lemma min_list_mem:
  fixes xs :: "int list"
  shows "xs \<noteq> [] \<Longrightarrow> min_list xs \<in> set xs"
  by (simp add: min_list_Min)

lemma stream_age_le: "r \<in> set rows \<Longrightarrow> stream_age rows (streamId r) \<le> createdAt r"
  unfolding stream_age_def by (rule min_list_le) auto

lemma stream_age_attained:
  assumes "s \<in> streamId ` set rows"
  shows "\<exists>r\<in>set rows. streamId r = s \<and> createdAt r = stream_age rows s"
proof -
  have "map createdAt (filter (\<lambda>r. streamId r = s) rows) \<noteq> []"
    using assms by (auto simp: filter_empty_conv)
  then have "stream_age rows s \<in> set (map createdAt (filter (\<lambda>r. streamId r = s) rows))"
    unfolding stream_age_def by (rule min_list_mem)
  then show ?thesis by auto
qed

lemma stream_groups_eq:
  "stream_groups rows = map (\<lambda>s. (s, stream_age rows s)) (js_unique (map streamId rows))"
  by (simp add: stream_groups_def stream_age_def)

definition group_batch :: "db_engine \<Rightarrow> nat \<Rightarrow> date \<Rightarrow> request list \<Rightarrow> (stream_id \<times> date) list" where
  "group_batch e mx now tbl =
     limit_unless_zero mx (order_groups e (stream_groups (findRequestsToAnchor now tbl)))"

lemma findStreamsToAnchor_eq:
  "findStreamsToAnchor e mx mn deadline now tbl =
    (let gs = group_batch e mx now tbl
     in if gs \<noteq> [] \<and> (mn \<le> length gs \<or> snd (hd gs) < deadline) then map fst gs else [])"
  by (auto simp: findStreamsToAnchor_def group_batch_def Let_def split: list.splits)

lemma group_batch_facts:
  fixes e :: db_engine and mx :: nat and now :: date and tbl :: "request list"
  assumes "sql_engine e"
  defines "rows \<equiv> findRequestsToAnchor now tbl" and "gs \<equiv> group_batch e mx now tbl"
  shows "(s, t) \<in> set gs \<Longrightarrow> t = stream_age rows s \<and> s \<in> streamId ` set rows"
    and "distinct (map fst gs)"
    and "sorted (map snd gs)"
    and "length gs = (if mx = 0 then card (streamId ` set rows) else min mx (card (streamId ` set rows)))"
    and "(s, t) \<in> set gs \<Longrightarrow> u \<in> streamId ` set rows \<Longrightarrow> u \<notin> fst ` set gs \<Longrightarrow> t \<le> stream_age rows u"
proof -
  define all where "all = order_groups e (stream_groups rows)"
  have gs: "gs = limit_unless_zero mx all"
    by (simp add: gs_def group_batch_def all_def rows_def)
  have m: "mset all = mset (stream_groups rows)" and sorted: "sorted (map snd all)"
    using assms(1) by (simp_all add: all_def mset_order_groups sorted_order_groups)
  have set_all: "set all = (\<lambda>s. (s, stream_age rows s)) ` streamId ` set rows"
    using mset_eq_set [OF m] by (simp add: stream_groups_eq)
  have "mset (map fst all) = mset (map fst (stream_groups rows))"
    using m by simp
  then have dist: "distinct (map fst all)"
    using mset_eq_distinct by (fastforce simp: stream_groups_eq comp_def)
  have len: "length all = card (streamId ` set rows)"
    using mset_eq_len [OF m] by (simp add: stream_groups_eq length_js_unique)
  have sub: "set gs \<subseteq> set all" by (simp add: gs set_limit_unless_zero)
  show "t = stream_age rows s \<and> s \<in> streamId ` set rows" if "(s, t) \<in> set gs"
    using that sub set_all by auto
  show "distinct (map fst gs)"
    using dist by (auto simp: gs limit_unless_zero_def take_map [symmetric])
  show "sorted (map snd gs)" by (simp add: gs sorted sorted_limit_unless_zero)
  show "length gs = (if mx = 0 then card (streamId ` set rows) else min mx (card (streamId ` set rows)))"
    by (simp add: gs length_limit_unless_zero len)
  show "t \<le> stream_age rows u"
    if "(s, t) \<in> set gs" "u \<in> streamId ` set rows" "u \<notin> fst ` set gs"
  proof -
    have "(u, stream_age rows u) \<in> set all" using that(2) set_all by auto
    moreover have "(u, stream_age rows u) \<notin> set gs" using that(3) by force
    ultimately show ?thesis
      using limit_unless_zero_least [OF sorted, of "(s, t)" mx "(u, stream_age rows u)"] that(1)
      by (simp add: gs)
  qed
qed

text \<open>A small table for examples: two streams, one of them with two pending requests.\<close>

definition row :: "string \<Rightarrow> request_status \<Rightarrow> stream_id \<Rightarrow> date \<Rightarrow> date \<Rightarrow> request" where
  "row i s sid t u = \<lparr>req_id = i, status = s, req_cid = ''c'' @ i, streamId = sid, message = None,
     pinned = True, createdAt = t, updatedAt = u, timestamp = t, origin = Some ''o''\<rparr>"

definition example_table :: "request list" where
  "example_table = [row ''1'' PENDING ''a'' 5 5, row ''2'' PENDING ''b'' 3 3,
     row ''3'' READY ''c'' 1 1, row ''4'' PENDING ''b'' 7 7, row ''5'' COMPLETED ''a'' 2 6]"

definition example_attempt :: "date \<Rightarrow> bool \<Rightarrow> request list attempt" where
  "example_attempt t aborted =
     \<lparr>att_db = example_table, att_now = t, att_clock = t + 1, att_aborted = aborted\<rparr>"

lemma example_table_wf: "request_table_wf example_table"
  by code_simp

text \<open>
  C8 (findStreamsToAnchor): the streams of a batch are distinct, all have a request to anchor,
  number at most \<open>maxStreamLimit\<close> when that is not 0, come oldest first, and no stream left out
  is older than one that was taken.
\<close>

theorem findStreamsToAnchor_batch:
  assumes "sql_engine e" and "S = findStreamsToAnchor e mx mn deadline now tbl"
    and "rows = findRequestsToAnchor now tbl"
  shows "distinct S \<and> set S \<subseteq> streamId ` set rows \<and> (mx \<noteq> 0 \<longrightarrow> length S \<le> mx)
    \<and> sorted (map (stream_age rows) S)
    \<and> (\<forall>s\<in>set S. \<forall>u\<in>streamId ` set rows - set S. stream_age rows s \<le> stream_age rows u)"
proof (cases "S = []")
  case False
  define gs where "gs = group_batch e mx now tbl"
  note facts = group_batch_facts [OF assms(1), where mx = mx and now = now and tbl = tbl, folded gs_def, folded assms(3)]
  have S: "S = map fst gs"
    using False assms(2) by (auto simp: findStreamsToAnchor_eq gs_def Let_def split: if_splits)
  have ages: "map (stream_age rows) (map fst gs) = map snd gs"
    using facts(1) by auto
  have "mx \<noteq> 0 \<longrightarrow> length gs \<le> mx" using facts(4) by simp
  with facts show ?thesis unfolding S ages by fastforce
qed simp

theorem findStreamsToAnchor_batch_witness:
  "let S = findStreamsToAnchor stable_engine 1 0 0 9 example_table;
       rows = findRequestsToAnchor 9 example_table
   in S = [''b''] \<and> distinct S \<and> set S \<subseteq> streamId ` set rows \<and> ((1::nat) \<noteq> 0 \<longrightarrow> length S \<le> 1)
    \<and> sorted (map (stream_age rows) S)
    \<and> (\<forall>s\<in>set S. \<forall>u\<in>streamId ` set rows - set S. stream_age rows s \<le> stream_age rows u)"
  unfolding Let_def
  by (rule conjI, code_simp) (rule findStreamsToAnchor_batch [OF sql_engine_stable refl refl])

text \<open>
  C9 (findStreamsToAnchor): a batch is made exactly when some request needs anchoring and
  either at least \<open>minStreamLimit\<close> streams were found within the limit or some request is older
  than the deadline; so an expired request is never held back for want of company.
\<close>

theorem findStreamsToAnchor_nonempty_iff:
  assumes "sql_engine e" and "rows = findRequestsToAnchor now tbl"
    and "n = card (streamId ` set rows)"
  shows "findStreamsToAnchor e mx mn deadline now tbl \<noteq> [] \<longleftrightarrow>
    rows \<noteq> [] \<and> (mn \<le> (if mx = 0 then n else min mx n) \<or> (\<exists>r\<in>set rows. createdAt r < deadline))"
proof -
  define gs where "gs = group_batch e mx now tbl"
  note facts = group_batch_facts [OF assms(1), where mx = mx and now = now and tbl = tbl, folded gs_def, folded assms(2,3)]
  have empty: "gs = [] \<longleftrightarrow> rows = []"
    using facts(4) assms(3) by (auto simp: card_eq_0_iff min_def split: if_splits)
  have expired: "snd (hd gs) < deadline \<longleftrightarrow> (\<exists>r\<in>set rows. createdAt r < deadline)" if ne: "gs \<noteq> []"
  proof
    assume "snd (hd gs) < deadline"
    then show "\<exists>r\<in>set rows. createdAt r < deadline"
      using ne facts(1) stream_age_attained by (metis list.set_sel(1) prod.collapse)
  next
    assume "\<exists>r\<in>set rows. createdAt r < deadline"
    then obtain r where r: "r \<in> set rows" "createdAt r < deadline" by blast
    obtain s t where hd: "hd gs = (s, t)" "(s, t) \<in> set gs"
      using ne by (cases gs; cases "hd gs") auto
    have "t \<le> stream_age rows (streamId r)"
    proof (cases "streamId r \<in> fst ` set gs")
      case True
      then obtain u where u: "(streamId r, u) \<in> set gs" by auto
      then have "t \<le> u"
        using facts(3) ne hd by (cases gs) auto
      with u facts(1) show ?thesis by blast
    next
      case False
      with facts(5) [OF hd(2)] r show ?thesis by blast
    qed
    with stream_age_le [OF r(1)] r(2) hd show "snd (hd gs) < deadline" by simp
  qed
  show ?thesis
    using empty expired facts(4) assms(3)
    by (auto simp: findStreamsToAnchor_eq gs_def [symmetric] Let_def)
qed

theorem findStreamsToAnchor_nonempty_iff_witness:
  "findStreamsToAnchor stable_engine 0 9 4 9 example_table \<noteq> [] \<longleftrightarrow>
    findRequestsToAnchor 9 example_table \<noteq> []
    \<and> (9 \<le> (if (0::nat) = 0 then card (streamId ` set (findRequestsToAnchor 9 example_table))
            else min 0 (card (streamId ` set (findRequestsToAnchor 9 example_table))))
       \<or> (\<exists>r\<in>set (findRequestsToAnchor 9 example_table). createdAt r < 4))"
  by (rule findStreamsToAnchor_nonempty_iff [OF sql_engine_stable refl refl])

section \<open>Marking a batch\<close>

text \<open>
  C10 (findAndMarkReady): what a successful call did is one committed transaction that moved to
  \<open>READY\<close>, with a fresh \<open>updatedAt\<close>, exactly the requests that need anchoring on the chosen
  streams, left every other row alone, and returned the old versions of the moved rows,
  oldest first.
\<close>

theorem findAndMarkReady_exact:
  assumes "sql_engine e" and "\<forall>a\<in>set tries. request_table_wf (att_db a)"
    and "findAndMarkReady e d mx mn tries = Some (Inr (tbl', reqs))"
  shows "\<exists>a\<in>set tries. \<exists>chosen. \<not> att_aborted a
    \<and> chosen = chosen_for_batch e d mx (case_option mx (\<lambda>m. m) mn) (att_now a) (att_db a)
    \<and> tbl' = map (\<lambda>r. if chosen r then r\<lparr>status := READY, updatedAt := att_clock a\<rparr> else r) (att_db a)
    \<and> set reqs = {r \<in> set (att_db a). chosen r} \<and> distinct reqs \<and> sorted (map createdAt reqs)"
proof -
  from assms(3) obtain a where a: "a \<in> set tries" "\<not> att_aborted a"
    and body: "mark_ready_txn e d mx (case_option mx (\<lambda>m. m) mn) a = Inr (tbl', reqs)"
    unfolding findAndMarkReady_def by (rule ready.retry_Some_cases)
  have wf: "request_table_wf (att_db a)" using assms(2) a(1) by blast
  from body mark_ready_body [OF assms(1) wf a(2)] query_rows [OF assms(1) wf] a
  show ?thesis by (intro bexI [of _ a] exI) auto
qed

theorem findAndMarkReady_exact_witness:
  "\<exists>a\<in>set [example_attempt 9 True, example_attempt 10 False]. \<exists>chosen. \<not> att_aborted a
    \<and> chosen = chosen_for_batch stable_engine 20 2 (case_option 2 (\<lambda>m. m) None) (att_now a) (att_db a)
    \<and> map (\<lambda>r. if req_id r \<in> {''1'', ''2'', ''4''} then r\<lparr>status := READY, updatedAt := 11\<rparr> else r) example_table
      = map (\<lambda>r. if chosen r then r\<lparr>status := READY, updatedAt := att_clock a\<rparr> else r) (att_db a)
    \<and> set [row ''2'' PENDING ''b'' 3 3, row ''1'' PENDING ''a'' 5 5, row ''4'' PENDING ''b'' 7 7]
      = {r \<in> set (att_db a). chosen r}
    \<and> distinct [row ''2'' PENDING ''b'' 3 3, row ''1'' PENDING ''a'' 5 5, row ''4'' PENDING ''b'' 7 7]
    \<and> sorted (map createdAt [row ''2'' PENDING ''b'' 3 3, row ''1'' PENDING ''a'' 5 5, row ''4'' PENDING ''b'' 7 7])"
  by (rule findAndMarkReady_exact [OF sql_engine_stable]) code_simp+

text \<open>
  findAndMarkReady: the call never fails on a table with unique keys, and returns as soon
  as one try is not aborted by the server; the check that all rows were updated cannot fail.
\<close>

theorem findAndMarkReady_returns:
  assumes "sql_engine e" and "\<forall>a\<in>set tries. request_table_wf (att_db a)"
  shows "(\<exists>tbl' reqs. findAndMarkReady e d mx mn tries = Some (Inr (tbl', reqs)))
    \<longleftrightarrow> (\<exists>a\<in>set tries. \<not> att_aborted a)"
proof
  assume "\<exists>tbl' reqs. findAndMarkReady e d mx mn tries = Some (Inr (tbl', reqs))"
  then show "\<exists>a\<in>set tries. \<not> att_aborted a"
    using ready.retry_None_iff [of e d mx "case_option mx (\<lambda>m. m) mn" tries]
    unfolding findAndMarkReady_def by auto
next
  assume "\<exists>a\<in>set tries. \<not> att_aborted a"
  then obtain r where r: "findAndMarkReady e d mx mn tries = Some r"
    using ready.retry_None_iff [of e d mx "case_option mx (\<lambda>m. m) mn" tries]
    unfolding findAndMarkReady_def by auto
  then obtain a where a: "a \<in> set tries" "\<not> att_aborted a"
    "mark_ready_txn e d mx (case_option mx (\<lambda>m. m) mn) a = r"
    unfolding findAndMarkReady_def by (rule ready.retry_Some_cases)
  with assms(2) mark_ready_body [OF assms(1) _ a(2)] r
  show "\<exists>tbl' reqs. findAndMarkReady e d mx mn tries = Some (Inr (tbl', reqs))"
    by (metis (no_types, lifting))
qed

theorem findAndMarkReady_returns_witness:
  "(\<exists>tbl' reqs. findAndMarkReady stable_engine 20 2 None
       [example_attempt 9 True, example_attempt 10 False] = Some (Inr (tbl', reqs)))
    \<longleftrightarrow> (\<exists>a\<in>set [example_attempt 9 True, example_attempt 10 False]. \<not> att_aborted a)"
  by (rule findAndMarkReady_returns [OF sql_engine_stable]) code_simp

text \<open>
  updateExpiringReadyRequests: when some \<open>READY\<close> request has waited longer than the retry
  interval, every \<open>READY\<close> request gets a new \<open>updatedAt\<close>, expired or not, and their number is
  returned; otherwise nothing is written and the result is 0.
\<close>

theorem updateExpiringReadyRequests_all_or_none:
  assumes "sql_engine e" and "\<forall>a\<in>set tries. request_table_wf (att_db a)"
    and "updateExpiringReadyRequests e interval tries = Some r"
  shows "\<exists>a\<in>set tries. \<not> att_aborted a \<and> r =
    (if \<exists>q\<in>set (att_db a). status q = READY \<and> updatedAt q \<le> att_now a - interval
     then Inr (map (\<lambda>q. if status q = READY then q\<lparr>updatedAt := att_clock a\<rparr> else q) (att_db a),
               length (filter (\<lambda>q. status q = READY) (att_db a)))
     else Inr (att_db a, 0))"
proof -
  from assms(3) obtain a where a: "a \<in> set tries" "\<not> att_aborted a" "expire_ready_txn e interval a = r"
    unfolding updateExpiringReadyRequests_def by (rule expiring.retry_Some_cases)
  have "request_table_wf (att_db a)" using assms(2) a(1) by blast
  from expire_ready_body [OF assms(1) this a(2)] a show ?thesis
    by (intro bexI [of _ a]) simp_all
qed

theorem updateExpiringReadyRequests_all_or_none_witness:
  "\<exists>a\<in>set [example_attempt 9 False]. \<not> att_aborted a
    \<and> Inr (map (\<lambda>q. if req_id q = ''3'' then q\<lparr>updatedAt := 10\<rparr> else q) example_table, 1) =
    (if \<exists>q\<in>set (att_db a). status q = READY \<and> updatedAt q \<le> att_now a - 4
     then Inr (map (\<lambda>q. if status q = READY then q\<lparr>updatedAt := att_clock a\<rparr> else q) (att_db a),
               length (filter (\<lambda>q. status q = READY) (att_db a)))
     else Inr (att_db a, 0) :: cas_error + (request list \<times> nat))"
  by (rule updateExpiringReadyRequests_all_or_none [OF sql_engine_stable]) code_simp+

section \<open>Replacing, processing, looking up\<close>

text \<open>The pending requests of one origin on one stream.\<close>

definition pending_group :: "request \<Rightarrow> request list \<Rightarrow> request list" where
  "pending_group q tbl =
     filter (\<lambda>r. origin r = origin q \<and> streamId r = streamId q \<and> status r = PENDING) tbl"

lemma replaced_rows_eq:
  assumes "sql_engine e" and "request_table_wf tbl"
  shows "(pending_group q tbl = [] \<and> replaced_rows e q tbl = []) \<or>
    (\<exists>newest. set (pending_group q tbl) = insert newest (set (replaced_rows e q tbl))
      \<and> newest \<notin> set (replaced_rows e q tbl) \<and> distinct (replaced_rows e q tbl)
      \<and> length (replaced_rows e q tbl) = length (pending_group q tbl) - 1
      \<and> (\<forall>r\<in>set (replaced_rows e q tbl). timestamp r \<le> timestamp newest))"
proof -
  define sorted_group where "sorted_group = order_by e (\<lambda>r. - timestamp r) (pending_group q tbl)"
  have repl: "replaced_rows e q tbl = drop 1 sorted_group"
    by (simp add: replaced_rows_def sorted_group_def pending_group_def)
  have facts: "set sorted_group = set (pending_group q tbl)" "distinct sorted_group"
    "sorted (map (\<lambda>r. - timestamp r) sorted_group)" "length sorted_group = length (pending_group q tbl)"
    using assms(1) table_distinct [OF assms(2)]
    by (auto simp: sorted_group_def set_order_by distinct_order_by sorted_order_by length_order_by
        pending_group_def)
  show ?thesis
  proof (cases sorted_group)
    case Nil
    with facts(1) repl show ?thesis by simp
  next
    case (Cons newest rest)
    with facts repl show ?thesis by (intro disjI2 exI [of _ newest]) auto
  qed
qed

text \<open>
  C11 (markReplaced): of the pending requests with the same origin and stream, all become
  \<open>REPLACED\<close> but one, and that one has the latest client timestamp; the result counts the
  replaced ones and no row outside the group changes.
\<close>

theorem markReplaced_keeps_newest:
  assumes "sql_engine e" and "request_table_wf tbl" and "markReplaced e q tbl = (tbl', n)"
    and "pending_group q tbl \<noteq> []"
  shows "\<exists>newest. newest \<in> set (pending_group q tbl)
    \<and> (\<forall>r\<in>set (pending_group q tbl). timestamp r \<le> timestamp newest)
    \<and> n = length (pending_group q tbl) - 1
    \<and> tbl' = map (\<lambda>r. if r \<in> set (pending_group q tbl) \<and> r \<noteq> newest
                      then r\<lparr>status := REPLACED, message := Some (''Replaced by '' @ req_cid q)\<rparr>
                      else r) tbl
    \<and> pending_group q tbl' = [newest]"
proof -
  define gone where "gone = replaced_rows e q tbl"
  obtain newest where new: "set (pending_group q tbl) = insert newest (set gone)"
    "newest \<notin> set gone" "distinct gone" "length gone = length (pending_group q tbl) - 1"
    "\<forall>r\<in>set gone. timestamp r \<le> timestamp newest"
    using replaced_rows_eq [OF assms(1,2), of q] assms(4) unfolding gone_def by blast
  have sub: "set gone \<subseteq> set tbl" using new(1) by (auto simp: pending_group_def)
  have mem: "req_id r \<in> set (map req_id gone) \<longleftrightarrow> r \<in> set (pending_group q tbl) \<and> r \<noteq> newest"
    if "r \<in> set tbl" for r
    using id_in_rows_iff [OF assms(2) sub that] new(1,2) by auto
  have tbl': "tbl' = map (\<lambda>r. if r \<in> set (pending_group q tbl) \<and> r \<noteq> newest
                      then r\<lparr>status := REPLACED, message := Some (''Replaced by '' @ req_cid q)\<rparr>
                      else r) tbl"
    and n: "n = length gone"
    using assms(3) mem update_count [OF assms(2) sub new(3)]
    by (auto simp: markReplaced_def Let_def simp flip: gone_def)
  have "pending_group q tbl' = filter (\<lambda>r. (origin r = origin q \<and> streamId r = streamId q
      \<and> status r = PENDING) \<and> \<not> (r \<in> set (pending_group q tbl) \<and> r \<noteq> newest)) tbl"
    unfolding tbl' pending_group_def [of q "map f xs" for f xs] by (rule filter_map_if) simp
  also have "\<dots> = [newest]"
  proof (rule filter_only [OF table_distinct [OF assms(2)]])
    show "newest \<in> set tbl" using new(1) by (auto simp: pending_group_def)
  qed (use new(1) in \<open>auto simp: pending_group_def\<close>)
  finally show ?thesis
    using new tbl' n by (intro exI [of _ newest]) auto
qed

theorem markReplaced_keeps_newest_witness:
  "\<exists>newest. newest \<in> set (pending_group (row ''9'' PENDING ''b'' 0 0) example_table)
    \<and> (\<forall>r\<in>set (pending_group (row ''9'' PENDING ''b'' 0 0) example_table). timestamp r \<le> timestamp newest)
    \<and> (1::nat) = length (pending_group (row ''9'' PENDING ''b'' 0 0) example_table) - 1
    \<and> fst (markReplaced stable_engine (row ''9'' PENDING ''b'' 0 0) example_table)
      = map (\<lambda>r. if r \<in> set (pending_group (row ''9'' PENDING ''b'' 0 0) example_table) \<and> r \<noteq> newest
                then r\<lparr>status := REPLACED, message := Some (''Replaced by '' @ req_cid (row ''9'' PENDING ''b'' 0 0))\<rparr>
                else r) example_table
    \<and> pending_group (row ''9'' PENDING ''b'' 0 0)
        (fst (markReplaced stable_engine (row ''9'' PENDING ''b'' 0 0) example_table)) = [newest]"
  by (rule markReplaced_keeps_newest [OF sql_engine_stable example_table_wf]) code_simp+

text \<open>
  C12 (batchProcessing): a batch takes \<open>READY\<close> requests only, at most \<open>maxStreamLimit\<close> of them
  (all when it is 0) and never fewer than it could, turns exactly these into \<open>PROCESSING\<close>
  without touching \<open>updatedAt\<close>, and returns them as updated.
\<close>

theorem batchProcessing_exact:
  assumes "sql_engine e" and "request_table_wf tbl" and "batchProcessing e mx tbl = (tbl', returned)"
    and "ready = filter (\<lambda>r. status r = READY) tbl"
  shows "\<exists>chosen. distinct chosen \<and> set chosen \<subseteq> set ready
    \<and> length chosen = (if mx = 0 then length ready else min mx (length ready))
    \<and> tbl' = map (\<lambda>r. if r \<in> set chosen then r\<lparr>status := PROCESSING\<rparr> else r) tbl
    \<and> mset returned = mset (map (\<lambda>r. r\<lparr>status := PROCESSING\<rparr>) chosen)"
proof -
  define chosen where "chosen = limit_unless_zero mx (db_scan e ready)"
  have "distinct ready" using table_distinct [OF assms(2)] assms(4) by simp
  then have dist: "distinct chosen"
    using mset_eq_distinct [OF mset_db_scan [OF assms(1), of ready]]
    by (simp add: chosen_def distinct_limit_unless_zero)
  have sub: "set chosen \<subseteq> set ready"
    using set_limit_unless_zero [of mx "db_scan e ready"]
    by (simp add: chosen_def set_db_scan [OF assms(1)])
  then have "set chosen \<subseteq> set tbl" using assms(4) by auto
  note mem = id_in_rows_iff [OF assms(2) this]
  have rows: "filter (\<lambda>r. req_id r \<in> set (map req_id chosen)) tbl = filter (\<lambda>r. r \<in> set chosen) tbl"
    using mem by (intro filter_cong) auto
  have "mset (filter (\<lambda>r. r \<in> set chosen) tbl) = mset chosen"
    using dist \<open>set chosen \<subseteq> set tbl\<close> table_distinct [OF assms(2)]
    by (subst set_eq_iff_mset_eq_distinct [symmetric]) auto
  then have "mset (map f (db_scan e (filter (\<lambda>r. req_id r \<in> set (map req_id chosen)) tbl)))
      = mset (map f chosen)" for f :: "request \<Rightarrow> request"
    unfolding rows mset_map mset_db_scan [OF assms(1)] by (simp only: mset_map)
  then have "mset returned = mset (map (\<lambda>r. r\<lparr>status := PROCESSING\<rparr>) chosen)"
    using assms(3) unfolding batchProcessing_def Let_def assms(4) [symmetric] chosen_def [symmetric]
    by (simp only: prod.inject) blast
  moreover have "tbl' = map (\<lambda>r. if r \<in> set chosen then r\<lparr>status := PROCESSING\<rparr> else r) tbl"
    using assms(3) mem unfolding batchProcessing_def Let_def assms(4) [symmetric] chosen_def [symmetric]
    by auto
  moreover have "length chosen = (if mx = 0 then length ready else min mx (length ready))"
    by (simp add: chosen_def length_limit_unless_zero length_db_scan [OF assms(1)])
  ultimately show ?thesis using dist sub by (intro exI [of _ chosen]) simp
qed

theorem batchProcessing_exact_witness:
  "\<exists>chosen. distinct chosen \<and> set chosen \<subseteq> set [row ''3'' READY ''c'' 1 1]
    \<and> length chosen = (if (8::nat) = 0 then length [row ''3'' READY ''c'' 1 1]
        else min 8 (length [row ''3'' READY ''c'' 1 1]))
    \<and> fst (batchProcessing stable_engine 8 example_table)
      = map (\<lambda>r. if r \<in> set chosen then r\<lparr>status := PROCESSING\<rparr> else r) example_table
    \<and> mset [row ''3'' PROCESSING ''c'' 1 1] = mset (map (\<lambda>r. r\<lparr>status := PROCESSING\<rparr>) chosen)"
  by (rule batchProcessing_exact [OF sql_engine_stable example_table_wf]) code_simp+

text \<open>
  findByIds: the call returns the rows with the given ids, oldest first, exactly when
  every id is in the table, and otherwise fails with how many of them were found.
\<close>

theorem findByIds_all_or_error:
  assumes "sql_engine e" and "request_table_wf tbl"
  shows "findByIds e ids tbl =
    (if set ids \<subseteq> req_id ` set tbl then Inr (order_by e createdAt (filter (\<lambda>r. req_id r \<in> set ids) tbl))
     else Inl (OnlyFound (card (set ids \<inter> req_id ` set tbl)) (card (set ids))))"
proof -
  have "length (filter (\<lambda>r. req_id r \<in> set ids) tbl) = card (set ids \<inter> req_id ` set tbl)"
  proof -
    have "distinct (map req_id (filter (\<lambda>r. req_id r \<in> set ids) tbl))"
      using assms(2) by (simp add: request_table_wf_def distinct_map_filter)
    then have "length (filter (\<lambda>r. req_id r \<in> set ids) tbl)
        = card (req_id ` set (filter (\<lambda>r. req_id r \<in> set ids) tbl))"
      by (metis distinct_card length_map set_map)
    also have "req_id ` set (filter (\<lambda>r. req_id r \<in> set ids) tbl) = set ids \<inter> req_id ` set tbl"
      by auto
    finally show ?thesis .
  qed
  moreover have "card (set ids \<inter> req_id ` set tbl) = card (set ids) \<longleftrightarrow> set ids \<subseteq> req_id ` set tbl"
    by (metis Int_absorb2 List.finite_set card_subset_eq inf.cobounded1 inf.cobounded2)
  ultimately show ?thesis
    using assms(1) by (simp add: findByIds_def Let_def length_order_by length_js_unique)
qed

theorem findByIds_all_or_error_witness:
  "findByIds stable_engine [''5'', ''2'', ''5''] example_table =
    (if set [''5'', ''2'', ''5''] \<subseteq> req_id ` set example_table
     then Inr (order_by stable_engine createdAt (filter (\<lambda>r. req_id r \<in> set [''5'', ''2'', ''5'']) example_table))
     else Inl (OnlyFound (card (set [''5'', ''2'', ''5''] \<inter> req_id ` set example_table))
                (card (set [''5'', ''2'', ''5'']))))"
  by (rule findByIds_all_or_error [OF sql_engine_stable example_table_wf])

text \<open>
  create: inserting a request for a CID that is new appends one row and returns it, keeps
  ids and CIDs unique and is found again by its CID; inserting a CID that is there changes
  nothing and returns null, so a repeated insertion never makes a second row.
\<close>

theorem create_idempotent:
  assumes "request_table_wf tbl" and "p_cid p = Some c" and "p_streamId p = Some s"
    and "p_status p = Some st" and "p_id p = None" and "new_id \<notin> set (map req_id tbl)"
  shows "(findByCid c tbl \<noteq> None \<longrightarrow> create new_id now p tbl = Inr (tbl, None))
    \<and> (findByCid c tbl = None \<longrightarrow> (\<exists>r. create new_id now p tbl = Inr (tbl @ [r], Some r)
          \<and> req_id r = new_id \<and> req_cid r = c \<and> streamId r = s \<and> status r = st
          \<and> request_table_wf (tbl @ [r]) \<and> findByCid c (tbl @ [r]) = Some r
          \<and> (\<forall>id2 now2. create id2 now2 p (tbl @ [r]) = Inr (tbl @ [r], None))))"
proof -
  have find: "find (\<lambda>x. req_cid x = c) (tbl @ [r]) = Some r"
    if "find (\<lambda>x. req_cid x = c) tbl = None" "req_cid r = c" for r
    using that by (induction tbl) (auto split: if_splits)
  show ?thesis
    using assms find
    by (auto simp: create_def toDB_def insert_row_def findByCid_def find_none_iff
        request_table_wf_def image_iff Let_def)
qed

definition example_params :: "string \<Rightarrow> partial_request" where
  "example_params c = empty_request\<lparr>p_cid := Some c, p_streamId := Some ''s'',
     p_status := Some PENDING, p_timestamp := Some 3\<rparr>"

theorem create_idempotent_witness:
  "\<exists>c. (findByCid c example_table \<noteq> None
      \<longrightarrow> create ''77'' 5 (example_params c) example_table = Inr (example_table, None))
    \<and> (findByCid c example_table = None
      \<longrightarrow> (\<exists>r. create ''77'' 5 (example_params c) example_table = Inr (example_table @ [r], Some r)
          \<and> req_id r = ''77'' \<and> req_cid r = c \<and> streamId r = ''s'' \<and> status r = PENDING
          \<and> request_table_wf (example_table @ [r]) \<and> findByCid c (example_table @ [r]) = Some r
          \<and> (\<forall>id2 now2. create id2 now2 (example_params c) (example_table @ [r])
                = Inr (example_table @ [r], None))))"
  by (rule exI [of _ "''new''"], rule create_idempotent [OF example_table_wf]) code_simp+

text \<open>
  countByStatus: parsing the driver's decimal string gives back the number of rows with
  the status.
\<close>

theorem countByStatus_counts:
  "countByStatus s tbl = Some (int (length (filter (\<lambda>r. status r = s) tbl)))"
  by (simp add: countByStatus_def parseCountResult_def parse_int10_nat_to_string)

text \<open>
  findRequestsToGarbageCollect: a request is offered for unpinning exactly when it is
  pinned, completed or failed, and no request on its stream was updated within the retention
  window.
\<close>

theorem findRequestsToGarbageCollect_iff:
  assumes "sql_engine e"
  shows "r \<in> set (findRequestsToGarbageCollect e now tbl) \<longleftrightarrow>
    r \<in> set tbl \<and> status r \<in> {COMPLETED, FAILED} \<and> pinned r
    \<and> (\<forall>q\<in>set tbl. streamId q = streamId r \<longrightarrow> updatedAt q < now - ANCHOR_DATA_RETENTION_WINDOW)"
proof -
  have "streamId r \<notin> set (recently_updated dl tbl) \<longleftrightarrow>
      (\<forall>q\<in>set tbl. streamId q = streamId r \<longrightarrow> updatedAt q < dl)" for dl
    unfolding recently_updated_def by (auto simp: image_iff) (metis not_le)+
  then show ?thesis
    using assms by (auto simp: findRequestsToGarbageCollect_def Let_def set_order_by)
qed

theorem findRequestsToGarbageCollect_iff_witness:
  "row ''5'' COMPLETED ''d'' 0 0 \<in> set (findRequestsToGarbageCollect stable_engine 9999999999 example_table) \<longleftrightarrow>
    row ''5'' COMPLETED ''d'' 0 0 \<in> set example_table \<and> status (row ''5'' COMPLETED ''d'' 0 0) \<in> {COMPLETED, FAILED}
    \<and> pinned (row ''5'' COMPLETED ''d'' 0 0)
    \<and> (\<forall>q\<in>set example_table. streamId q = streamId (row ''5'' COMPLETED ''d'' 0 0)
         \<longrightarrow> updatedAt q < 9999999999 - ANCHOR_DATA_RETENTION_WINDOW)"
  by (rule findRequestsToGarbageCollect_iff [OF sql_engine_stable])

end
