(* ===== verification/Transaction_Mutex.thy ===== *)
theory Transaction_Mutex
  imports Models
begin

text \<open>
  \<open>src/src/repositories/transaction-repository.ts\<close>: the mutex around the submission of a
  blockchain transaction. \<open>withTransactionMutex\<close> asks PostgreSQL for the advisory lock
  \<open>TRANSACTION_MUTEX_ID\<close> until it is granted or the attempts run out. The answers of the
  server are a parameter; an error of the query ends the loop. Several service processes
  compete for the lock: \<open>mutex_step\<close> interleaves them, with the documented behaviour of
  \<open>pg_try_advisory_xact_lock\<close>, which grants the lock when no other transaction holds it and
  releases it when the transaction ends.
\<close>

section \<open>One caller\<close>

datatype lock_answer = Granted | Refused | QueryFailed cas_error

text \<open>\<open>maxAttempts\<close> is \<open>None\<close> for \<open>Infinity\<close>, the default.\<close>

definition attempts_left :: "nat option \<Rightarrow> nat \<Rightarrow> bool" where
  "attempts_left maxAttempts attempt =
     (case maxAttempts of None \<Rightarrow> True | Some m \<Rightarrow> attempt \<le> m)"

definition gave_up :: "nat option \<Rightarrow> cas_error" where
  "gave_up maxAttempts = MutexNotAcquired (case maxAttempts of None \<Rightarrow> 0 | Some m \<Rightarrow> m)"

text \<open>
  The loop over the answers still to come. \<open>None\<close> is a call that is still waiting when the
  given answers are used up; \<open>Inr k\<close> says that attempt \<open>k\<close> was granted.
\<close>

fun acquire :: "nat option \<Rightarrow> nat \<Rightarrow> lock_answer list \<Rightarrow> (cas_error + nat) option" where
  "acquire maxAttempts attempt answers =
     (if \<not> attempts_left maxAttempts attempt then Some (Inl (gave_up maxAttempts))
      else (case answers of
          [] \<Rightarrow> None
        | Granted # _ \<Rightarrow> Some (Inr attempt)
        | QueryFailed e # _ \<Rightarrow> Some (Inl e)
        | Refused # later \<Rightarrow> acquire maxAttempts (Suc attempt) later))"

declare acquire.simps [simp del]

definition withTransactionMutex :: "('s \<Rightarrow> (cas_error + 'r) \<times> 's) \<Rightarrow> nat option \<Rightarrow> lock_answer list
    \<Rightarrow> 's \<Rightarrow> ((cas_error + 'r) \<times> 's) option" where
  "withTransactionMutex operation maxAttempts answers s =
     (case acquire maxAttempts 1 answers of
        None \<Rightarrow> None
      | Some (Inl e) \<Rightarrow> Some (Inl e, s)
      | Some (Inr k) \<Rightarrow> Some (operation s))"

lemma acquire_after_refusals:
  "attempts_left mx (attempt + n - 1) \<or> n = 0 \<Longrightarrow>
    acquire mx attempt (replicate n Refused @ rest) = acquire mx (attempt + n) rest"
proof (induction n arbitrary: attempt)
  case (Suc n)
  have "attempts_left mx attempt" and "attempts_left mx (Suc attempt + n - 1) \<or> n = 0"
    using Suc.prems by (auto simp: attempts_left_def split: option.splits)
  with Suc.IH [of "Suc attempt"] show ?case
    by (simp add: acquire.simps [of mx attempt])
qed simp

lemma acquire_exhausted: "acquire (Some m) (Suc m) answers = Some (Inl (MutexNotAcquired m))"
  by (simp add: acquire.simps attempts_left_def gave_up_def)

text \<open>
  withTransactionMutex: the operation runs exactly once, and only after \<open>n\<close> refused
  attempts followed by a granted one within the limit; \<open>maxAttempts\<close> refusals end the call with
  the error that names the limit and leave the state alone; with no limit a call whose lock is
  finally granted never gives up.
\<close>

theorem withTransactionMutex_runs_iff_granted:
  "withTransactionMutex operation mx (replicate n Refused @ Granted # rest) s =
      (if attempts_left mx (Suc n) then Some (operation s) else Some (Inl (gave_up mx), s))
    \<and> withTransactionMutex operation (Some m) (replicate m Refused @ rest) s
      = Some (Inl (MutexNotAcquired m), s)
    \<and> withTransactionMutex operation None (replicate n Refused) s = None"
proof (intro conjI)
  have never: "acquire (Some m) 1 (replicate m Refused @ rest) = Some (Inl (MutexNotAcquired m))"
    for m rest
    using acquire_after_refusals [of "Some m" 1 m rest]
    by (cases "m = 0") (simp_all add: acquire_exhausted [of 0, simplified] acquire_exhausted attempts_left_def)
  show "withTransactionMutex operation (Some m) (replicate m Refused @ rest) s
      = Some (Inl (MutexNotAcquired m), s)"
    by (simp add: withTransactionMutex_def never [simplified])
  show "withTransactionMutex operation None (replicate n Refused) s = None"
    using acquire_after_refusals [of None 1 n "[]"]
    by (simp add: withTransactionMutex_def acquire.simps attempts_left_def)
  show "withTransactionMutex operation mx (replicate n Refused @ Granted # rest) s =
      (if attempts_left mx (Suc n) then Some (operation s) else Some (Inl (gave_up mx), s))"
  proof (cases "attempts_left mx (Suc n)")
    case True
    then have "attempts_left mx (1 + n - 1)" by (auto simp: attempts_left_def split: option.splits)
    with True acquire_after_refusals [of mx 1 n "Granted # rest"] show ?thesis
      by (simp add: withTransactionMutex_def acquire.simps)
  next
    case False
    then obtain m where m: "mx = Some m" "m \<le> n"
      by (auto simp: attempts_left_def split: option.splits)
    have "replicate n Refused @ Granted # rest
        = replicate m Refused @ (replicate (n - m) Refused @ Granted # rest)"
      using m(2) by (metis append_assoc le_add_diff_inverse replicate_add)
    then have "acquire (Some m) 1 (replicate n Refused @ Granted # rest) = Some (Inl (MutexNotAcquired m))"
      by (simp only: never)
    with False m(1) show ?thesis
      by (simp add: withTransactionMutex_def gave_up_def)
  qed
qed

section \<open>Competing callers\<close>

datatype phase =
    Trying nat              \<comment> \<open>about to ask for the lock for the given attempt\<close>
  | Holding nat             \<comment> \<open>granted at that attempt; the operation runs\<close>
  | Ended "cas_error option"  \<comment> \<open>the transaction is over: committed, or rolled back by an error\<close>

text \<open>The lock holder, as the server knows it, and the phase of every process.\<close>

record mutex_state =
  holder :: "nat option"
  phases :: "nat \<Rightarrow> phase"

definition mutex_start :: mutex_state where
  "mutex_start = \<lparr>holder = None, phases = (\<lambda>_. Trying 1)\<rparr>"

inductive mutex_step :: "nat option \<Rightarrow> mutex_state \<Rightarrow> mutex_state \<Rightarrow> bool" for mx where
  grant: "phases s w = Trying k \<Longrightarrow> attempts_left mx k \<Longrightarrow> holder s = None \<Longrightarrow>
    mutex_step mx s (s\<lparr>holder := Some w, phases := (phases s)(w := Holding k)\<rparr>)"
| refuse: "phases s w = Trying k \<Longrightarrow> attempts_left mx k \<Longrightarrow> holder s \<noteq> None \<Longrightarrow>
    mutex_step mx s (s\<lparr>phases := (phases s)(w := Trying (Suc k))\<rparr>)"
| query_error: "phases s w = Trying k \<Longrightarrow> attempts_left mx k \<Longrightarrow>
    mutex_step mx s (s\<lparr>phases := (phases s)(w := Ended (Some e))\<rparr>)"
| give_up: "phases s w = Trying k \<Longrightarrow> \<not> attempts_left mx k \<Longrightarrow>
    mutex_step mx s (s\<lparr>phases := (phases s)(w := Ended (Some (gave_up mx)))\<rparr>)"
| finish: "phases s w = Holding k \<Longrightarrow>
    mutex_step mx s (s\<lparr>holder := None, phases := (phases s)(w := Ended result)\<rparr>)"
| again: "phases s w = Ended r \<Longrightarrow>
    mutex_step mx s (s\<lparr>phases := (phases s)(w := Trying 1)\<rparr>)"

inductive mutex_reachable :: "nat option \<Rightarrow> mutex_state \<Rightarrow> bool" for mx where
  start: "mutex_reachable mx mutex_start"
| step: "mutex_reachable mx s \<Longrightarrow> mutex_step mx s t \<Longrightarrow> mutex_reachable mx t"

fun is_holding :: "nat option \<Rightarrow> phase \<Rightarrow> bool" where
  "is_holding mx (Holding k) = attempts_left mx k"
| "is_holding mx (Trying k) = False"
| "is_holding mx (Ended r) = False"

text \<open>The phases agree with the server: only its holder is past the loop.\<close>

definition mutex_inv :: "nat option \<Rightarrow> mutex_state \<Rightarrow> bool" where
  "mutex_inv mx s \<longleftrightarrow>
     (\<forall>w. if holder s = Some w then is_holding mx (phases s w) else \<nexists>k. phases s w = Holding k)"

lemma mutex_invD:
  assumes "mutex_inv mx s" and "phases s w = Holding k"
  shows "holder s = Some w" and "attempts_left mx k" and "phases s v = Holding j \<Longrightarrow> v = w"
proof -
  show h: "holder s = Some w" and "attempts_left mx k"
    using assms unfolding mutex_inv_def by (metis is_holding.simps(1))+
  assume "phases s v = Holding j"
  then have "holder s = Some v" using assms(1) unfolding mutex_inv_def by metis
  with h show "v = w" by simp
qed

lemma mutex_inv_other:
  assumes "mutex_inv mx s" and "\<not> is_holding mx (phases s w)" and "\<nexists>k. p = Holding k"
  shows "mutex_inv mx (s\<lparr>phases := (phases s)(w := p)\<rparr>)"
  unfolding mutex_inv_def
proof
  fix v
  show "if holder (s\<lparr>phases := (phases s)(w := p)\<rparr>) = Some v
      then is_holding mx (phases (s\<lparr>phases := (phases s)(w := p)\<rparr>) v)
      else \<nexists>k. phases (s\<lparr>phases := (phases s)(w := p)\<rparr>) v = Holding k"
    using assms(1) [unfolded mutex_inv_def, rule_format, of v] assms(2,3)
    by (auto split: if_splits)
qed

lemma mutex_inv_step:
  assumes "mutex_inv mx s" and "mutex_step mx s t"
  shows "mutex_inv mx t"
  using assms(2)
proof cases
  case (grant w k)
  have "\<nexists>j. phases s v = Holding j" for v
    using assms(1) [unfolded mutex_inv_def, rule_format, of v] grant(4) by simp
  then show ?thesis using grant by (simp add: mutex_inv_def)
next
  case (finish w k result)
  have "\<nexists>j. phases s v = Holding j" if "v \<noteq> w" for v
    using mutex_invD(3) [OF assms(1) finish(2)] that by blast
  then show ?thesis using finish(1) by (auto simp: mutex_inv_def)
qed (simp_all add: mutex_inv_other [OF assms(1)])

lemma mutex_inv_reachable: "mutex_reachable mx s \<Longrightarrow> mutex_inv mx s"
proof (induction rule: mutex_reachable.induct)
  case start
  show ?case by (simp add: mutex_inv_def mutex_start_def)
next
  case (step s t)
  then show ?case using mutex_inv_step by blast
qed

text \<open>
  C7 (withTransactionMutex): however the processes interleave and fail, at most one of them is
  inside its operation, it is the one the server has as the holder, and its attempt was within
  the limit; when the operation ends, with or without an error, the lock is free again.
\<close>

theorem mutex_exclusion:
  assumes "mutex_reachable mx s" and "phases s w = Holding k"
  shows "holder s = Some w \<and> attempts_left mx k
    \<and> (\<forall>v j. phases s v = Holding j \<longrightarrow> v = w)
    \<and> (\<forall>t j. mutex_step mx s t \<and> phases t w = Ended j \<longrightarrow> holder t = None)"
proof -
  have inv: "mutex_inv mx s" using assms(1) by (rule mutex_inv_reachable)
  then have own: "holder s = Some w" "attempts_left mx k"
    "\<And>v j. phases s v = Holding j \<Longrightarrow> v = w"
    using mutex_invD [OF inv assms(2)] by blast+
  have "holder t = None" if "mutex_step mx s t" "phases t w = Ended j" for t j
    using that(1)
  proof cases
    case (refuse v i)
    then show ?thesis using assms(2) that(2) by (cases "v = w") simp_all
  next
    case (query_error v i e)
    then show ?thesis using assms(2) that(2) by (cases "v = w") simp_all
  next
    case (give_up v i)
    then show ?thesis using assms(2) that(2) by (cases "v = w") simp_all
  next
    case (again v r)
    then show ?thesis using assms(2) that(2) by (cases "v = w") simp_all
  qed (use own(1) in simp_all)
  with own show ?thesis by blast
qed

definition example_mutex :: mutex_state where
  "example_mutex = \<lparr>holder = Some 2, phases = (\<lambda>_. Trying 1)(2 := Holding 1)\<rparr>"

lemma example_mutex_reachable: "mutex_reachable (Some 3) example_mutex"
proof -
  have "mutex_step (Some 3) mutex_start
      (mutex_start\<lparr>holder := Some 2, phases := (phases mutex_start)(2 := Holding 1)\<rparr>)"
    by (rule mutex_step.grant) (simp_all add: mutex_start_def attempts_left_def)
  then show ?thesis
    using mutex_reachable.start mutex_reachable.step
    by (fastforce simp: example_mutex_def mutex_start_def)
qed

theorem mutex_exclusion_witness:
  "\<exists>w. holder example_mutex = Some w \<and> attempts_left (Some 3) 1
    \<and> (\<forall>v j. phases example_mutex v = Holding j \<longrightarrow> v = w)
    \<and> (\<forall>t j. mutex_step (Some 3) example_mutex t \<and> phases t w = Ended j \<longrightarrow> holder t = None)"
  by (rule exI [of _ 2], rule mutex_exclusion [OF example_mutex_reachable]) (simp add: example_mutex_def)

end
