(* ===== verification/Effects.thy ===== *)
theory Effects
  imports Transaction_Mutex
begin

text \<open>
  Programs that read and write a state, may fail with an error that keeps the effects done so
  far, and may still be waiting (\<open>None\<close>) when the answers of the outside world are used up:
  the shape of the asynchronous methods of the service.
\<close>

type_synonym ('s, 'a) prog = "'s \<Rightarrow> ((cas_error + 'a) \<times> 's) option"

definition returnP :: "'a \<Rightarrow> ('s, 'a) prog" where
  "returnP x s = Some (Inr x, s)"

definition throwP :: "cas_error \<Rightarrow> ('s, 'a) prog" where
  "throwP e s = Some (Inl e, s)"

definition liftP :: "cas_error + 'a \<Rightarrow> ('s, 'a) prog" where
  "liftP m s = Some (m, s)"

definition bindP :: "('s, 'a) prog \<Rightarrow> ('a \<Rightarrow> ('s, 'b) prog) \<Rightarrow> ('s, 'b) prog" where
  "bindP m f s =
     (case m s of
        None \<Rightarrow> None
      | Some (Inl e, s') \<Rightarrow> Some (Inl e, s')
      | Some (Inr x, s') \<Rightarrow> f x s')"

text \<open>\<open>try { m } catch (e) { handler }\<close>\<close>

definition catchP :: "('s, 'a) prog \<Rightarrow> (cas_error \<Rightarrow> ('s, 'a) prog) \<Rightarrow> ('s, 'a) prog" where
  "catchP m handler s =
     (case m s of
        None \<Rightarrow> None
      | Some (Inl e, s') \<Rightarrow> handler e s'
      | Some (Inr x, s') \<Rightarrow> Some (Inr x, s'))"

definition modifyP :: "('s \<Rightarrow> 's) \<Rightarrow> ('s, unit) prog" where
  "modifyP f s = Some (Inr (), f s)"

text \<open>A call that fails with the given error, or has the given effect.\<close>

definition callP :: "cas_error option \<Rightarrow> ('s \<Rightarrow> 's) \<Rightarrow> ('s, unit) prog" where
  "callP failure f s = (case failure of Some e \<Rightarrow> Some (Inl e, s) | None \<Rightarrow> Some (Inr (), f s))"

lemma prog_simps [simp]:
  "returnP x s = Some (Inr x, s)"
  "throwP e s = Some (Inl e, s)"
  "liftP m s = Some (m, s)"
  "modifyP f s = Some (Inr (), f s)"
  by (simp_all add: returnP_def throwP_def liftP_def modifyP_def)

lemma bindP_Inr_iff [err_simps]:
  "bindP m f s = Some (Inr y, t) \<longleftrightarrow> (\<exists>x u. m s = Some (Inr x, u) \<and> f x u = Some (Inr y, t))"
  by (auto simp: bindP_def split: option.splits prod.splits sum.splits)

lemma bindP_Inl_iff [err_simps]:
  "bindP m f s = Some (Inl e, t) \<longleftrightarrow>
     m s = Some (Inl e, t) \<or> (\<exists>x u. m s = Some (Inr x, u) \<and> f x u = Some (Inl e, t))"
  by (auto simp: bindP_def split: option.splits prod.splits sum.splits)

lemma catchP_Inr_iff [err_simps]:
  "catchP m h s = Some (Inr y, t) \<longleftrightarrow>
     m s = Some (Inr y, t) \<or> (\<exists>e u. m s = Some (Inl e, u) \<and> h e u = Some (Inr y, t))"
  by (auto simp: catchP_def split: option.splits prod.splits sum.splits)

lemma catchP_Inl_iff [err_simps]:
  "catchP m h s = Some (Inl e, t) \<longleftrightarrow> (\<exists>e' u. m s = Some (Inl e', u) \<and> h e' u = Some (Inl e, t))"
  by (auto simp: catchP_def split: option.splits prod.splits sum.splits)

lemma callP_Inr_iff [err_simps]: "callP failure f s = Some (Inr x, t) \<longleftrightarrow> failure = None \<and> t = f s"
  by (auto simp: callP_def split: option.splits)

lemma callP_Inl_iff [err_simps]: "callP failure f s = Some (Inl e, t) \<longleftrightarrow> failure = Some e \<and> t = s"
  by (auto simp: callP_def split: option.splits)

text \<open>A program that keeps a part of the state, whatever it returns.\<close>

definition keepsP :: "('s \<Rightarrow> 'v) \<Rightarrow> ('s, 'a) prog \<Rightarrow> bool" where
  "keepsP view m \<longleftrightarrow> (\<forall>s r t. m s = Some (r, t) \<longrightarrow> view t = view s)"

lemma keepsPD: "keepsP view m \<Longrightarrow> m s = Some (r, t) \<Longrightarrow> view t = view s"
  by (simp add: keepsP_def)

lemma keepsP_basic [intro]:
  "keepsP view (returnP x)" "keepsP view (throwP e)" "keepsP view (liftP r)"
  "(\<And>s. view (f s) = view s) \<Longrightarrow> keepsP view (modifyP f)"
  "(\<And>s. view (f s) = view s) \<Longrightarrow> keepsP view (callP failure f)"
  by (auto simp: keepsP_def callP_def split: option.splits)

lemma keepsP_bind [intro]:
  assumes "keepsP view m" and "\<And>x. keepsP view (f x)"
  shows "keepsP view (bindP m f)"
  unfolding keepsP_def
proof (intro allI impI)
  fix s r t
  assume run: "bindP m f s = Some (r, t)"
  then obtain r1 u where m: "m s = Some (r1, u)"
    by (auto simp: bindP_def split: option.splits)
  then have u: "view u = view s" using assms(1) by (simp add: keepsP_def)
  show "view t = view s"
  proof (cases r1)
    case (Inl e)
    with run m u show ?thesis by (simp add: bindP_def)
  next
    case (Inr x)
    then have "f x u = Some (r, t)" using run m by (simp add: bindP_def)
    then show ?thesis using assms(2) [of x] u by (metis keepsPD)
  qed
qed

lemma keepsP_catch [intro]:
  assumes "keepsP view m" and "\<And>e. keepsP view (h e)"
  shows "keepsP view (catchP m h)"
  unfolding keepsP_def
proof (intro allI impI)
  fix s r t
  assume run: "catchP m h s = Some (r, t)"
  then obtain r1 u where m: "m s = Some (r1, u)"
    by (auto simp: catchP_def split: option.splits)
  then have u: "view u = view s" using assms(1) by (simp add: keepsP_def)
  show "view t = view s"
  proof (cases r1)
    case (Inl e)
    then have "h e u = Some (r, t)" using run m by (simp add: catchP_def)
    then show ?thesis using assms(2) [of e] u by (metis keepsPD)
  next
    case (Inr x)
    with run m u show ?thesis by (simp add: catchP_def)
  qed
qed

text \<open>A program that keeps a property of the state, whatever it returns.\<close>

definition stableP :: "('s \<Rightarrow> bool) \<Rightarrow> ('s, 'a) prog \<Rightarrow> bool" where
  "stableP I m \<longleftrightarrow> (\<forall>s r t. I s \<longrightarrow> m s = Some (r, t) \<longrightarrow> I t)"

lemma stablePD: "stableP I m \<Longrightarrow> I s \<Longrightarrow> m s = Some (r, t) \<Longrightarrow> I t"
  unfolding stableP_def by blast

lemma keepsP_stable: "keepsP view m \<longleftrightarrow> (\<forall>v. stableP (\<lambda>s. view s = v) m)"
  by (auto simp: keepsP_def stableP_def)

lemma stableP_basic [intro]:
  "stableP I (returnP x)" "stableP I (throwP e)" "stableP I (liftP r)"
  "(\<And>s. I s \<Longrightarrow> I (f s)) \<Longrightarrow> stableP I (modifyP f)"
  "(\<And>s. I s \<Longrightarrow> I (f s)) \<Longrightarrow> stableP I (callP failure f)"
  by (auto simp: stableP_def callP_def split: option.splits)

lemma stableP_bind [intro]:
  assumes "stableP I m" and "\<And>x. stableP I (f x)"
  shows "stableP I (bindP m f)"
  unfolding stableP_def
proof (intro allI impI)
  fix s r t
  assume start: "I s" and run: "bindP m f s = Some (r, t)"
  then obtain r1 u where m: "m s = Some (r1, u)" by (auto simp: bindP_def split: option.splits)
  then have u: "I u" using stablePD [OF assms(1) start] by simp
  show "I t" using run m u stablePD [OF assms(2) u] by (cases r1) (auto simp: bindP_def)
qed

lemma stableP_lift: "(\<And>x. m = Inr x \<Longrightarrow> stableP I (f x)) \<Longrightarrow> stableP I (bindP (liftP m) f)"
  by (cases m) (auto simp: stableP_def bindP_def)

lemma stableP_catch [intro]:
  assumes "stableP I m" and "\<And>x. stableP I (f x)"
  shows "stableP I (catchP m f)"
  unfolding stableP_def
proof (intro allI impI)
  fix s r t
  assume start: "I s" and run: "catchP m f s = Some (r, t)"
  then obtain r1 u where m: "m s = Some (r1, u)" by (auto simp: catchP_def split: option.splits)
  then have u: "I u" using stablePD [OF assms(1) start] by simp
  show "I t" using run m u stablePD [OF assms(2) u] by (cases r1) (auto simp: catchP_def)
qed

lemma stableP_mutex:
  assumes "\<And>s. I s \<Longrightarrow> I (snd (operation s))"
  shows "stableP I (withTransactionMutex operation mx answers)"
  unfolding stableP_def
proof (intro allI impI)
  fix s r t
  assume "I s" and "withTransactionMutex operation mx answers s = Some (r, t)"
  then have "t = s \<or> t = snd (operation s)"
    by (auto simp: withTransactionMutex_def split: option.splits sum.splits)
  then show "I t" using \<open>I s\<close> assms by auto
qed

lemma keepsP_mutex:
  "(\<And>s. view (snd (operation s)) = view s) \<Longrightarrow> keepsP view (withTransactionMutex operation mx answers)"
  by (auto simp: keepsP_def withTransactionMutex_def split: option.splits sum.splits) (metis snd_conv)+

end
