(* ===== verification/Anchor_Repository.thy ===== *)
theory Anchor_Repository
  imports Request_Laws
begin

text \<open>
  \<open>src/src/repositories/anchor-repository.ts\<close>: the table \<open>anchor\<close>, whose \<open>request_id\<close> is unique
  and refers to the table \<open>request\<close>, and the database as the pair of both tables.
\<close>

record database =
  requests :: "request list"
  anchors :: "stored_anchor list"

definition anchor_table_wf :: "stored_anchor list \<Rightarrow> bool" where
  "anchor_table_wf tbl \<longleftrightarrow> distinct (map requestId tbl) \<and> distinct (map anchor_id tbl)"

text \<open>Anchors refer to requests that exist.\<close>

definition database_wf :: "database \<Rightarrow> bool" where
  "database_wf db \<longleftrightarrow> request_table_wf (requests db) \<and> anchor_table_wf (anchors db)
     \<and> requestId ` set (anchors db) \<subseteq> req_id ` set (requests db)"

section \<open>Inserting anchors\<close>

definition new_anchor :: "string \<Rightarrow> date \<Rightarrow> fresh_anchor \<Rightarrow> stored_anchor" where
  "new_anchor i now f = \<lparr>requestId = requestId f, proofCid = proofCid f, path = path f,
     anchor_cid = anchor_cid f, anchor_id = i, anchor_createdAt = now, anchor_updatedAt = now\<rparr>"

text \<open>
  \<open>INSERT ... ON CONFLICT (request_id) DO NOTHING\<close>: rows whose request already has an anchor,
  in the table or earlier in the same statement, are skipped; a row for a request that does
  not exist fails the statement. The row ids come from \<open>uuid_generate_v4()\<close>; the result is the
  number of inserted rows.
\<close>

fun insert_anchors :: "(nat \<Rightarrow> string) \<Rightarrow> date \<Rightarrow> string list \<Rightarrow> fresh_anchor list \<Rightarrow> stored_anchor list
    \<Rightarrow> cas_error + (stored_anchor list \<times> nat)" where
  "insert_anchors new_id now known [] tbl = Inr (tbl, 0)"
| "insert_anchors new_id now known (f # fs) tbl =
     (if requestId f \<in> set (map requestId tbl) then insert_anchors (new_id \<circ> Suc) now known fs tbl
      else if new_id 0 \<in> set (map anchor_id tbl) then Inl UniqueViolation
      else if requestId f \<notin> set known then Inl ForeignKeyViolation
      else bindE (insert_anchors (new_id \<circ> Suc) now known fs (tbl @ [new_anchor (new_id 0) now f]))
             (\<lambda>(tbl', n). Inr (tbl', Suc n)))"

definition createAnchors :: "(nat \<Rightarrow> string) \<Rightarrow> date \<Rightarrow> fresh_anchor list \<Rightarrow> database
    \<Rightarrow> cas_error + (database \<times> int option)" where
  "createAnchors new_id now fs db =
     bindE (insert_anchors new_id now (map req_id (requests db)) fs (anchors db)) (\<lambda>(tbl', n).
       Inr (db\<lparr>anchors := tbl'\<rparr>, parseCountResult (Some (CountNumber (int n)))))"

section \<open>Finding anchors\<close>

text \<open>
  The field \<open>request\<close> of \<open>AnchorWithRequest\<close>. In \<open>findByRequests\<close> the name \<open>request\<close> is bound by
  the module's \<open>import { request } from 'https'\<close>, so the field holds that function.
\<close>

datatype request_field = OfRequest request | HttpsRequestFunction

record anchor_with_request = stored_anchor +
  aw_request :: request_field

definition with_request :: "stored_anchor \<Rightarrow> request_field \<Rightarrow> anchor_with_request" where
  "with_request a q = stored_anchor.extend a (anchor_with_request.fields q)"

lemma with_request_simps [simp]:
  "requestId (with_request a q) = requestId a"
  "proofCid (with_request a q) = proofCid a"
  "path (with_request a q) = path a"
  "anchor_cid (with_request a q) = anchor_cid a"
  "aw_request (with_request a q) = q"
  by (simp_all add: with_request_def stored_anchor.defs anchor_with_request.defs)

definition findByRequest :: "request \<Rightarrow> stored_anchor list \<Rightarrow> anchor_with_request option" where
  "findByRequest r tbl =
     map_option (\<lambda>a. with_request a (OfRequest r)) (find (\<lambda>a. requestId a = req_id r) tbl)"

definition findByRequestId :: "string \<Rightarrow> stored_anchor list \<Rightarrow> stored_anchor option" where
  "findByRequestId i tbl = find (\<lambda>a. requestId a = i) tbl"

definition findByRequests :: "db_engine \<Rightarrow> request list \<Rightarrow> stored_anchor list
    \<Rightarrow> anchor_with_request list" where
  "findByRequests e rs tbl =
     map (\<lambda>a. with_request a HttpsRequestFunction)
       (anchor_scan e (filter (\<lambda>a. requestId a \<in> set (map req_id rs)) tbl))"

section \<open>Facts\<close>

lemma new_anchor_simps [simp]:
  "requestId (new_anchor i now f) = requestId f"
  "proofCid (new_anchor i now f) = proofCid f"
  "path (new_anchor i now f) = path f"
  "anchor_cid (new_anchor i now f) = anchor_cid f"
  "anchor_id (new_anchor i now f) = i"
  by (simp_all add: new_anchor_def)

text \<open>What a successful insertion did: a suffix of new rows, one per request not yet anchored.\<close>

lemma insert_anchors_Inr:
  assumes "insert_anchors new_id now known fs tbl = Inr (tbl', n)" and "anchor_table_wf tbl"
  shows "\<exists>added. tbl' = tbl @ added \<and> length added = n \<and> anchor_table_wf tbl'
    \<and> requestId ` set tbl' = requestId ` set tbl \<union> requestId ` set fs
    \<and> requestId ` set added \<subseteq> set known
    \<and> (\<forall>a\<in>set added. \<exists>f\<in>set fs. requestId a = requestId f \<and> proofCid a = proofCid f
          \<and> path a = path f \<and> anchor_cid a = anchor_cid f)"
  using assms
proof (induction fs arbitrary: new_id tbl tbl' n)
  case Nil
  then show ?case by simp
next
  case (Cons f fs)
  show ?case
  proof (cases "requestId f \<in> set (map requestId tbl)")
    case True
    with Cons.prems have "insert_anchors (new_id \<circ> Suc) now known fs tbl = Inr (tbl', n)" by simp
    from Cons.IH [OF this Cons.prems(2)] True show ?thesis by auto
  next
    case False
    let ?row = "new_anchor (new_id 0) now f"
    from False Cons.prems obtain m where
      rest: "insert_anchors (new_id \<circ> Suc) now known fs (tbl @ [?row]) = Inr (tbl', m)"
      and n: "n = Suc m" and fk: "requestId f \<in> set known" and pk: "new_id 0 \<notin> set (map anchor_id tbl)"
      by (auto simp: err_simps split: if_splits)
    have "anchor_table_wf (tbl @ [?row])"
      using Cons.prems(2) False pk by (auto simp: anchor_table_wf_def)
    from Cons.IH [OF rest this] obtain added where
      "tbl' = tbl @ ?row # added" "length added = m" "anchor_table_wf tbl'"
      "requestId ` set tbl' = requestId ` set (tbl @ [?row]) \<union> requestId ` set fs"
      "requestId ` set added \<subseteq> set known"
      "\<forall>a\<in>set added. \<exists>f\<in>set fs. requestId a = requestId f \<and> proofCid a = proofCid f
          \<and> path a = path f \<and> anchor_cid a = anchor_cid f"
      by auto
    then show ?thesis
      using n fk by (intro exI [of _ "?row # added"]) auto
  qed
qed

lemma parseCountResult_nat [simp]: "parseCountResult (Some (CountNumber (int n))) = Some (int n)"
  by (simp add: parseCountResult_def int_to_string_def parse_int10_nat_to_string)

lemma insert_anchors_total:
  assumes "\<And>i. new_id i \<notin> set (map anchor_id tbl)" and "inj new_id"
    and "requestId ` set fs \<subseteq> set known"
  shows "\<exists>tbl' n. insert_anchors new_id now known fs tbl = Inr (tbl', n)"
  using assms
proof (induction fs arbitrary: new_id tbl)
  case Nil
  then show ?case by simp
next
  case (Cons f fs)
  have ids: "inj (new_id \<circ> Suc)" "\<And>i. (new_id \<circ> Suc) i \<noteq> new_id 0"
    using Cons.prems(2) by (auto intro: inj_compose dest: injD)
  have free: "\<And>i. (new_id \<circ> Suc) i \<notin> set (map anchor_id tbl)"
    "\<And>i. (new_id \<circ> Suc) i \<notin> set (map anchor_id (tbl @ [new_anchor (new_id 0) now f]))"
    using Cons.prems(1) ids(2) by auto
  have known: "requestId ` set fs \<subseteq> set known" "requestId f \<in> set known" "new_id 0 \<notin> set (map anchor_id tbl)"
    using Cons.prems(1,3) by auto
  obtain t1 n1 t2 n2 where
    "insert_anchors (new_id \<circ> Suc) now known fs tbl = Inr (t1, n1)"
    "insert_anchors (new_id \<circ> Suc) now known fs (tbl @ [new_anchor (new_id 0) now f]) = Inr (t2, n2)"
    using Cons.IH [OF free(1) ids(1) known(1)] Cons.IH [OF free(2) ids(1) known(1)] by blast
  then show ?case
    using known(2,3) by simp
qed

lemma createAnchors_rows:
  assumes "database_wf db" and "createAnchors new_id now fs db = Inr (db', n_added)"
  obtains added where "db' = db\<lparr>anchors := anchors db @ added\<rparr>" "n_added = Some (int (length added))"
    "database_wf db'" "requestId ` set (anchors db') = requestId ` set (anchors db) \<union> requestId ` set fs"
    "requestId ` set added \<inter> requestId ` set (anchors db) = {}"
    "\<forall>a\<in>set added. \<exists>f\<in>set fs. requestId a = requestId f \<and> proofCid a = proofCid f
          \<and> path a = path f \<and> anchor_cid a = anchor_cid f"
proof -
  obtain tbl' n where
    ins: "insert_anchors new_id now (map req_id (requests db)) fs (anchors db) = Inr (tbl', n)"
    and db': "db' = db\<lparr>anchors := tbl'\<rparr>" and n_added: "n_added = Some (int n)"
    using assms(2) by (auto simp: createAnchors_def err_simps)
  obtain added where added: "tbl' = anchors db @ added" "length added = n" "anchor_table_wf tbl'"
    "requestId ` set tbl' = requestId ` set (anchors db) \<union> requestId ` set fs"
    "requestId ` set added \<subseteq> req_id ` set (requests db)"
    "\<forall>a\<in>set added. \<exists>f\<in>set fs. requestId a = requestId f \<and> proofCid a = proofCid f
          \<and> path a = path f \<and> anchor_cid a = anchor_cid f"
    using insert_anchors_Inr [OF ins] assms(1) by (auto simp: database_wf_def)
  have "requestId ` set tbl' \<subseteq> req_id ` set (requests db)"
    using added(1,5) assms(1) by (auto simp: database_wf_def)
  moreover have "requestId ` set added \<inter> requestId ` set (anchors db) = {}"
    using added(1,3) by (auto simp: anchor_table_wf_def)
  ultimately show ?thesis
    using added assms(1) db' n_added that [of added] by (simp add: database_wf_def)
qed

text \<open>
  C19 (createAnchors): a successful insertion keeps every stored anchor, adds at most one anchor
  per request, leaves every given request with an anchor, keeps the keys and references of the
  database, and returns the number of anchors added.
\<close>

theorem createAnchors_once_per_request:
  assumes "database_wf db" and "createAnchors new_id now fs db = Inr (db', n_added)"
  shows "\<exists>added. anchors db' = anchors db @ added \<and> n_added = Some (int (length added))
    \<and> database_wf db' \<and> requests db' = requests db
    \<and> requestId ` set (anchors db') = requestId ` set (anchors db) \<union> requestId ` set fs
    \<and> requestId ` set added \<inter> requestId ` set (anchors db) = {}"
  by (rule createAnchors_rows [OF assms]) auto

text \<open>A database with two requests, one of them anchored.\<close>

definition example_request :: "string \<Rightarrow> request_status \<Rightarrow> request" where
  "example_request i s = \<lparr>req_id = i, status = s, req_cid = ''c'' @ i, streamId = ''s'' @ i,
     message = None, pinned = True, createdAt = 1, updatedAt = 1, timestamp = 1, origin = Some ''o''\<rparr>"

definition example_db :: database where
  "example_db = \<lparr>requests = [example_request ''1'' COMPLETED, example_request ''2'' PROCESSING],
     anchors = [new_anchor ''x'' 5 \<lparr>requestId = ''1'', proofCid = ''p'', path = ''0'', anchor_cid = ''k''\<rparr>]\<rparr>"

definition example_fresh :: "fresh_anchor list" where
  "example_fresh = [\<lparr>requestId = ''1'', proofCid = ''q'', path = ''0'', anchor_cid = ''m''\<rparr>,
     \<lparr>requestId = ''2'', proofCid = ''q'', path = ''1'', anchor_cid = ''n''\<rparr>]"

definition example_created :: "database" where
  "example_created = example_db\<lparr>anchors := anchors example_db @
     [new_anchor ''zz'' 7 \<lparr>requestId = ''2'', proofCid = ''q'', path = ''1'', anchor_cid = ''n''\<rparr>]\<rparr>"

theorem createAnchors_once_per_request_witness:
  "\<exists>added. anchors example_created = anchors example_db @ added \<and> Some 1 = Some (int (length added))
    \<and> database_wf example_created \<and> requests example_created = requests example_db
    \<and> requestId ` set (anchors example_created)
        = requestId ` set (anchors example_db) \<union> requestId ` set example_fresh
    \<and> requestId ` set added \<inter> requestId ` set (anchors example_db) = {}"
  by (rule createAnchors_once_per_request [where new_id = "\<lambda>i. replicate (Suc i) CHR ''z''" and now = 7])
    code_simp+

text \<open>
  findByRequests: the rows found are exactly the anchors of the given requests, but the
  \<open>request\<close> of every one of them is the \<open>https\<close> function and never the request it belongs to.
\<close>

theorem findByRequests_request_is_https:
  assumes "sql_engine e"
  shows "set (findByRequests e rs tbl)
      = (\<lambda>a. with_request a HttpsRequestFunction) ` {a \<in> set tbl. requestId a \<in> req_id ` set rs}
    \<and> (\<forall>a\<in>set (findByRequests e rs tbl). \<forall>r. aw_request a \<noteq> OfRequest r)"
  using assms by (auto simp: findByRequests_def set_anchor_scan)

theorem findByRequests_request_is_https_witness:
  "\<exists>tbl. set (findByRequests stable_engine (requests example_db) tbl)
      = (\<lambda>a. with_request a HttpsRequestFunction)
          ` {a \<in> set tbl. requestId a \<in> req_id ` set (requests example_db)}
    \<and> (\<forall>a\<in>set (findByRequests stable_engine (requests example_db) tbl). \<forall>r. aw_request a \<noteq> OfRequest r)"
  by (rule exI [of _ "anchors example_db"]) (rule findByRequests_request_is_https [OF sql_engine_stable])

end
