(* ===== verification/Candidate.thy ===== *)
theory Candidate
  imports Anchor_Repository
begin

text \<open>
  \<open>src/src/services/candidate.ts\<close> and the candidate handling of
  \<open>src/src/services/anchor-service.ts\<close>: one candidate per request, sorted by the timestamp of
  the request, and the grouping of the requests of a batch. Parsing CIDs and stream ids is done
  by third-party packages and is a parameter.
\<close>

record candidate =
  cd_streamId :: stream_id
  cd_request :: request
  cd_cid :: cid
  cd_alreadyAnchored :: bool

record id_parsers =
  parse_cid :: "string \<Rightarrow> cas_error + cid"
  parse_stream_id :: "string \<Rightarrow> cas_error + stream_id"

definition new_candidate :: "id_parsers \<Rightarrow> stream_id \<Rightarrow> request \<Rightarrow> cas_error + candidate" where
  "new_candidate ids sid r =
     (if req_cid r = [] then Inl NoCidPresent
      else bindE (parse_cid ids (req_cid r)) (\<lambda>c.
        Inr \<lparr>cd_streamId = sid, cd_request = r, cd_cid = c, cd_alreadyAnchored = False\<rparr>))"

definition shouldAnchor :: "candidate \<Rightarrow> bool" where
  "shouldAnchor c \<longleftrightarrow> \<not> cd_alreadyAnchored c"

definition markAsAnchored :: "candidate \<Rightarrow> candidate" where
  "markAsAnchored c = c\<lparr>cd_alreadyAnchored := True\<rparr>"

definition cd_timestamp :: "candidate \<Rightarrow> date" where
  "cd_timestamp c = timestamp (cd_request c)"

text \<open>\<open>candidates.sort(Candidate.sortByTimestamp)\<close>: the sort of the language is stable.\<close>

definition buildCandidates :: "id_parsers \<Rightarrow> request list \<Rightarrow> cas_error + candidate list" where
  "buildCandidates ids rs =
     bindE (mapE (\<lambda>r. bindE (parse_stream_id ids (streamId r)) (\<lambda>sid. new_candidate ids sid r)) rs)
       (\<lambda>cs. Inr (sort_key cd_timestamp cs))"

record request_groups =
  alreadyAnchoredRequests :: "request list"
  acceptedRequests :: "request list"
  failedRequests :: "request list"
  unprocessedRequests :: "request list"

text \<open>
  The loop of \<open>_loadCandidateStreams\<close>. \<open>anchored\<close> holds the request ids for which an anchor was
  found; the candidates are returned with their updated marks.
\<close>

fun load_candidates :: "nat \<Rightarrow> string list \<Rightarrow> nat \<Rightarrow> candidate list
    \<Rightarrow> candidate list \<times> request list \<times> request list" where
  "load_candidates candidateLimit anchored numSelected [] = ([], [], [])"
| "load_candidates candidateLimit anchored numSelected (c # cs) =
     (if candidateLimit \<le> numSelected
      then (case load_candidates candidateLimit anchored numSelected cs of
              (done_, already, unprocessed) \<Rightarrow> (c # done_, already, cd_request c # unprocessed))
      else
        let c' = (if shouldAnchor c \<and> req_id (cd_request c) \<in> set anchored then markAsAnchored c else c);
            numSelected' = (if shouldAnchor c' then Suc numSelected else numSelected)
        in case load_candidates candidateLimit anchored numSelected' cs of
             (done_, already, unprocessed) \<Rightarrow>
               (c' # done_,
                (if \<not> shouldAnchor c' \<and> cd_alreadyAnchored c' then cd_request c' # already else already),
                unprocessed))"

definition loadCandidateStreams :: "db_engine \<Rightarrow> candidate list \<Rightarrow> nat \<Rightarrow> stored_anchor list
    \<Rightarrow> candidate list \<times> request_groups" where
  "loadCandidateStreams e candidates candidateLimit anchor_table =
     (let limit = (if candidateLimit = 0 \<or> length candidates < candidateLimit
                   then length candidates else candidateLimit);
          anchored = map requestId (findByRequests e (map cd_request candidates) anchor_table)
      in case load_candidates limit anchored 0 candidates of
           (candidates', already, unprocessed) \<Rightarrow>
             (candidates', \<lparr>alreadyAnchoredRequests = already, acceptedRequests = [],
                failedRequests = [], unprocessedRequests = unprocessed\<rparr>))"

definition findCandidates :: "id_parsers \<Rightarrow> db_engine \<Rightarrow> request list \<Rightarrow> nat \<Rightarrow> stored_anchor list
    \<Rightarrow> cas_error + (candidate list \<times> request_groups)" where
  "findCandidates ids e rs candidateLimit anchor_table =
     bindE (buildCandidates ids rs) (\<lambda>candidates.
       case loadCandidateStreams e candidates candidateLimit anchor_table of
         (candidates', groups) \<Rightarrow>
           Inr (candidates', groups\<lparr>acceptedRequests := acceptedRequests groups @ map cd_request candidates'\<rparr>))"

section \<open>Facts\<close>

lemma candidate_simps [simp]:
  "cd_request (markAsAnchored c) = cd_request c"
  "cd_cid (markAsAnchored c) = cd_cid c"
  "cd_streamId (markAsAnchored c) = cd_streamId c"
  "cd_timestamp (markAsAnchored c) = cd_timestamp c"
  "shouldAnchor (markAsAnchored c) = False"
  "cd_alreadyAnchored (markAsAnchored c) = True"
  by (simp_all add: markAsAnchored_def shouldAnchor_def cd_timestamp_def)

lemma new_candidate_Inr:
  "new_candidate ids sid r = Inr c \<longleftrightarrow> req_cid r \<noteq> [] \<and> (\<exists>p. parse_cid ids (req_cid r) = Inr p \<and>
     c = \<lparr>cd_streamId = sid, cd_request = r, cd_cid = p, cd_alreadyAnchored = False\<rparr>)"
  by (auto simp: new_candidate_def err_simps)

text \<open>The candidates of a list of requests: fresh, one per request, in timestamp order.\<close>

lemma buildCandidates_Inr:
  assumes "buildCandidates ids rs = Inr cs"
  shows "mset (map cd_request cs) = mset rs" and "sorted (map cd_timestamp cs)"
    and "c \<in> set cs \<Longrightarrow> shouldAnchor c"
    and "c \<in> set cs \<Longrightarrow> parse_cid ids (req_cid (cd_request c)) = Inr (cd_cid c)"
    and "c \<in> set cs \<Longrightarrow> \<exists>sid. parse_stream_id ids (streamId (cd_request c)) = Inr sid"
proof -
  obtain made where made: "mapE (\<lambda>r. bindE (parse_stream_id ids (streamId r)) (\<lambda>sid. new_candidate ids sid r)) rs
      = Inr made" and cs: "cs = sort_key cd_timestamp made"
    using assms by (auto simp: buildCandidates_def err_simps)
  have each: "list_all2 (\<lambda>r c. cd_request c = r \<and> shouldAnchor c \<and> parse_cid ids (req_cid r) = Inr (cd_cid c)
      \<and> (\<exists>sid. parse_stream_id ids (streamId r) = Inr sid)) rs made"
    using made unfolding mapE_Inr_iff
    by (rule list_all2_mono) (auto simp: err_simps new_candidate_Inr shouldAnchor_def)
  then have "map cd_request made = rs"
    by (induction rs made rule: list_all2_induct) simp_all
  then show "mset (map cd_request cs) = mset rs" by (metis cs mset_map mset_sort)
  show "sorted (map cd_timestamp cs)" by (simp add: cs)
  show "c \<in> set cs \<Longrightarrow> shouldAnchor c"
    and "c \<in> set cs \<Longrightarrow> parse_cid ids (req_cid (cd_request c)) = Inr (cd_cid c)"
    and "c \<in> set cs \<Longrightarrow> \<exists>sid. parse_stream_id ids (streamId (cd_request c)) = Inr sid"
    using each unfolding cs set_sort by (induction rs made rule: list_all2_induct) auto
qed

text \<open>
  What the loop does with candidates that are still to be anchored: the first candidates, until
  the limit of selected ones is reached, are marked when they have an anchor; the others are
  reported as unprocessed, and all of them are kept.
\<close>

lemma load_candidates_full:
  "lim \<le> n \<Longrightarrow> load_candidates lim anchored n cs = (cs, [], map cd_request cs)"
  by (induction cs) auto

lemma load_candidates_spec:
  assumes "\<And>c. c \<in> set cs \<Longrightarrow> shouldAnchor c" and "load_candidates lim anchored n cs = (cs', already, unprocessed)"
  shows "\<exists>k \<le> length cs. cs' = map (\<lambda>c. if req_id (cd_request c) \<in> set anchored then markAsAnchored c else c)
                                  (take k cs) @ drop k cs
    \<and> already = filter (\<lambda>r. req_id r \<in> set anchored) (map cd_request (take k cs))
    \<and> unprocessed = map cd_request (drop k cs)
    \<and> (k < length cs \<longrightarrow> lim \<le> n + length (filter (\<lambda>c. req_id (cd_request c) \<notin> set anchored) (take k cs)))
    \<and> (n \<le> lim \<longrightarrow> n + length (filter (\<lambda>c. req_id (cd_request c) \<notin> set anchored) (take k cs)) \<le> lim)"
  using assms
proof (induction cs arbitrary: n cs' already unprocessed)
  case Nil
  then show ?case by simp
next
  case (Cons c cs)
  show ?case
  proof (cases "lim \<le> n")
    case True
    then show ?thesis
      using Cons.prems(2) by (intro exI [of _ 0]) (auto simp: load_candidates_full)
  next
    case False
    let ?seen = "req_id (cd_request c) \<in> set anchored"
    let ?n = "if ?seen then n else Suc n"
    obtain cs1 al1 un1 where rest: "load_candidates lim anchored ?n cs = (cs1, al1, un1)"
      by (metis prod_cases3)
    have c: "shouldAnchor c" "\<not> cd_alreadyAnchored c"
      using Cons.prems(1) by (auto simp: shouldAnchor_def)
    obtain k where k: "k \<le> length cs"
      "cs1 = map (\<lambda>c. if req_id (cd_request c) \<in> set anchored then markAsAnchored c else c) (take k cs) @ drop k cs"
      "al1 = filter (\<lambda>r. req_id r \<in> set anchored) (map cd_request (take k cs))"
      "un1 = map cd_request (drop k cs)"
      "k < length cs \<longrightarrow> lim \<le> ?n + length (filter (\<lambda>c. req_id (cd_request c) \<notin> set anchored) (take k cs))"
      "?n \<le> lim \<longrightarrow> ?n + length (filter (\<lambda>c. req_id (cd_request c) \<notin> set anchored) (take k cs)) \<le> lim"
      using Cons.IH [OF _ rest] Cons.prems(1) by auto
    have "cs' = (if ?seen then markAsAnchored c else c) # cs1"
      "already = (if ?seen then cd_request c # al1 else al1)" "unprocessed = un1"
      using Cons.prems(2) False c rest by (auto simp: Let_def split: if_splits)
    with k False show ?thesis
      by (intro exI [of _ "Suc k"]) auto
  qed
qed

lemma findCandidates_rows:
  assumes "findCandidates ids e rs bound tbl = Inr (cs, g)"
  shows "mset (map cd_request cs) = mset rs"
    and "c \<in> set cs \<Longrightarrow> parse_cid ids (req_cid (cd_request c)) = Inr (cd_cid c)"
    and "c \<in> set cs \<Longrightarrow> \<exists>sid. parse_stream_id ids (streamId (cd_request c)) = Inr sid"
proof -
  let ?row = "\<lambda>c. (cd_request c, cd_cid c)"
  obtain cs0 where built: "buildCandidates ids rs = Inr cs0"
    and loaded: "loadCandidateStreams e cs0 bound tbl = (cs, g\<lparr>acceptedRequests := []\<rparr>)"
    using assms by (auto simp: findCandidates_def err_simps loadCandidateStreams_def Let_def split: prod.splits)
  have "map ?row cs' = map ?row xs" if "load_candidates l known n xs = (cs', al, un)" for l known n xs cs' al un
    using that by (induction xs arbitrary: n cs' al un) (auto simp: Let_def split: if_splits prod.splits)
  then have rows: "map ?row cs = map ?row cs0"
    using loaded by (auto simp: loadCandidateStreams_def Let_def split: prod.splits)
  have "map fst (map ?row cs) = map fst (map ?row cs0)" by (simp only: rows)
  then show "mset (map cd_request cs) = mset rs" using buildCandidates_Inr(1) [OF built] by (simp add: o_def)
  assume "c \<in> set cs"
  then have "?row c \<in> set (map ?row cs0)" using rows by (metis (no_types, lifting) image_eqI list.set_map)
  then show "parse_cid ids (req_cid (cd_request c)) = Inr (cd_cid c)"
    and "\<exists>sid. parse_stream_id ids (streamId (cd_request c)) = Inr sid"
    using buildCandidates_Inr(4,5) [OF built] by auto
qed

lemma findByRequests_ids:
  "sql_engine e \<Longrightarrow> r \<in> set rs \<Longrightarrow>
    req_id r \<in> set (map requestId (findByRequests e rs tbl)) \<longleftrightarrow> (\<exists>a\<in>set tbl. requestId a = req_id r)"
  by (auto simp: findByRequests_def set_anchor_scan image_iff)

text \<open>
  C17 (_findCandidates): every request of the batch becomes a candidate, in the order of the client
  timestamps, and is reported as accepted; reported besides are, as already anchored, those of
  the first \<open>k\<close> that have an anchor, and as unprocessed, all after the \<open>k\<close>-th, where the first
  \<open>k\<close> hold at most the limit of requests without an anchor (all of them when the limit is 0).
  So the groups only count: no candidate is dropped because it is anchored or over the limit.
\<close>

theorem findCandidates_groups:
  assumes "sql_engine e" and "findCandidates ids e rs lim tbl = Inr (cs, g)"
  shows "mset (map cd_request cs) = mset rs \<and> sorted (map cd_timestamp cs)
    \<and> acceptedRequests g = map cd_request cs \<and> failedRequests g = []
    \<and> (\<exists>k \<le> length cs.
         alreadyAnchoredRequests g
           = filter (\<lambda>r. \<exists>a\<in>set tbl. requestId a = req_id r) (map cd_request (take k cs))
       \<and> unprocessedRequests g = map cd_request (drop k cs)
       \<and> k - length (alreadyAnchoredRequests g) \<le> (if lim = 0 then length rs else lim)
       \<and> (k < length cs \<longrightarrow> k - length (alreadyAnchoredRequests g) = lim))"
proof -
  obtain cs0 where built: "buildCandidates ids rs = Inr cs0"
    and loaded: "loadCandidateStreams e cs0 lim tbl = (cs, g\<lparr>acceptedRequests := []\<rparr>)"
    and acc: "acceptedRequests g = map cd_request cs"
    using assms(2)
    by (auto simp: findCandidates_def err_simps loadCandidateStreams_def Let_def split: prod.splits)
  define known where "known = map requestId (findByRequests e (map cd_request cs0) tbl)"
  define l where "l = (if lim = 0 \<or> length cs0 < lim then length cs0 else lim)"
  obtain already unprocessed where run: "load_candidates l known 0 cs0 = (cs, already, unprocessed)"
    and g: "alreadyAnchoredRequests g = already" "unprocessedRequests g = unprocessed" "failedRequests g = []"
    using loaded by (cases g) (auto simp: loadCandidateStreams_def Let_def known_def l_def split: prod.splits)
  obtain k where k: "k \<le> length cs0"
    "cs = map (\<lambda>c. if req_id (cd_request c) \<in> set known then markAsAnchored c else c) (take k cs0) @ drop k cs0"
    "already = filter (\<lambda>r. req_id r \<in> set known) (map cd_request (take k cs0))"
    "unprocessed = map cd_request (drop k cs0)"
    "k < length cs0 \<longrightarrow> l \<le> length (filter (\<lambda>c. req_id (cd_request c) \<notin> set known) (take k cs0))"
    "length (filter (\<lambda>c. req_id (cd_request c) \<notin> set known) (take k cs0)) \<le> l"
    using load_candidates_spec [OF buildCandidates_Inr(3) [OF built] run] by auto
  define mark where "mark = (\<lambda>c. if req_id (cd_request c) \<in> set known then markAsAnchored c else c)"
  have mark: "map cd_request (map mark xs) = map cd_request xs"
    "map cd_timestamp (map mark xs) = map cd_timestamp xs" for xs
    by (auto simp: mark_def)
  have parts: "take k cs = map mark (take k cs0)" "drop k cs = drop k cs0" "length cs = length cs0"
    using k(1,2) by (simp_all add: mark_def)
  have whole: "map f cs = map f cs0" if "\<And>xs. map f (map mark xs) = map f xs"
    for f :: "candidate \<Rightarrow> 'x"
    using that [of "take k cs0"] parts(1,2) by (metis append_take_drop_id map_append)
  note same = whole [OF mark(1)] whole [OF mark(2)]
  have firsts: "map cd_request (take k cs) = map cd_request (take k cs0)"
    unfolding parts(1) by (rule mark(1))
  have count: "length already + length (filter (\<lambda>c. req_id (cd_request c) \<notin> set known) (take k cs0)) = k"
    using k(1,3) sum_length_filter_compl [of "\<lambda>c. req_id (cd_request c) \<in> set known" "take k cs0"]
    by (simp add: filter_map o_def)
  have ids: "req_id r \<in> set known \<longleftrightarrow> (\<exists>a\<in>set tbl. requestId a = req_id r)"
    if "r \<in> set (map cd_request cs0)" for r
    using findByRequests_ids [OF assms(1) that] by (simp add: known_def)
  have "already = filter (\<lambda>r. \<exists>a\<in>set tbl. requestId a = req_id r) (map cd_request (take k cs))"
    unfolding k(3) firsts by (rule filter_cong [OF refl ids]) (auto dest: in_set_takeD)
  moreover have "length rs = length cs0"
    using buildCandidates_Inr(1) [OF built] by (metis length_map mset_eq_length)
  ultimately show ?thesis
    using k(1,4-6) count same parts(2,3) acc g buildCandidates_Inr(1,2) [OF built]
    by (intro conjI exI [of _ k]) (auto simp: l_def split: if_splits)
qed

definition example_ids :: id_parsers where
  "example_ids = \<lparr>parse_cid = Inr, parse_stream_id = Inr\<rparr>"

definition example_candidate :: "string \<Rightarrow> request_status \<Rightarrow> bool \<Rightarrow> candidate" where
  "example_candidate i s anchored = \<lparr>cd_streamId = ''s'' @ i, cd_request = example_request i s,
     cd_cid = ''c'' @ i, cd_alreadyAnchored = anchored\<rparr>"

definition example_candidates :: "candidate list" where
  "example_candidates = [example_candidate ''1'' COMPLETED True, example_candidate ''2'' PROCESSING False]"

definition example_groups :: request_groups where
  "example_groups = \<lparr>alreadyAnchoredRequests = [example_request ''1'' COMPLETED],
     acceptedRequests = requests example_db, failedRequests = [], unprocessedRequests = []\<rparr>"

theorem findCandidates_groups_witness:
  "mset (map cd_request example_candidates) = mset (requests example_db)
    \<and> sorted (map cd_timestamp example_candidates)
    \<and> acceptedRequests example_groups = map cd_request example_candidates \<and> failedRequests example_groups = []
    \<and> (\<exists>k \<le> length example_candidates.
         alreadyAnchoredRequests example_groups
           = filter (\<lambda>r. \<exists>a\<in>set (anchors example_db). requestId a = req_id r)
               (map cd_request (take k example_candidates))
       \<and> unprocessedRequests example_groups = map cd_request (drop k example_candidates)
       \<and> k - length (alreadyAnchoredRequests example_groups)
           \<le> (if (1::nat) = 0 then length (requests example_db) else 1)
       \<and> (k < length example_candidates \<longrightarrow> k - length (alreadyAnchoredRequests example_groups) = 1))"
  by (rule findCandidates_groups [OF sql_engine_stable, of example_ids]) code_simp

end
