(* ===== verification/Path_Line.thy ===== *)
theory Path_Line
  imports CAS_Prelude
begin

text \<open>
  \<open>PathLineCodec\<close> of \<open>src/src/ancillary/codecs.ts\<close>: the directions from the root of the Merkle
  tree to a leaf, written as digits between slashes. \<open>PathDirection\<close> is the enum of
  \<open>@ceramicnetwork/anchor-utils\<close> with \<open>L = 0\<close> and \<open>R = 1\<close>.
\<close>

datatype path_direction = L | R

fun direction_number :: "path_direction \<Rightarrow> nat" where
  "direction_number L = 0"
| "direction_number R = 1"

definition direction_string :: "path_direction \<Rightarrow> string" where
  "direction_string d = nat_to_string (direction_number d)"

text \<open>\<open>line.join('/')\<close>\<close>

definition encode_path :: "path_direction list \<Rightarrow> string" where
  "encode_path line = js_join CHR ''/'' (map direction_string line)"

text \<open>
  One element: \<open>parseInt\<close>, the check that the number prints as the element, and the \<open>switch\<close>.
\<close>

definition decode_element :: "string \<Rightarrow> path_direction option" where
  "decode_element element =
     (let number = parse_int10 element in
      if number_to_string number \<noteq> element then None
      else if number = Some 1 then Some R
      else if number = Some 0 then Some L
      else None)"

fun decode_elements :: "string list \<Rightarrow> path_direction list \<Rightarrow> path_direction list option" where
  "decode_elements [] result = Some result"
| "decode_elements (element # elements) result =
     (case decode_element element of
        None \<Rightarrow> None
      | Some d \<Rightarrow> decode_elements elements (result @ [d]))"

definition decode_path :: "string \<Rightarrow> path_direction list option" where
  "decode_path s = decode_elements (js_split CHR ''/'' s) []"

lemma direction_strings [simp]: "direction_string L = ''0''" "direction_string R = ''1''"
  by code_simp+

lemma int_to_string_01 [simp]: "int_to_string 0 = ''0''" "int_to_string 1 = ''1''"
  by code_simp+

lemma parse_int10_01 [simp]: "parse_int10 ''0'' = Some 0" "parse_int10 ''1'' = Some 1"
  by (simp_all add: parse_int10_def is_space_def parse_digits_def is_digit_def digits_val_def
      digit_val_def)

lemma decode_element_iff: "decode_element s = Some d \<longleftrightarrow> s = direction_string d"
proof
  assume "decode_element s = Some d"
  then show "s = direction_string d"
    by (cases d) (auto simp: decode_element_def Let_def number_to_string_def split: if_splits)
next
  assume "s = direction_string d"
  then show "decode_element s = Some d"
    by (cases d) (simp_all add: decode_element_def number_to_string_def)
qed

lemma decode_elements_iff:
  "decode_elements ss acc = Some ds \<longleftrightarrow> (\<exists>es. ds = acc @ es \<and> ss = map direction_string es)"
proof (induction ss arbitrary: acc)
  case Nil
  then show ?case by auto
next
  case (Cons s ss)
  show ?case
  proof (cases "decode_element s")
    case None
    then have "s \<noteq> direction_string d" for d using decode_element_iff [of s d] by simp
    with None show ?thesis by (auto simp: Cons_eq_map_conv)
  next
    case (Some d)
    then have s: "s = direction_string d" by (simp add: decode_element_iff)
    have inj: "direction_string d = direction_string e \<longleftrightarrow> d = e" for e
      by (cases d; cases e) simp_all
    show ?thesis using Some Cons s inj by (auto simp: Cons_eq_map_conv)
  qed
qed

lemma decode_path_Some: "decode_path s = Some line \<longleftrightarrow> line \<noteq> [] \<and> s = encode_path line"
proof -
  have plain: "CHR ''/'' \<notin> set t" if "t \<in> set (map direction_string line)" for t
  proof -
    obtain d where "t = direction_string d" using \<open>t \<in> _\<close> by auto
    then show ?thesis by (cases d) simp_all
  qed
  have "decode_path s = Some line \<longleftrightarrow> js_split CHR ''/'' s = map direction_string line"
    by (simp add: decode_path_def decode_elements_iff)
  also have "\<dots> \<longleftrightarrow> line \<noteq> [] \<and> s = encode_path line"
  proof
    assume *: "js_split CHR ''/'' s = map direction_string line"
    then have "line \<noteq> []" using js_split_nonempty [of "CHR ''/''" s] by (intro notI) simp
    moreover have "s = encode_path line"
      using js_join_split [of "CHR ''/''" s] * by (simp add: encode_path_def)
    ultimately show "line \<noteq> [] \<and> s = encode_path line" by simp
  next
    assume "line \<noteq> [] \<and> s = encode_path line"
    then show "js_split CHR ''/'' s = map direction_string line"
      using js_split_join [of "map direction_string line"] plain
      by (simp add: encode_path_def)
  qed
  finally show ?thesis .
qed

lemma decode_encode: "line \<noteq> [] \<Longrightarrow> decode_path (encode_path line) = Some line"
  using decode_path_Some [of "encode_path line" line] by simp

lemma decode_empty: "decode_path [] = None"
  by (simp add: decode_path_def decode_element_def parse_int10_def number_to_string_def)

text \<open>
  PathLineCodec: a string decodes to a path exactly when the path is not empty and encodes
  to that string, so decoding inverts encoding, every path has one spelling, and the empty
  path, the path of a tree with a single leaf, is the only one that cannot be read back.
\<close>

theorem decode_path_iff: "decode_path s = Some line \<longleftrightarrow> line \<noteq> [] \<and> s = encode_path line"
  by (rule decode_path_Some)

end
