(* ===== verification/Car.thy ===== *)
theory Car
  imports Models Path_Line
begin

text \<open>
  CAR files (package \<open>cartonne\<close>) and the values their blocks decode to. The package is not
  part of the repository: its operations are the fields of \<open>car_lib\<close>, and \<open>lawful_car\<close> states
  what it documents. The values read from a CAR are untyped in the code (\<open>any\<close>), so reading a
  property or an element is modelled with JavaScript's rules.
\<close>

section \<open>Decoded values\<close>

datatype ipld =
    IBool bool
  | IInt int
  | IString string
  | IBytes "nat list"
  | ILink cid
  | IList "ipld list"
  | IMap "(string \<times> ipld) list"

text \<open>A JavaScript value: \<open>None\<close> is \<open>undefined\<close> or \<open>null\<close>, which the code never tells apart.\<close>

type_synonym js_value = "ipld option"

text \<open>\<open>v.name\<close>, for names that are not methods or \<open>length\<close>.\<close>

definition js_prop :: "js_value \<Rightarrow> string \<Rightarrow> cas_error + js_value" where
  "js_prop v name =
     (case v of
        None \<Rightarrow> Inl TypeError
      | Some (IMap fs) \<Rightarrow> Inr (map_of fs name)
      | Some _ \<Rightarrow> Inr None)"

definition list_get :: "'a list \<Rightarrow> nat \<Rightarrow> 'a option" where
  "list_get xs i = (if i < length xs then Some (xs ! i) else None)"

text \<open>\<open>v[p]\<close> for a path direction, a number.\<close>

definition js_index :: "js_value \<Rightarrow> path_direction \<Rightarrow> cas_error + js_value" where
  "js_index v p =
     (case v of
        None \<Rightarrow> Inl TypeError
      | Some (IList xs) \<Rightarrow> Inr (list_get xs (direction_number p))
      | Some (IString s) \<Rightarrow> Inr (map_option (\<lambda>c. IString [c]) (list_get s (direction_number p)))
      | Some (IBytes bs) \<Rightarrow> Inr (map_option (\<lambda>b. IInt (int b)) (list_get bs (direction_number p)))
      | Some (IMap fs) \<Rightarrow> Inr (map_of fs (direction_string p))
      | Some _ \<Rightarrow> Inr None)"

fun truthy :: "js_value \<Rightarrow> bool" where
  "truthy None = False"
| "truthy (Some (IBool b)) = b"
| "truthy (Some (IInt i)) = (i \<noteq> 0)"
| "truthy (Some (IString s)) = (s \<noteq> [])"
| "truthy (Some v) = True"

text \<open>\<open>decode(pathLine, v)\<close>: \<open>split\<close> exists on strings only.\<close>

definition decode_path_line :: "js_value \<Rightarrow> cas_error + path_direction list" where
  "decode_path_line v =
     (case v of
        Some (IString s) \<Rightarrow> need InvalidPathLine (decode_path s)
      | _ \<Rightarrow> Inl TypeError)"

section \<open>The CAR library\<close>

record ('car, 'block) car_lib =
  car_empty :: 'car
  car_get :: "'car \<Rightarrow> cid \<Rightarrow> cas_error + ipld option"
  car_put :: "ipld \<Rightarrow> 'car \<Rightarrow> cid \<times> 'car"
  block_get :: "'car \<Rightarrow> cid \<Rightarrow> 'block option"
  block_put :: "'block \<Rightarrow> 'car \<Rightarrow> 'car"
  block_cid :: "'block \<Rightarrow> cid"
  block_value :: "'block \<Rightarrow> cas_error + ipld"
  car_roots :: "'car \<Rightarrow> cid list"
  push_root :: "cid \<Rightarrow> 'car \<Rightarrow> 'car"
  car_bad_key :: "js_value \<Rightarrow> cas_error"

text \<open>
  \<open>car.get\<close> decodes the block with the CID, \<open>blocks.put\<close> stores a block under its CID, and a
  record that is put can be read back; roots and blocks are independent. A CID names one
  value (content addressing): putting a record never replaces a different one.
\<close>

definition lawful_car :: "('car, 'block) car_lib \<Rightarrow> bool" where
  "lawful_car lib \<longleftrightarrow>
     (\<forall>car c. car_get lib car c =
        (case block_get lib car c of
           None \<Rightarrow> Inr None
         | Some b \<Rightarrow> (case block_value lib b of Inl e \<Rightarrow> Inl e | Inr v \<Rightarrow> Inr (Some v)))) \<and>
     (\<forall>car c b. block_get lib car c = Some b \<longrightarrow> block_cid lib b = c) \<and>
     (\<forall>car b c. block_get lib (block_put lib b car) c =
        (if c = block_cid lib b then Some b else block_get lib car c)) \<and>
     (\<forall>c. block_get lib (car_empty lib) c = None) \<and>
     (\<forall>car r c. block_get lib (push_root lib r car) c = block_get lib car c) \<and>
     car_roots lib (car_empty lib) = [] \<and>
     (\<forall>car b. car_roots lib (block_put lib b car) = car_roots lib car) \<and>
     (\<forall>car r. car_roots lib (push_root lib r car) = car_roots lib car @ [r]) \<and>
     (\<forall>v car. car_get lib (snd (car_put lib v car)) (fst (car_put lib v car)) = Inr (Some v)) \<and>
     (\<forall>v car c. c \<noteq> fst (car_put lib v car) \<longrightarrow>
        block_get lib (snd (car_put lib v car)) c = block_get lib car c) \<and>
     (\<forall>v car. block_get lib car (fst (car_put lib v car)) \<noteq> None \<longrightarrow>
        car_get lib car (fst (car_put lib v car)) = Inr (Some v))"

text \<open>\<open>car.get(v)\<close> for an untyped \<open>v\<close>: only CIDs are keys.\<close>

definition js_get :: "('car, 'block) car_lib \<Rightarrow> 'car \<Rightarrow> js_value \<Rightarrow> cas_error + js_value" where
  "js_get lib car v =
     (case v of
        Some (ILink c) \<Rightarrow> car_get lib car c
      | _ \<Rightarrow> Inl (car_bad_key lib v))"

lemma js_simps [simp]:
  "js_prop None k = Inl TypeError"
  "js_prop (Some (IMap fs)) k = Inr (map_of fs k)"
  "js_get lib car (Some (ILink c)) = car_get lib car c"
  "js_index None p = Inl TypeError"
  "js_index (Some (IList xs)) p = Inr (list_get xs (direction_number p))"
  "decode_path_line (Some (IString s)) = need InvalidPathLine (decode_path s)"
  by (simp_all add: js_prop_def js_get_def js_index_def decode_path_line_def)

lemma js_prop_SomeE [err_simps]:
  "js_prop v k = Inr (Some x) \<longleftrightarrow> (\<exists>fs. v = Some (IMap fs) \<and> map_of fs k = Some x)"
  by (auto simp: js_prop_def split: option.splits ipld.splits)

lemma js_get_Inr [err_simps]:
  "js_get lib car v = Inr x \<longleftrightarrow> (\<exists>c. v = Some (ILink c) \<and> car_get lib car c = Inr x)"
  by (auto simp: js_get_def split: option.splits ipld.splits)

lemma js_index_truthy: "js_index v p = Inr (Some x) \<Longrightarrow> truthy v"
  by (cases v rule: truthy.cases) (auto simp: js_index_def list_get_def split: if_splits)

lemma decode_path_line_Inr [err_simps]:
  "decode_path_line v = Inr line \<longleftrightarrow> (\<exists>s. v = Some (IString s) \<and> decode_path s = Some line)"
  by (auto simp: decode_path_line_def need_Inr_iff split: option.splits ipld.splits)

lemma lawful_carD:
  assumes "lawful_car lib"
  shows car_get_block: "car_get lib car c = (case block_get lib car c of None \<Rightarrow> Inr None
      | Some b \<Rightarrow> (case block_value lib b of Inl e \<Rightarrow> Inl e | Inr v \<Rightarrow> Inr (Some v)))"
    and block_get_cid: "block_get lib car c = Some b \<Longrightarrow> block_cid lib b = c"
    and block_get_put: "block_get lib (block_put lib b car) c
      = (if c = block_cid lib b then Some b else block_get lib car c)"
    and block_get_empty: "block_get lib (car_empty lib) c = None"
    and block_get_root: "block_get lib (push_root lib r car) c = block_get lib car c"
    and roots_empty: "car_roots lib (car_empty lib) = []"
    and roots_block: "car_roots lib (block_put lib b car) = car_roots lib car"
    and roots_push: "car_roots lib (push_root lib r car) = car_roots lib car @ [r]"
    and get_put_same: "car_get lib (snd (car_put lib v car)) (fst (car_put lib v car)) = Inr (Some v)"
    and block_put_other: "c \<noteq> fst (car_put lib v car)
      \<Longrightarrow> block_get lib (snd (car_put lib v car)) c = block_get lib car c"
    and put_present: "block_get lib car (fst (car_put lib v car)) \<noteq> None
      \<Longrightarrow> car_get lib car (fst (car_put lib v car)) = Inr (Some v)"
proof -
  note law = assms [unfolded lawful_car_def]
  show "car_get lib car c = (case block_get lib car c of None \<Rightarrow> Inr None
      | Some b \<Rightarrow> (case block_value lib b of Inl e \<Rightarrow> Inl e | Inr v \<Rightarrow> Inr (Some v)))"
    by (rule law [THEN conjunct1, rule_format])
  note law = law [THEN conjunct2]
  show "block_get lib car c = Some b \<Longrightarrow> block_cid lib b = c"
    by (rule law [THEN conjunct1, rule_format])
  note law = law [THEN conjunct2]
  show "block_get lib (block_put lib b car) c
      = (if c = block_cid lib b then Some b else block_get lib car c)"
    by (rule law [THEN conjunct1, rule_format])
  note law = law [THEN conjunct2]
  show "block_get lib (car_empty lib) c = None"
    by (rule law [THEN conjunct1, rule_format])
  note law = law [THEN conjunct2]
  show "block_get lib (push_root lib r car) c = block_get lib car c"
    by (rule law [THEN conjunct1, rule_format])
  note law = law [THEN conjunct2]
  show "car_roots lib (car_empty lib) = []"
    by (rule law [THEN conjunct1])
  note law = law [THEN conjunct2]
  show "car_roots lib (block_put lib b car) = car_roots lib car"
    by (rule law [THEN conjunct1, rule_format])
  note law = law [THEN conjunct2]
  show "car_roots lib (push_root lib r car) = car_roots lib car @ [r]"
    by (rule law [THEN conjunct1, rule_format])
  note law = law [THEN conjunct2]
  show "car_get lib (snd (car_put lib v car)) (fst (car_put lib v car)) = Inr (Some v)"
    by (rule law [THEN conjunct1, rule_format])
  note law = law [THEN conjunct2]
  show "c \<noteq> fst (car_put lib v car)
      \<Longrightarrow> block_get lib (snd (car_put lib v car)) c = block_get lib car c"
    by (rule law [THEN conjunct1, rule_format])
  show "block_get lib car (fst (car_put lib v car)) \<noteq> None
      \<Longrightarrow> car_get lib car (fst (car_put lib v car)) = Inr (Some v)"
    by (rule law [THEN conjunct2, rule_format])
qed

lemma get_of_block: "lawful_car lib \<Longrightarrow> block_get lib car c = block_get lib car' c
    \<Longrightarrow> car_get lib car c = car_get lib car' c"
  by (simp add: car_get_block)

lemma get_put_keeps:
  assumes "lawful_car lib" and "car_get lib car c = Inr (Some x)"
  shows "car_get lib (snd (car_put lib v car)) c = Inr (Some x)"
proof (cases "c = fst (car_put lib v car)")
  case True
  have "block_get lib car c \<noteq> None"
    using assms by (auto simp: car_get_block split: option.splits)
  then have "car_get lib car c = Inr (Some v)"
    using put_present [OF assms(1), of car v] True by simp
  then show ?thesis
    using get_put_same [OF assms(1), of v car] True assms(2) by simp
next
  case False
  then show ?thesis
    using get_of_block [OF assms(1) block_put_other [OF assms(1) False]] assms(2) by simp
qed

section \<open>Following a Merkle path\<close>

text \<open>From the node named by \<open>v\<close>, the directions \<open>line\<close> lead to the CID \<open>d\<close>.\<close>

fun leads :: "('car, 'block) car_lib \<Rightarrow> 'car \<Rightarrow> js_value \<Rightarrow> path_direction list \<Rightarrow> cid \<Rightarrow> bool" where
  "leads lib car v [] d = (v = Some (ILink d))"
| "leads lib car v (p # line) d =
     (case js_get lib car v of
        Inl e \<Rightarrow> False
      | Inr r \<Rightarrow> (case js_index r p of Inl e \<Rightarrow> False | Inr next \<Rightarrow> leads lib car next line d))"

lemma leads_Cons:
  "leads lib car v (p # line) d \<longleftrightarrow>
     (\<exists>c r n. v = Some (ILink c) \<and> car_get lib car c = Inr (Some r)
        \<and> js_index (Some r) p = Inr (Some n) \<and> leads lib car (Some n) line d)"
proof -
  have none: "\<not> leads lib car None line d" for line
    by (cases line) (auto simp: js_get_def)
  show ?thesis
  proof (cases "js_get lib car v")
    case (Inl e)
    then show ?thesis by auto
  next
    case (Inr r)
    then obtain c where c: "v = Some (ILink c)" "car_get lib car c = Inr r"
      by (auto simp: err_simps)
    show ?thesis
    proof (cases r)
      case None
      with c show ?thesis by auto
    next
      case (Some x)
      with c show ?thesis
        by (auto split: sum.splits option.splits simp: none)
          (metis none option.exhaust)
    qed
  qed
qed

declare leads.simps(2) [simp del]

section \<open>Growing a CAR\<close>

text \<open>Nothing that can be read from \<open>car\<close> is lost or changed in \<open>car'\<close>.\<close>

definition extends :: "('car, 'block) car_lib \<Rightarrow> 'car \<Rightarrow> 'car \<Rightarrow> bool" where
  "extends lib car car' \<longleftrightarrow>
     (\<forall>c v. car_get lib car c = Inr (Some v) \<longrightarrow> car_get lib car' c = Inr (Some v)) \<and>
     (\<forall>c x. car_get lib car c = Inr x \<longrightarrow> (\<exists>y. car_get lib car' c = Inr y))"

lemma extends_refl [simp]: "extends lib car car"
  by (simp add: extends_def)

lemma extends_trans: "extends lib a b \<Longrightarrow> extends lib b c \<Longrightarrow> extends lib a c"
  unfolding extends_def by blast

lemma extends_get: "extends lib a b \<Longrightarrow> car_get lib a c = Inr (Some v) \<Longrightarrow> car_get lib b c = Inr (Some v)"
  by (simp add: extends_def)

lemma extends_put:
  assumes "lawful_car lib"
  shows "extends lib car (snd (car_put lib v car))"
proof -
  have "\<exists>y. car_get lib (snd (car_put lib v car)) c = Inr y" if "car_get lib car c = Inr x" for c x
  proof (cases "c = fst (car_put lib v car)")
    case True
    then show ?thesis using get_put_same [OF assms] by blast
  next
    case False
    then show ?thesis
      using that get_of_block [OF assms block_put_other [OF assms False]] by simp
  qed
  then show ?thesis
    using get_put_keeps [OF assms] unfolding extends_def by blast
qed

lemma extends_root: "lawful_car lib \<Longrightarrow> extends lib car (push_root lib r car)"
  unfolding extends_def by (metis get_of_block [OF _ block_get_root])

lemma leads_extends:
  assumes "extends lib car car'" and "leads lib car v line d"
  shows "leads lib car' v line d"
  using assms(2)
proof (induction line arbitrary: v)
  case Nil
  then show ?case by simp
next
  case (Cons p line)
  then show ?case
    unfolding leads_Cons using extends_get [OF assms(1)] by blast
qed

section \<open>A CAR library to evaluate examples with\<close>

text \<open>Blocks are pairs of a CID and a value; a new record gets a CID longer than all others.\<close>

type_synonym assoc_car = "(cid \<times> ipld) list \<times> cid list"

definition assoc_put :: "ipld \<Rightarrow> assoc_car \<Rightarrow> cid \<times> assoc_car" where
  "assoc_put v car =
     (case find (\<lambda>b. snd b = v \<and> map_of (fst car) (fst b) = Some v) (fst car) of
        Some b \<Rightarrow> (fst b, car)
      | None \<Rightarrow> let c = concat (map fst (fst car)) @ ''x'' in (c, ((c, v) # fst car, snd car)))"

definition assoc_lib :: "(assoc_car, cid \<times> ipld) car_lib" where
  "assoc_lib = \<lparr>car_empty = ([], []), car_get = (\<lambda>car c. Inr (map_of (fst car) c)), car_put = assoc_put,
     block_get = (\<lambda>car c. map_option (\<lambda>v. (c, v)) (map_of (fst car) c)),
     block_put = (\<lambda>b car. (b # fst car, snd car)), block_cid = fst, block_value = (\<lambda>b. Inr (snd b)),
     car_roots = snd, push_root = (\<lambda>r car. (fst car, snd car @ [r])), car_bad_key = (\<lambda>_. TypeError)\<rparr>"

lemma fresh_key: "map_of es (concat (map fst es) @ ''x'') = None"
proof -
  have "length k \<le> length (concat (map fst es))" if "k \<in> fst ` set es" for k
    using that by (force simp: length_concat intro!: member_le_sum_list)
  then show ?thesis
    by (fastforce simp: map_of_eq_None_iff)
qed

lemma assoc_put_cases:
  obtains (known) c where "assoc_put v car = (c, car)" "map_of (fst car) c = Some v"
  | (new) c where "assoc_put v car = (c, ((c, v) # fst car, snd car))" "map_of (fst car) c = None"
proof (cases "find (\<lambda>b. snd b = v \<and> map_of (fst car) (fst b) = Some v) (fst car)")
  case None
  then show ?thesis using new fresh_key [of "fst car"] by (simp add: assoc_put_def Let_def)
next
  case (Some b)
  with find_some_mem [OF this] show ?thesis using known by (simp add: assoc_put_def)
qed

lemma lawful_assoc: "lawful_car assoc_lib"
proof -
  have put: "map_of (fst (snd (assoc_put v car))) (fst (assoc_put v car)) = Some v"
    "c \<noteq> fst (assoc_put v car) \<Longrightarrow> map_of (fst (snd (assoc_put v car))) c = map_of (fst car) c"
    "map_of (fst car) (fst (assoc_put v car)) = None \<or> map_of (fst car) (fst (assoc_put v car)) = Some v"
    for v c car
    by (rule assoc_put_cases [of v car]; simp)+
  have known: "map_of es (fst (assoc_put v (es, rs))) = Some y \<Longrightarrow> y = v" for es rs v y
    using put(3) [of "(es, rs)" v] by simp
  show ?thesis
    unfolding lawful_car_def using put(1,2) known by (auto simp: assoc_lib_def split: option.splits)
qed

end
