(* ===== verification/Witness_Service.thy ===== *)
theory Witness_Service
  imports Car
begin

text \<open>
  \<open>WitnessService\<close> of \<open>src/src/services/witness-service.ts\<close>: \<open>build\<close> copies the blocks that
  prove an anchor commit out of the Merkle CAR, \<open>cids\<close> walks a witness CAR from the commit to
  the anchored CID, and \<open>verify\<close> checks that the walk ends at the commit's \<open>prev\<close>.
\<close>

section \<open>Building a witness\<close>

definition cid_text :: "js_value \<Rightarrow> string" where
  "cid_text v = (case v of Some (ILink c) \<Rightarrow> c | _ \<Rightarrow> ''undefined'')"

definition raiseNoBlockError :: "js_value \<Rightarrow> string \<Rightarrow> cas_error" where
  "raiseNoBlockError v name = NoBlock (cid_text v) name"

definition copyBlock :: "('car, 'block) car_lib \<Rightarrow> 'car \<Rightarrow> 'car \<Rightarrow> js_value \<Rightarrow> string
    \<Rightarrow> cas_error + 'car" where
  "copyBlock lib source destination v name =
     (case v of
        Some (ILink c) \<Rightarrow>
          (case block_get lib source c of
             None \<Rightarrow> Inl (raiseNoBlockError v name)
           | Some b \<Rightarrow> Inr (block_put lib b destination))
      | _ \<Rightarrow> Inl (car_bad_key lib v))"

text \<open>The loop over the path: the record of the current node, and the witness built so far.\<close>

fun copy_path :: "('car, 'block) car_lib \<Rightarrow> 'car \<Rightarrow> path_direction list \<Rightarrow> js_value \<Rightarrow> 'car
    \<Rightarrow> cas_error + 'car" where
  "copy_path lib merkleCAR [] currentRecord car = Inr car"
| "copy_path lib merkleCAR (pathElement # line) currentRecord car =
     bindE (js_index currentRecord pathElement) (\<lambda>nextCID.
     bindE (js_get lib merkleCAR nextCID) (\<lambda>nextRecord.
     bindE (if truthy nextRecord then copyBlock lib merkleCAR car nextCID ''path element'' else Inr car)
       (\<lambda>car'. copy_path lib merkleCAR line nextRecord car')))"

definition build_witness :: "('car, 'block) car_lib \<Rightarrow> cid \<Rightarrow> 'car \<Rightarrow> cas_error + 'car" where
  "build_witness lib anchorCommitCID merkleCAR =
     bindE (car_get lib merkleCAR anchorCommitCID) (\<lambda>anchorCommit.
     bindE (copyBlock lib merkleCAR (car_empty lib) (Some (ILink anchorCommitCID)) ''anchor commit'') (\<lambda>car1.
     bindE (js_prop anchorCommit ''proof'') (\<lambda>proofCID.
     bindE (js_get lib merkleCAR proofCID) (\<lambda>proof_record.
     bindE (copyBlock lib merkleCAR car1 proofCID ''proof of anchor commit'') (\<lambda>car2.
     bindE (js_prop proof_record ''root'') (\<lambda>rootCID.
     bindE (js_get lib merkleCAR rootCID) (\<lambda>root_record.
     bindE (copyBlock lib merkleCAR car2 rootCID ''Merkle root'') (\<lambda>car3.
     bindE (js_prop anchorCommit ''path'') (\<lambda>line_text.
     bindE (decode_path_line line_text) (\<lambda>line.
     bindE (copy_path lib merkleCAR line root_record car3) (\<lambda>car4.
     Inr (push_root lib anchorCommitCID car4))))))))))))"

section \<open>Walking and verifying a witness\<close>

text \<open>A generator: the values it yields, and the error that ends it, if any.\<close>

type_synonym walk = "ipld list \<times> cas_error option"

definition yielding :: "ipld \<Rightarrow> walk \<Rightarrow> walk" where
  "yielding v w = (v # fst w, snd w)"

definition throwing :: "cas_error + 'a \<Rightarrow> ('a \<Rightarrow> walk) \<Rightarrow> walk" where
  "throwing m f = (case m of Inl e \<Rightarrow> ([], Some e) | Inr x \<Rightarrow> f x)"

text \<open>\<open>if (!v) throw new InvalidWitnessCARError(message)\<close>\<close>

definition must :: "string \<Rightarrow> js_value \<Rightarrow> cas_error + ipld" where
  "must msg v =
     (if truthy v then need (InvalidWitnessCAR msg) v else Inl (InvalidWitnessCAR msg))"

fun walk_path :: "('car, 'block) car_lib \<Rightarrow> 'car \<Rightarrow> path_direction list \<Rightarrow> js_value \<Rightarrow> walk" where
  "walk_path lib witnessCAR [] currentRecord = ([], None)"
| "walk_path lib witnessCAR (p # line) currentRecord =
     throwing (must ''Missing witness node'' currentRecord) (\<lambda>rec.
     throwing (js_index (Some rec) p) (\<lambda>next.
     throwing (must ''Missing witness node'' next) (\<lambda>currentCID.
     yielding currentCID
       (throwing (js_get lib witnessCAR (Some currentCID)) (walk_path lib witnessCAR line)))))"

definition cids :: "('car, 'block) car_lib \<Rightarrow> 'car \<Rightarrow> walk" where
  "cids lib witnessCAR =
     (case car_roots lib witnessCAR of
        [] \<Rightarrow> ([], Some (InvalidWitnessCAR ''No root found: expected anchor commit CID''))
      | anchorCommitCID # _ \<Rightarrow>
          yielding (ILink anchorCommitCID)
          (throwing (car_get lib witnessCAR anchorCommitCID) (\<lambda>commit.
           throwing (must ''No anchor commit found'' commit) (\<lambda>anchorCommit.
           throwing (js_prop (Some anchorCommit) ''proof'') (\<lambda>proofCID.
           throwing (js_get lib witnessCAR proofCID) (\<lambda>proof_found.
           throwing (must ''No proof found'' proof_found) (\<lambda>proof_record.
           throwing (need TypeError proofCID) (\<lambda>proof_link.
           yielding proof_link
           (throwing (js_prop (Some proof_record) ''root'') (\<lambda>rootCID.
            throwing (js_get lib witnessCAR rootCID) (\<lambda>root_found.
            throwing (must ''No Merkle root found'' root_found) (\<lambda>root_record.
            throwing (need TypeError rootCID) (\<lambda>root_link.
            yielding root_link
            (throwing (js_prop (Some anchorCommit) ''path'') (\<lambda>line_text.
             throwing (decode_path_line line_text) (\<lambda>line.
             walk_path lib witnessCAR line (Some root_record)))))))))))))))))"

text \<open>\<open>witnessLink.equals(other)\<close>: a method of CIDs only.\<close>

definition link_equals :: "ipld \<Rightarrow> js_value \<Rightarrow> cas_error + bool" where
  "link_equals link other =
     (case link of ILink c \<Rightarrow> Inr (other = Some (ILink c)) | _ \<Rightarrow> Inl TypeError)"

definition verify :: "('car, 'block) car_lib \<Rightarrow> 'car \<Rightarrow> cas_error + cid" where
  "verify lib witnessCAR =
     (case cids lib witnessCAR of
        (involved, Some e) \<Rightarrow> Inl e
      | ([], None) \<Rightarrow> Inl TypeError
      | (anchorCommitCID # later, None) \<Rightarrow>
          (let witnessLink = last (anchorCommitCID # later) in
           bindE (js_get lib witnessCAR (Some anchorCommitCID)) (\<lambda>anchorCommit.
           bindE (js_prop anchorCommit ''prev'') (\<lambda>prev.
           bindE (link_equals witnessLink prev) (\<lambda>same.
             if same then (case anchorCommitCID of ILink c \<Rightarrow> Inr c | _ \<Rightarrow> Inl TypeError)
             else Inl (InvalidWitnessCAR ''Invalid Merkle witness''))))))"

section \<open>Facts\<close>

lemma throwing_simps [simp]:
  "throwing (Inl e) f = ([], Some e)"
  "throwing (Inr x) f = f x"
  by (simp_all add: throwing_def)

lemma yielding_simps [simp]:
  "fst (yielding v w) = v # fst w"
  "snd (yielding v w) = snd w"
  by (simp_all add: yielding_def)

lemma throwing_ends: "snd (throwing m f) = None \<longleftrightarrow> (\<exists>x. m = Inr x \<and> snd (f x) = None)"
  by (cases m) simp_all

lemma must_Inr [err_simps]: "must msg v = Inr x \<longleftrightarrow> truthy v \<and> v = Some x"
  by (cases v) (auto simp: must_def)

lemma link_equals_True [err_simps]:
  "link_equals link other = Inr True \<longleftrightarrow> (\<exists>c. link = ILink c \<and> other = Some (ILink c))"
  by (cases link) (auto simp: link_equals_def)

lemma truthy_map [simp]: "truthy (Some (IMap fs))" "truthy (Some (ILink c))" "truthy (Some (IList xs))"
  by simp_all

lemma must_truthy: "truthy (Some v) \<Longrightarrow> must msg (Some v) = Inr v"
  by (simp add: must_def)

lemma walk_path_nonempty:
  assumes "snd (walk_path lib car line v) = None" and "line = p # line'"
  shows "fst (walk_path lib car line v) \<noteq> []"
proof -
  obtain x n y where "must ''Missing witness node'' v = Inr x" "js_index (Some x) p = Inr n"
    "must ''Missing witness node'' n = Inr y"
    using assms by (auto simp: throwing_ends)
  then show ?thesis using assms(2) by simp
qed

text \<open>A walk from a record ends well exactly when the path leads to a readable last node.\<close>

lemma walk_path_leads:
  assumes "js_get lib car (Some (ILink c)) = Inr (Some r)" and "line \<noteq> []"
  shows "snd (walk_path lib car line (Some r)) = None
      \<and> last (fst (walk_path lib car line (Some r))) = ILink d
    \<longleftrightarrow> leads lib car (Some (ILink c)) line d \<and> (\<exists>x. car_get lib car d = Inr x)"
  using assms
proof (induction line arbitrary: c r)
  case (Cons p line)
  have got: "car_get lib car c = Inr (Some r)" using Cons.prems(1) by simp
  have starts: "leads lib car (Some (ILink c)) (p # line) d \<longleftrightarrow>
      (\<exists>n. js_index (Some r) p = Inr (Some n) \<and> leads lib car (Some n) line d)"
    unfolding leads_Cons using got by auto
  show ?case
  proof (cases "\<exists>n. js_index (Some r) p = Inr (Some n) \<and> truthy (Some n)")
    case False
    then have "snd (walk_path lib car (p # line) (Some r)) \<noteq> None"
      by (auto simp: throwing_ends err_simps)
    moreover have "\<not> leads lib car (Some (ILink c)) (p # line) d"
    proof
      assume "leads lib car (Some (ILink c)) (p # line) d"
      then obtain n where n: "js_index (Some r) p = Inr (Some n)" "leads lib car (Some n) line d"
        using starts by blast
      then have "truthy (Some n)" by (cases line) (auto simp: leads_Cons)
      with n False show False by blast
    qed
    ultimately show ?thesis by blast
  next
    case True
    then obtain n where n: "js_index (Some r) p = Inr (Some n)" "truthy (Some n)" by blast
    have r: "truthy (Some r)" using js_index_truthy [OF n(1)] .
    have step: "walk_path lib car (p # line) (Some r)
        = yielding n (throwing (js_get lib car (Some n)) (walk_path lib car line))"
      using n r by (simp add: must_def)
    show ?thesis
    proof (cases line)
      case Nil
      then show ?thesis using n step starts by (auto simp: throwing_ends err_simps)
    next
      case (Cons q line')
      show ?thesis
      proof (cases "\<exists>c' r'. n = ILink c' \<and> car_get lib car c' = Inr (Some r')")
        case True
        then obtain c' r' where cr: "n = ILink c'" "car_get lib car c' = Inr (Some r')" by blast
        moreover have "fst (walk_path lib car line (Some r')) \<noteq> []"
          if "snd (walk_path lib car line (Some r')) = None"
          using that Cons by (rule walk_path_nonempty)
        ultimately show ?thesis
          using Cons.IH [of c' r'] Cons n step starts by auto
      next
        case False
        then have "snd (walk_path lib car (p # line) (Some r)) \<noteq> None"
          using Cons step by (auto simp: throwing_ends err_simps must_def)
        moreover have "\<not> leads lib car (Some (ILink c)) (p # line) d"
          using starts n False Cons by (auto simp: leads_Cons)
        ultimately show ?thesis by blast
      qed
    qed
  qed
qed simp


text \<open>
  What a witness CAR has to hold to prove that \<open>prev\<close> is a leaf of the Merkle tree that the
  proof record anchors: the commit, its proof, the root, and every node on the commit's path.
\<close>

definition proves_anchor :: "('car, 'block) car_lib \<Rightarrow> 'car \<Rightarrow> cid \<Rightarrow> cid \<Rightarrow> cid \<Rightarrow> cid
    \<Rightarrow> path_direction list \<Rightarrow> bool" where
  "proves_anchor lib car c prev p r line \<longleftrightarrow>
     (\<exists>commit proof_fields.
        car_get lib car c = Inr (Some (IMap commit)) \<and> map_of commit ''prev'' = Some (ILink prev)
      \<and> map_of commit ''proof'' = Some (ILink p)
      \<and> map_of commit ''path'' = Some (IString (encode_path line)) \<and> line \<noteq> []
      \<and> car_get lib car p = Inr (Some (IMap proof_fields)) \<and> map_of proof_fields ''root'' = Some (ILink r)
      \<and> leads lib car (Some (ILink r)) line prev)"

lemma proves_anchor_root:
  assumes "proves_anchor lib car c prev p r line"
  obtains root_record where "car_get lib car r = Inr (Some root_record)" "truthy (Some root_record)"
proof -
  obtain q line' where "line = q # line'"
    using assms by (cases line) (auto simp: proves_anchor_def)
  with assms that show ?thesis
    by (fastforce simp: proves_anchor_def leads_Cons dest: js_index_truthy)
qed

text \<open>A walk that ends well read the commit, the proof and the root, and then the path.\<close>

lemma cids_ok:
  assumes "snd (cids lib car) = None"
  shows "\<exists>c others commit p proof_record r root_record line.
      car_roots lib car = c # others \<and> car_get lib car c = Inr (Some (IMap commit))
    \<and> map_of commit ''proof'' = Some (ILink p)
    \<and> map_of commit ''path'' = Some (IString (encode_path line)) \<and> line \<noteq> []
    \<and> car_get lib car p = Inr (Some (IMap proof_record)) \<and> map_of proof_record ''root'' = Some (ILink r)
    \<and> car_get lib car r = Inr (Some root_record) \<and> truthy (Some root_record)
    \<and> snd (walk_path lib car line (Some root_record)) = None"
proof -
  obtain c others where roots: "car_roots lib car = c # others"
    using assms by (cases "car_roots lib car") (auto simp: cids_def)
  then show ?thesis
    using assms by (auto simp: cids_def throwing_ends err_simps decode_path_Some) blast
qed

lemma cids_eval:
  assumes "car_roots lib car = c # others" and "car_get lib car c = Inr (Some (IMap commit))"
    and "map_of commit ''proof'' = Some (ILink p)"
    and "map_of commit ''path'' = Some (IString (encode_path line))" and "line \<noteq> []"
    and "car_get lib car p = Inr (Some (IMap proof_record))" and "map_of proof_record ''root'' = Some (ILink r)"
    and "car_get lib car r = Inr (Some root_record)" and "truthy (Some root_record)"
  shows "cids lib car = yielding (ILink c) (yielding (ILink p) (yielding (ILink r)
    (walk_path lib car line (Some root_record))))"
  using assms by (simp add: cids_def must_truthy decode_encode)

lemma verify_accepts_iff:
  "verify lib car = Inr c \<longleftrightarrow>
     (\<exists>others prev p r line x. car_roots lib car = c # others \<and> proves_anchor lib car c prev p r line
        \<and> car_get lib car prev = Inr x)"
proof
  assume ok: "verify lib car = Inr c"
  then have walk: "snd (cids lib car) = None"
    by (cases "cids lib car"; cases "snd (cids lib car)") (auto simp: verify_def split: list.splits)
  obtain c' others commit p proof_record r root_record line where
    facts: "car_roots lib car = c' # others" "car_get lib car c' = Inr (Some (IMap commit))"
    "map_of commit ''proof'' = Some (ILink p)"
    "map_of commit ''path'' = Some (IString (encode_path line))" "line \<noteq> []"
    "car_get lib car p = Inr (Some (IMap proof_record))" "map_of proof_record ''root'' = Some (ILink r)"
    "car_get lib car r = Inr (Some root_record)" "truthy (Some root_record)"
    "snd (walk_path lib car line (Some root_record)) = None"
    using cids_ok [OF walk] by blast
  obtain q line' where line: "line = q # line'" using facts(5) by (cases line) auto
  have nonempty: "fst (walk_path lib car line (Some root_record)) \<noteq> []"
    by (rule walk_path_nonempty [OF facts(10) line])
  have "cids lib car = (ILink c' # ILink p # ILink r # fst (walk_path lib car line (Some root_record)), None)"
    by (simp only: cids_eval [OF facts(1-9)] prod_eq_iff yielding_simps facts(10) fst_conv snd_conv)
  then obtain prev where prev: "c' = c" "map_of commit ''prev'' = Some (ILink prev)"
    "last (fst (walk_path lib car line (Some root_record))) = ILink prev"
    using ok facts(2) nonempty by (auto simp: verify_def Let_def err_simps split: if_splits)
  have "leads lib car (Some (ILink r)) line prev" "\<exists>x. car_get lib car prev = Inr x"
    using walk_path_leads [of lib car r root_record line prev] facts(5,8,10) prev(3) by auto
  then show "\<exists>others prev p r line x. car_roots lib car = c # others
      \<and> proves_anchor lib car c prev p r line \<and> car_get lib car prev = Inr x"
    using facts prev unfolding proves_anchor_def by blast
next
  assume "\<exists>others prev p r line x. car_roots lib car = c # others
      \<and> proves_anchor lib car c prev p r line \<and> car_get lib car prev = Inr x"
  then obtain others prev p r line x where w: "car_roots lib car = c # others"
    "proves_anchor lib car c prev p r line" "car_get lib car prev = Inr x" by blast
  obtain root_record where root: "car_get lib car r = Inr (Some root_record)" "truthy (Some root_record)"
    using w(2) by (rule proves_anchor_root)
  obtain commit proof_record where c: "car_get lib car c = Inr (Some (IMap commit))"
    "map_of commit ''prev'' = Some (ILink prev)" "map_of commit ''proof'' = Some (ILink p)"
    "map_of commit ''path'' = Some (IString (encode_path line))" "line \<noteq> []"
    "car_get lib car p = Inr (Some (IMap proof_record))" "map_of proof_record ''root'' = Some (ILink r)"
    "leads lib car (Some (ILink r)) line prev"
    using w(2) unfolding proves_anchor_def by blast
  have ends: "snd (walk_path lib car line (Some root_record)) = None"
    "last (fst (walk_path lib car line (Some root_record))) = ILink prev"
    using walk_path_leads [of lib car r root_record line prev] root(1) c(5,8) w(3) by auto
  obtain q line' where line: "line = q # line'" using c(5) by (cases line) auto
  have "cids lib car = (ILink c # ILink p # ILink r # fst (walk_path lib car line (Some root_record)), None)"
    by (simp only: cids_eval [OF w(1) c(1,3-7) root] prod_eq_iff yielding_simps ends(1) fst_conv snd_conv)
  then show "verify lib car = Inr c"
    using walk_path_nonempty [OF ends(1) line] ends(2) c(1,2)
    by (simp add: verify_def Let_def link_equals_def)
qed

text \<open>
  C4 (verify): \<open>verify\<close> accepts a witness CAR and names a commit exactly when the commit is the
  CAR's first root, and the CAR holds the commit, its proof, and a Merkle path from the proof's
  root that leads to the commit's \<open>prev\<close>; everything else is an error.
\<close>

theorem verify_iff:
  "verify lib car = Inr c \<longleftrightarrow>
     (\<exists>others prev p r line x. car_roots lib car = c # others \<and> proves_anchor lib car c prev p r line
        \<and> car_get lib car prev = Inr x)"
  by (rule verify_accepts_iff)

section \<open>The built witness\<close>

definition part_of :: "('car, 'block) car_lib \<Rightarrow> 'car \<Rightarrow> 'car \<Rightarrow> bool" where
  "part_of lib w m \<longleftrightarrow> (\<forall>c. block_get lib w c = None \<or> block_get lib w c = block_get lib m c)"

definition grows :: "('car, 'block) car_lib \<Rightarrow> 'car \<Rightarrow> 'car \<Rightarrow> bool" where
  "grows lib w w' \<longleftrightarrow> (\<forall>c. block_get lib w c \<noteq> None \<longrightarrow> block_get lib w' c = block_get lib w c)"

lemma grows_trans: "grows lib a b \<Longrightarrow> grows lib b c \<Longrightarrow> grows lib a c"
  by (simp add: grows_def)

lemma has_block:
  assumes "lawful_car lib" and "car_get lib car c = Inr (Some v)"
  obtains b where "block_get lib car c = Some b" "block_value lib b = Inr v"
  using assms by (auto simp: car_get_block split: option.splits sum.splits)

lemma copyBlock_present:
  assumes "lawful_car lib" and "car_get lib m c = Inr (Some v)" and "part_of lib w m"
  shows "\<exists>w'. copyBlock lib m w (Some (ILink c)) name = Inr w' \<and> part_of lib w' m \<and> grows lib w w'
    \<and> block_get lib w' c = block_get lib m c \<and> car_roots lib w' = car_roots lib w"
proof -
  obtain b where b: "block_get lib m c = Some b" using has_block [OF assms(1,2)] by blast
  have cid: "block_cid lib b = c" by (rule block_get_cid [OF assms(1) b])
  have old: "block_get lib w c = None \<or> block_get lib w c = Some b"
    using assms(3) b by (metis part_of_def)
  have blocks: "block_get lib (block_put lib b w) x = (if x = c then Some b else block_get lib w x)" for x
    using cid by (simp add: block_get_put [OF assms(1)])
  have "part_of lib (block_put lib b w) m" "grows lib w (block_put lib b w)"
    using assms(3) b old by (auto simp: part_of_def grows_def blocks)
  then show ?thesis
    using b by (simp add: copyBlock_def blocks roots_block [OF assms(1)])
qed

lemma grows_get:
  assumes "lawful_car lib" and "grows lib w w'" and "block_get lib w c = block_get lib m c"
    and "car_get lib m c = Inr (Some v)"
  shows "block_get lib w' c = block_get lib m c" and "car_get lib w' c = Inr (Some v)"
proof -
  obtain b where "block_get lib m c = Some b" using has_block [OF assms(1,4)] by blast
  with assms(2,3) show "block_get lib w' c = block_get lib m c" by (auto simp: grows_def)
  then show "car_get lib w' c = Inr (Some v)"
    using assms(4) get_of_block [OF assms(1)] by metis
qed

lemma copy_path_leads:
  assumes "lawful_car lib" and "car_get lib m c = Inr (Some v)" and "leads lib m (Some (ILink c)) line d"
    and "car_get lib m d = Inr x" and "part_of lib w m" and "block_get lib w c = block_get lib m c"
  shows "\<exists>w'. copy_path lib m line (Some v) w = Inr w' \<and> part_of lib w' m \<and> grows lib w w'
    \<and> leads lib w' (Some (ILink c)) line d \<and> car_roots lib w' = car_roots lib w"
  using assms(2-)
proof (induction line arbitrary: c v w)
  case Nil
  then show ?case by (simp add: grows_def)
next
  case (Cons p line)
  obtain n where n: "js_index (Some v) p = Inr (Some n)" "leads lib m (Some n) line d"
    using Cons.prems(1,2) by (auto simp: leads_Cons)
  obtain c2 where c2: "n = ILink c2" using n(2) by (cases line) (auto simp: leads_Cons)
  show ?case
  proof (cases "\<exists>v2. car_get lib m c2 = Inr (Some v2) \<and> truthy (Some v2)")
    case True
    then obtain v2 where v2: "car_get lib m c2 = Inr (Some v2)" "truthy (Some v2)" by blast
    obtain w2 where w2: "copyBlock lib m w (Some (ILink c2)) ''path element'' = Inr w2"
      "part_of lib w2 m" "grows lib w w2" "block_get lib w2 c2 = block_get lib m c2"
      "car_roots lib w2 = car_roots lib w"
      using copyBlock_present [OF assms(1) v2(1) Cons.prems(4)] by blast
    obtain w' where w': "copy_path lib m line (Some v2) w2 = Inr w'" "part_of lib w' m" "grows lib w2 w'"
      "leads lib w' (Some (ILink c2)) line d" "car_roots lib w' = car_roots lib w2"
      using Cons.IH [OF v2(1) n(2) [unfolded c2] Cons.prems(3) w2(2,4)] by blast
    have "car_get lib w' c = Inr (Some v)"
      by (rule grows_get(2) [OF assms(1) grows_trans [OF w2(3) w'(3)] Cons.prems(5,1)])
    then show ?thesis
      using n(1) c2 v2 w2 w' grows_trans [OF w2(3) w'(3)] by (auto simp: leads_Cons)
  next
    case False
    have last_node: "line = []"
    proof (rule ccontr)
      assume "line \<noteq> []"
      then show False using n(2) c2 False js_index_truthy by (cases line) (auto simp: leads_Cons)
    qed
    then have "d = c2" using n(2) c2 by simp
    then have "car_get lib w c = Inr (Some v)"
      using get_of_block [OF assms(1) Cons.prems(5)] Cons.prems(1) by simp
    with False last_node n(1) c2 \<open>d = c2\<close> Cons.prems(3,4) show ?thesis
      by (cases x) (auto simp: leads_Cons grows_def)
  qed
qed

lemma built_witness:
  assumes "lawful_car lib" and "proves_anchor lib m c prev p r line" and "car_get lib m prev = Inr x"
  shows "\<exists>w. build_witness lib c m = Inr w \<and> verify lib w = Inr c \<and> car_roots lib w = [c]
    \<and> proves_anchor lib w c prev p r line \<and> part_of lib w m"
proof -
  obtain commit proof_record where facts: "car_get lib m c = Inr (Some (IMap commit))"
    "map_of commit ''prev'' = Some (ILink prev)" "map_of commit ''proof'' = Some (ILink p)"
    "map_of commit ''path'' = Some (IString (encode_path line))" "line \<noteq> []"
    "car_get lib m p = Inr (Some (IMap proof_record))" "map_of proof_record ''root'' = Some (ILink r)"
    "leads lib m (Some (ILink r)) line prev"
    using assms(2) unfolding proves_anchor_def by blast
  obtain root_record where root: "car_get lib m r = Inr (Some root_record)"
    using assms(2) by (rule proves_anchor_root)
  have "part_of lib (car_empty lib) m" by (simp add: part_of_def block_get_empty [OF assms(1)])
  then obtain w1 where w1: "copyBlock lib m (car_empty lib) (Some (ILink c)) ''anchor commit'' = Inr w1"
    "part_of lib w1 m" "block_get lib w1 c = block_get lib m c" "car_roots lib w1 = []"
    using copyBlock_present [OF assms(1) facts(1)] roots_empty [OF assms(1)] by metis
  obtain w2 where w2: "copyBlock lib m w1 (Some (ILink p)) ''proof of anchor commit'' = Inr w2"
    "part_of lib w2 m" "grows lib w1 w2" "block_get lib w2 p = block_get lib m p" "car_roots lib w2 = []"
    using copyBlock_present [OF assms(1) facts(6) w1(2)] w1(4) by metis
  obtain w3 where w3: "copyBlock lib m w2 (Some (ILink r)) ''Merkle root'' = Inr w3"
    "part_of lib w3 m" "grows lib w2 w3" "block_get lib w3 r = block_get lib m r" "car_roots lib w3 = []"
    using copyBlock_present [OF assms(1) root w2(2)] w2(5) by metis
  obtain w4 where w4: "copy_path lib m line (Some root_record) w3 = Inr w4" "part_of lib w4 m"
    "grows lib w3 w4" "leads lib w4 (Some (ILink r)) line prev" "car_roots lib w4 = []"
    using copy_path_leads [OF assms(1) root facts(8) assms(3) w3(2,4)] w3(5) by metis
  define w where "w = push_root lib c w4"
  note same = get_of_block [OF assms(1) block_get_root [OF assms(1)]]
  have built: "build_witness lib c m = Inr w"
    using facts root w1(1) w2(1) w3(1) w4(1) by (simp add: build_witness_def decode_encode w_def)
  have c: "car_get lib w4 c = Inr (Some (IMap commit))"
    by (rule grows_get(2) [OF assms(1) grows_trans [OF grows_trans [OF w2(3) w3(3)] w4(3)] w1(3) facts(1)])
  have p: "car_get lib w4 p = Inr (Some (IMap proof_record))"
    by (rule grows_get(2) [OF assms(1) grows_trans [OF w3(3) w4(3)] w2(4) facts(6)])
  have leads: "leads lib w v l d = leads lib w4 v l d" for v l d
    by (induction l arbitrary: v) (simp_all add: leads_Cons same w_def)
  have proves: "proves_anchor lib w c prev p r line"
    using facts c p w4(4) unfolding proves_anchor_def leads by (auto simp: same w_def)
  have part: "part_of lib w m" using w4(2) by (simp add: part_of_def w_def block_get_root [OF assms(1)])
  then have "\<exists>y. car_get lib w prev = Inr y"
    using assms(3) unfolding part_of_def by (metis get_of_block [OF assms(1)] block_get_empty [OF assms(1)]
        car_get_block [OF assms(1)] option.case(1))
  moreover have roots: "car_roots lib w = [c]" using w4(5) by (simp add: w_def roots_push [OF assms(1)])
  ultimately have "verify lib w = Inr c" using verify_accepts_iff [of lib w c] proves by blast
  with built proves part roots show ?thesis by blast
qed

text \<open>
  C5 (build): from a Merkle CAR that proves an anchor, \<open>build\<close> makes a CAR with the commit as
  its only root that consists of blocks of the Merkle CAR, still proves the anchor, and is
  accepted by \<open>verify\<close> with the commit's CID.
\<close>

theorem build_witness_verifies:
  assumes "lawful_car lib" and "proves_anchor lib m c prev p r line" and "car_get lib m prev = Inr x"
  shows "\<exists>w. build_witness lib c m = Inr w \<and> verify lib w = Inr c \<and> car_roots lib w = [c]
    \<and> proves_anchor lib w c prev p r line \<and> part_of lib w m"
  by (rule built_witness [OF assms])

text \<open>A Merkle CAR with two leaves, its proof and the commit of the second leaf.\<close>

definition example_merkle_car :: assoc_car where
  "example_merkle_car =
     ([(''commit'', IMap [(''id'', ILink ''stream''), (''prev'', ILink ''leaf1''),
          (''proof'', ILink ''proof''), (''path'', IString ''1'')]),
       (''proof'', IMap [(''root'', ILink ''root''), (''chainId'', IString ''eip155:1'')]),
       (''root'', IList [ILink ''leaf0'', ILink ''leaf1'']),
       (''other'', IInt 3)], [''root''])"

theorem build_witness_verifies_witness:
  "\<exists>w. build_witness assoc_lib ''commit'' example_merkle_car = Inr w
    \<and> verify assoc_lib w = Inr ''commit'' \<and> car_roots assoc_lib w = [''commit'']
    \<and> proves_anchor assoc_lib w ''commit'' ''leaf1'' ''proof'' ''root'' [R]
    \<and> part_of assoc_lib w example_merkle_car"
proof (rule build_witness_verifies [OF lawful_assoc])
  show "proves_anchor assoc_lib example_merkle_car ''commit'' ''leaf1'' ''proof'' ''root'' [R]"
    by (simp add: proves_anchor_def leads_Cons assoc_lib_def example_merkle_car_def list_get_def
        encode_path_def)
  show "car_get assoc_lib example_merkle_car ''leaf1'' = Inr None"
    by (simp add: assoc_lib_def example_merkle_car_def)
qed

end
