(* ===== verification/Anchor_Service.thy ===== *)
theory Anchor_Service
  imports Effects Candidate Witness_Service
begin

text \<open>
  \<open>src/src/services/anchor-service.ts\<close> and \<open>src/src/merkle/merkle-car-factory.ts\<close>: from a batch
  of requests to anchors in the database. The Merkle tree and CAR packages, the blockchain, the
  stores and the queue are outside: their answers are fields of \<open>platform\<close> and \<open>answers\<close>, and
  \<open>lawful_tree\<close> says what is documented of the tree.
\<close>

section \<open>Configuration and platform\<close>

record service_config =
  merkleDepthLimit :: nat
  useSmartContractAnchors :: bool
  useQueueBatches :: bool
  maxStreamLimit :: nat
  minStreamLimit :: nat
  maxAnchoringDelayMS :: int
  readyRetryIntervalMS :: int
  casUseIpfsStorage :: bool
  casPubsubPublish :: bool

text \<open>The limits the constructor derives; \<open>None\<close> is a \<open>minStreamCount\<close> that is no number.\<close>

definition max_stream_limit :: "nat \<Rightarrow> nat" where
  "max_stream_limit depth = (if 0 < depth then 2 ^ depth else 0)"

definition min_stream_limit :: "nat option \<Rightarrow> nat \<Rightarrow> nat" where
  "min_stream_limit minStreamCount depth =
     (case minStreamCount of
        Some (Suc n) \<Rightarrow> Suc n
      | _ \<Rightarrow> max_stream_limit depth div 2)"

record 'car merkle_car =
  mt_root :: cid
  mt_leaves :: "candidate list"
  mt_path :: "nat \<Rightarrow> path_direction list"
  mt_car :: 'car

record ('car, 'block) platform =
  lib :: "('car, 'block) car_lib"
  tree_factory :: "nat \<Rightarrow> candidate list \<Rightarrow> 'car \<Rightarrow> cas_error + 'car merkle_car"
  pathString :: "path_direction list \<Rightarrow> string"
  stream_cid :: "stream_id \<Rightarrow> cid"
  cid_create :: "nat \<Rightarrow> nat \<Rightarrow> nat \<Rightarrow> nat list \<Rightarrow> cid"
  id_parsers_of :: id_parsers
  engine :: db_engine

text \<open>
  The tree has the candidates as leaves, in some order, stores its nodes in the CAR so that each
  leaf's path leads from the root to the leaf's CID, and renders paths as the code reads them.
\<close>

definition leaf_ok :: "('car, 'block) car_lib \<Rightarrow> 'car merkle_car \<Rightarrow> nat \<Rightarrow> bool" where
  "leaf_ok l t i \<longleftrightarrow> leads l (mt_car t) (Some (ILink (mt_root t))) (mt_path t i) (cd_cid (mt_leaves t ! i))
     \<and> (\<exists>x. car_get l (mt_car t) (cd_cid (mt_leaves t ! i)) = Inr x)"

definition lawful_tree :: "('car, 'block) platform \<Rightarrow> bool" where
  "lawful_tree P \<longleftrightarrow>
     (\<forall>depth cs t. tree_factory P depth cs (car_empty (lib P)) = Inr t \<longrightarrow>
        mset (mt_leaves t) = mset cs \<and> (\<forall>i < length cs. leaf_ok (lib P) t i)
        \<and> (\<forall>i < length cs. mt_path t i = [] \<longleftrightarrow> length cs = 1)) \<and>
     (\<forall>line. pathString P line = encode_path line)"

section \<open>State and answers of the outside\<close>

record anchor_results =
  ar_anchoredRequestsCount :: nat
  ar_failedToPublishAnchorCommitCount :: int
  ar_anchorCount :: nat
  ar_reanchoredCount :: "int option"

record anchor_summary =
  batchId :: string
  batchRequestsCount :: nat
  acceptedRequestsCount :: nat
  alreadyAnchoredRequestsCount :: nat
  anchoredRequestsCount :: nat
  conflictingRequestCount :: nat
  failedRequestsCount :: nat
  failedToPublishAnchorCommitCount :: int
  unprocessedRequestCount :: nat
  pendingRequestsCount :: "int option"
  candidateCount :: nat
  anchorCount :: nat
  canRetryCount :: nat
  reanchoredCount :: "int option"

record 'car world =
  w_db :: database
  w_sent :: "cid list"                          \<comment> \<open>roots submitted to the blockchain\<close>
  w_imports :: "'car list"                      \<comment> \<open>CARs imported into IPFS\<close>
  w_records :: "cid list"                       \<comment> \<open>records stored in IPFS\<close>
  w_published :: "(cid \<times> stream_id) list"        \<comment> \<open>commits published to pubsub\<close>
  w_merkle_cars :: "(cid \<times> 'car) list"           \<comment> \<open>Merkle CARs by proof CID\<close>
  w_witness_cars :: "(cid \<times> 'car) list"          \<comment> \<open>witness CARs by commit CID\<close>
  w_summaries :: "anchor_summary list"
  w_acked :: "string list"
  w_nacked :: "string list"
  w_events :: nat                               \<comment> \<open>anchor events emitted\<close>

record answers =
  locks :: "lock_answer list"
  submit :: "cid \<Rightarrow> cas_error + transaction"
  import_failure :: "cas_error option"
  record_failure :: "cid \<Rightarrow> cas_error option"
  publish_failure :: "cid \<Rightarrow> cas_error option"
  car_store_failure :: "cas_error option"
  witness_store_failure :: "cid \<Rightarrow> cas_error option"
  new_ids :: "nat \<Rightarrow> string"
  persist_attempts :: "database attempt list"
  revert_clock :: date

section \<open>Building the tree, the proof and the commits\<close>

text \<open>\<open>MerkleCarFactory.build\<close>: the tree in a new CAR, with its root as the CAR's root.\<close>

definition merkle_car_build :: "('car, 'block) platform \<Rightarrow> nat \<Rightarrow> candidate list
    \<Rightarrow> cas_error + 'car merkle_car" where
  "merkle_car_build P depthLimit candidates =
     bindE (tree_factory P depthLimit candidates (car_empty (lib P))) (\<lambda>t.
       Inr (t\<lparr>mt_car := push_root (lib P) (mt_root t) (mt_car t)\<rparr>))"

definition buildMerkleTree :: "('car, 'block) platform \<Rightarrow> service_config \<Rightarrow> candidate list
    \<Rightarrow> cas_error + 'car merkle_car" where
  "buildMerkleTree P cfg candidates =
     (case merkle_car_build P (merkleDepthLimit cfg) candidates of
        Inl e \<Rightarrow> Inl (MerkleTreeFailure e)
      | Inr t \<Rightarrow> Inr t)"

text \<open>\<open>Buffer.from(hash, 'hex')\<close> stops at the first pair that is not hexadecimal.\<close>

definition hex_digit :: "char \<Rightarrow> nat option" where
  "hex_digit c =
     (let n = (of_char c :: nat)
      in if 48 \<le> n \<and> n \<le> 57 then Some (n - 48)
         else if 97 \<le> n \<and> n \<le> 102 then Some (n - 87)
         else if 65 \<le> n \<and> n \<le> 70 then Some (n - 55)
         else None)"

fun hex_bytes :: "string \<Rightarrow> nat list" where
  "hex_bytes (a # b # s) =
     (case (hex_digit a, hex_digit b) of
        (Some x, Some y) \<Rightarrow> (16 * x + y) # hex_bytes s
      | _ \<Rightarrow> [])"
| "hex_bytes _ = []"

definition convertEthHashToCid :: "('car, 'block) platform \<Rightarrow> string \<Rightarrow> cid" where
  "convertEthHashToCid P hash = cid_create P 1 147 27 (hex_bytes hash)"

definition proof_record :: "('car, 'block) platform \<Rightarrow> service_config \<Rightarrow> transaction \<Rightarrow> cid \<Rightarrow> ipld" where
  "proof_record P cfg tx merkleRootCid =
     IMap ([(''root'', ILink merkleRootCid), (''chainId'', IString (chain tx)),
            (''txHash'', ILink (convertEthHashToCid P (drop 2 (txHash tx))))]
           @ (if useSmartContractAnchors cfg then [(''txType'', IString ''f(bytes32)'')] else []))"

definition createIPFSProof :: "('car, 'block) platform \<Rightarrow> service_config \<Rightarrow> 'car \<Rightarrow> transaction \<Rightarrow> cid
    \<Rightarrow> cid \<times> 'car" where
  "createIPFSProof P cfg car tx merkleRootCid = car_put (lib P) (proof_record P cfg tx merkleRootCid) car"

definition anchor_commit :: "('car, 'block) platform \<Rightarrow> cid \<Rightarrow> candidate \<Rightarrow> string \<Rightarrow> ipld" where
  "anchor_commit P ipfsProofCid c line =
     IMap [(''id'', ILink (stream_cid P (cd_streamId c))), (''prev'', ILink (cd_cid c)),
           (''proof'', ILink ipfsProofCid), (''path'', IString line)]"

text \<open>Storing and publishing one commit; a failure of either is logged and swallowed.\<close>

definition publish_commit :: "service_config \<Rightarrow> answers \<Rightarrow> cid \<Rightarrow> stream_id \<Rightarrow> 'car world \<Rightarrow> 'car world" where
  "publish_commit cfg ans c sid w =
     (if casUseIpfsStorage cfg \<and> record_failure ans c \<noteq> None then w
      else
        let w1 = (if casUseIpfsStorage cfg then w\<lparr>w_records := w_records w @ [c]\<rparr> else w)
        in if casPubsubPublish cfg \<and> publish_failure ans c = None
           then w1\<lparr>w_published := w_published w1 @ [(c, sid)]\<rparr> else w1)"

definition createAnchorCommit :: "('car, 'block) platform \<Rightarrow> service_config \<Rightarrow> answers \<Rightarrow> cid
    \<Rightarrow> 'car merkle_car \<Rightarrow> nat \<Rightarrow> candidate \<Rightarrow> 'car \<Rightarrow> 'car world
    \<Rightarrow> fresh_anchor \<times> 'car \<times> 'car world" where
  "createAnchorCommit P cfg ans ipfsProofCid tree candidateIndex c car w =
     (let line = pathString P (mt_path tree candidateIndex);
          (anchorCid, car') = car_put (lib P) (anchor_commit P ipfsProofCid c line) car
      in (\<lparr>requestId = req_id (cd_request c), proofCid = ipfsProofCid, path = line, anchor_cid = anchorCid\<rparr>,
          car', publish_commit cfg ans anchorCid (cd_streamId c) w))"

fun create_commits :: "('car, 'block) platform \<Rightarrow> service_config \<Rightarrow> answers \<Rightarrow> cid \<Rightarrow> 'car merkle_car
    \<Rightarrow> nat \<Rightarrow> candidate list \<Rightarrow> 'car \<Rightarrow> 'car world \<Rightarrow> fresh_anchor list \<times> 'car \<times> 'car world" where
  "create_commits P cfg ans ipfsProofCid tree index [] car w = ([], car, w)"
| "create_commits P cfg ans ipfsProofCid tree index (leaf # leaves) car w =
     (case createAnchorCommit P cfg ans ipfsProofCid tree index leaf car w of
        (anchor, car1, w1) \<Rightarrow>
          (case create_commits P cfg ans ipfsProofCid tree (Suc index) leaves car1 w1 of
             (anchors', car2, w2) \<Rightarrow> (anchor # anchors', car2, w2)))"

definition createAnchorCommits :: "('car, 'block) platform \<Rightarrow> service_config \<Rightarrow> answers \<Rightarrow> cid
    \<Rightarrow> 'car merkle_car \<Rightarrow> 'car \<Rightarrow> 'car world \<Rightarrow> fresh_anchor list \<times> 'car \<times> 'car world" where
  "createAnchorCommits P cfg ans ipfsProofCid tree car w =
     create_commits P cfg ans ipfsProofCid tree 0 (mt_leaves tree) car w"

section \<open>Storing and persisting the results\<close>

definition put_merkle_car :: "cid \<Rightarrow> 'car \<Rightarrow> 'car world \<Rightarrow> 'car world" where
  "put_merkle_car c car w = w\<lparr>w_merkle_cars := (c, car) # w_merkle_cars w\<rparr>"

definition put_witness_car :: "cid \<Rightarrow> 'car \<Rightarrow> 'car world \<Rightarrow> 'car world" where
  "put_witness_car c car w = w\<lparr>w_witness_cars := (c, car) # w_witness_cars w\<rparr>"

text \<open>\<open>build\<close> is outside the \<open>try\<close>: its error ends the batch, an error of \<open>store\<close> is swallowed.\<close>

fun storeWitnessCARs :: "('car, 'block) platform \<Rightarrow> answers \<Rightarrow> fresh_anchor list \<Rightarrow> 'car
    \<Rightarrow> ('car world, unit) prog" where
  "storeWitnessCARs P ans [] car = returnP ()"
| "storeWitnessCARs P ans (a # as) car =
     bindP (liftP (build_witness (lib P) (anchor_cid a) car)) (\<lambda>witnessCAR.
     bindP (catchP (callP (witness_store_failure ans (anchor_cid a))
                     (put_witness_car (anchor_cid a) witnessCAR)) (\<lambda>e. returnP ()))
       (\<lambda>_. storeWitnessCARs P ans as car))"

definition completed_fields :: update_fields where
  "completed_fields = \<lparr>f_message = Some ''CID successfully anchored.'', f_status = Some COMPLETED,
     f_pinned = Some True\<rparr>"

definition persist_txn :: "(nat \<Rightarrow> string) \<Rightarrow> fresh_anchor list \<Rightarrow> request list \<Rightarrow> database attempt
    \<Rightarrow> cas_error + (database \<times> int option)" where
  "persist_txn ids created accepted_rs a =
     repeatable_read (att_aborted a)
       (bindE (if 0 < length created then createAnchors ids (att_clock a) created (att_db a)
               else Inr (att_db a, Some 0))
         (\<lambda>(db, persistedAnchorsCount).
            Inr (db\<lparr>requests := fst (updateRequests completed_fields accepted_rs (att_clock a) (requests db))\<rparr>,
                 persistedAnchorsCount)))"

definition persistAnchorResult :: "answers \<Rightarrow> fresh_anchor list \<Rightarrow> candidate list
    \<Rightarrow> ('car world, int option) prog" where
  "persistAnchorResult ans created candidates w =
     (case retrying (persist_txn (new_ids ans) created (map cd_request candidates)) (persist_attempts ans) of
        None \<Rightarrow> None
      | Some (Inl e) \<Rightarrow> Some (Inl e, w)
      | Some (Inr (db, n)) \<Rightarrow> Some (Inr n, w\<lparr>w_db := db\<rparr>))"

definition send_root :: "answers \<Rightarrow> cid \<Rightarrow> 'car world \<Rightarrow> (cas_error + transaction) \<times> 'car world" where
  "send_root ans rootCid w = (submit ans rootCid, w\<lparr>w_sent := w_sent w @ [rootCid]\<rparr>)"

text \<open>What \<open>_anchorCandidates\<close> does once the CAR is complete, in the order of the code.\<close>

definition store_results :: "('car, 'block) platform \<Rightarrow> service_config \<Rightarrow> answers \<Rightarrow> candidate list
    \<Rightarrow> 'car merkle_car \<Rightarrow> cid \<Rightarrow> fresh_anchor list \<Rightarrow> 'car \<Rightarrow> ('car world, anchor_results) prog" where
  "store_results P cfg ans candidates tree ipfsProofCid created car =
      bindP (if casUseIpfsStorage cfg
             then callP (import_failure ans) (\<lambda>w. w\<lparr>w_imports := w_imports w @ [car]\<rparr>) else returnP ()) (\<lambda>_.
      bindP (callP (car_store_failure ans) (put_merkle_car ipfsProofCid car)) (\<lambda>_.
      bindP (storeWitnessCARs P ans created car) (\<lambda>_.
      bindP (persistAnchorResult ans created candidates) (\<lambda>persistedAnchorsCount.
      returnP \<lparr>ar_anchoredRequestsCount = length candidates,
        ar_failedToPublishAnchorCommitCount = int (length (mt_leaves tree)) - int (length created),
        ar_anchorCount = length created,
        ar_reanchoredCount = map_option (\<lambda>n. int (length created) - n) persistedAnchorsCount\<rparr>))))"

definition anchor_tree :: "('car, 'block) platform \<Rightarrow> service_config \<Rightarrow> answers \<Rightarrow> candidate list
    \<Rightarrow> 'car merkle_car \<Rightarrow> transaction \<Rightarrow> ('car world, anchor_results) prog" where
  "anchor_tree P cfg ans candidates tree tx w0 =
     (case createIPFSProof P cfg (mt_car tree) tx (mt_root tree) of (ipfsProofCid, car1) \<Rightarrow>
      case createAnchorCommits P cfg ans ipfsProofCid tree car1 w0 of (created, car, w1) \<Rightarrow>
        store_results P cfg ans candidates tree ipfsProofCid created car w1)"

definition anchorCandidates :: "('car, 'block) platform \<Rightarrow> service_config \<Rightarrow> answers \<Rightarrow> candidate list
    \<Rightarrow> ('car world, anchor_results) prog" where
  "anchorCandidates P cfg ans candidates =
     bindP (liftP (buildMerkleTree P cfg candidates)) (\<lambda>tree.
     bindP (withTransactionMutex (send_root ans (mt_root tree)) None (locks ans)) (\<lambda>tx.
     anchor_tree P cfg ans candidates tree tx))"

section \<open>Anchoring a batch\<close>

definition base_summary :: "string \<Rightarrow> request list \<Rightarrow> request_groups \<Rightarrow> candidate list \<Rightarrow> 'car world
    \<Rightarrow> anchor_summary" where
  "base_summary batch_id batch g candidates w =
     \<lparr>batchId = batch_id, batchRequestsCount = length batch,
      acceptedRequestsCount = length (acceptedRequests g),
      alreadyAnchoredRequestsCount = length (alreadyAnchoredRequests g),
      anchoredRequestsCount = 0, conflictingRequestCount = 0,
      failedRequestsCount = length (failedRequests g), failedToPublishAnchorCommitCount = 0,
      unprocessedRequestCount = length (unprocessedRequests g),
      pendingRequestsCount = countByStatus PENDING (requests (w_db w)),
      candidateCount = length candidates, anchorCount = 0,
      canRetryCount = length (failedRequests g), reanchoredCount = Some 0\<rparr>"

text \<open>\<open>Object.assign(summary, results)\<close> for the two kinds of results the code passes.\<close>

definition with_results :: "anchor_results \<Rightarrow> anchor_summary \<Rightarrow> anchor_summary" where
  "with_results r s = s\<lparr>anchoredRequestsCount := ar_anchoredRequestsCount r,
     failedToPublishAnchorCommitCount := ar_failedToPublishAnchorCommitCount r,
     anchorCount := ar_anchorCount r, reanchoredCount := ar_reanchoredCount r\<rparr>"

definition logAnchorSummary :: "string \<Rightarrow> request list \<Rightarrow> request_groups \<Rightarrow> candidate list
    \<Rightarrow> (anchor_summary \<Rightarrow> anchor_summary) \<Rightarrow> ('car world, unit) prog" where
  "logAnchorSummary batch_id batch g candidates results =
     modifyP (\<lambda>w. w\<lparr>w_summaries := w_summaries w @ [results (base_summary batch_id batch g candidates w)]\<rparr>)"

definition revert_to_pending :: "answers \<Rightarrow> candidate list \<Rightarrow> 'car world \<Rightarrow> 'car world" where
  "revert_to_pending ans candidates w =
     w\<lparr>w_db := (w_db w)\<lparr>requests := fst (updateRequests (only_status PENDING) (map cd_request candidates)
                            (revert_clock ans) (requests (w_db w)))\<rparr>\<rparr>"

definition anchor_batch :: "('car, 'block) platform \<Rightarrow> service_config \<Rightarrow> answers \<Rightarrow> request list \<Rightarrow> string
    \<Rightarrow> ('car world, unit) prog" where
  "anchor_batch P cfg ans batch batch_id w =
     (let filteredRequests = filter (\<lambda>r. status r \<noteq> REPLACED) batch
      in if filteredRequests = [] then returnP () w
         else bindP (liftP (findCandidates (id_parsers_of P) (engine P) filteredRequests (maxStreamLimit cfg)
                              (anchors (w_db w)))) (\<lambda>(candidates, g).
           if candidates = [] then logAnchorSummary batch_id batch g candidates (\<lambda>s. s)
           else catchP
             (bindP (anchorCandidates P cfg ans candidates) (\<lambda>results.
              logAnchorSummary batch_id batch g candidates (with_results results)))
             (\<lambda>err.
              bindP (if useQueueBatches cfg then returnP () else modifyP (revert_to_pending ans candidates)) (\<lambda>_.
              bindP (logAnchorSummary batch_id batch g candidates
                       (\<lambda>s. s\<lparr>failedRequestsCount := 0, canRetryCount := 0 + length candidates\<rparr>)) (\<lambda>_.
              throwP err)))) w)"

definition anchorReadyRequests :: "('car, 'block) platform \<Rightarrow> service_config \<Rightarrow> answers \<Rightarrow> ('car world, unit) prog" where
  "anchorReadyRequests P cfg ans w =
     (case batchProcessing (engine P) (maxStreamLimit cfg) (requests (w_db w)) of (tbl, batch) \<Rightarrow>
        anchor_batch P cfg ans batch ''unknown'' (w\<lparr>w_db := (w_db w)\<lparr>requests := tbl\<rparr>\<rparr>))"

text \<open>The abort signal is read twice, and the queue answers a receive, an ack and a nack.\<close>

record queue_answers =
  aborted_before :: bool
  aborted_after :: bool
  received :: "cas_error + anchor_batch_message option"
  ack_failure :: "cas_error option"
  nack_failure :: "cas_error option"

definition anchorNextQueuedBatch :: "('car, 'block) platform \<Rightarrow> service_config \<Rightarrow> answers \<Rightarrow> queue_answers
    \<Rightarrow> ('car world, bool) prog" where
  "anchorNextQueuedBatch P cfg ans q =
     (if aborted_before q
      then throwP (UserAborted ''User aborted before the next batch has been retrieved'')
      else if \<not> useQueueBatches cfg then throwP QueueNotConfigured
      else bindP (liftP (received q)) (\<lambda>batchMessage.
        case batchMessage of
          None \<Rightarrow> returnP False
        | Some m \<Rightarrow>
            catchP
              (bindP (\<lambda>w. liftP (findByIds (engine P) (rids m) (requests (w_db w))) w) (\<lambda>batch.
               bindP (if aborted_after q
                      then throwP (UserAborted ''User aborted before the batch could begin the anchoring process'')
                      else returnP ()) (\<lambda>_.
               bindP (anchor_batch P cfg ans batch (bid m)) (\<lambda>_.
               bindP (callP (ack_failure q) (\<lambda>w. w\<lparr>w_acked := w_acked w @ [bid m]\<rparr>)) (\<lambda>_.
               returnP True)))))
              (\<lambda>err.
               bindP (callP (nack_failure q) (\<lambda>w. w\<lparr>w_nacked := w_nacked w @ [bid m]\<rparr>)) (\<lambda>_.
               throwP err))))"

text \<open>\<open>findAndMarkReady\<close> and \<open>updateExpiringReadyRequests\<close> on the request table of the state.\<close>

definition on_requests :: "(cas_error + (request list \<times> 'r)) option \<Rightarrow> ('car world, 'r) prog" where
  "on_requests run w =
     (case run of
        None \<Rightarrow> None
      | Some (Inl e) \<Rightarrow> Some (Inl e, w)
      | Some (Inr (tbl, r)) \<Rightarrow> Some (Inr r, w\<lparr>w_db := (w_db w)\<lparr>requests := tbl\<rparr>\<rparr>))"

definition anchorRequests :: "('car, 'block) platform \<Rightarrow> service_config \<Rightarrow> answers \<Rightarrow> queue_answers
    \<Rightarrow> request list attempt list \<Rightarrow> ('car world, bool) prog" where
  "anchorRequests P cfg ans q tries w =
     (if useQueueBatches cfg then anchorNextQueuedBatch P cfg ans q w
      else bindP (if countByStatus READY (requests (w_db w)) = Some 0
                  then on_requests (findAndMarkReady (engine P) (maxAnchoringDelayMS cfg)
                         (maxStreamLimit cfg * 2) (Some (minStreamLimit cfg)) tries)
                  else returnP [])
            (\<lambda>_. bindP (anchorReadyRequests P cfg ans) (\<lambda>_. returnP True)) w)"

text \<open>\<open>n > 0\<close>, false for \<open>NaN\<close>\<close>

definition positive :: "int option \<Rightarrow> bool" where
  "positive n = (case n of None \<Rightarrow> False | Some i \<Rightarrow> 0 < i)"

definition emitAnchorEventIfReady :: "db_engine \<Rightarrow> service_config \<Rightarrow> cas_error option
    \<Rightarrow> request list attempt list \<Rightarrow> ('car world, unit) prog" where
  "emitAnchorEventIfReady e cfg emit_failure tries w =
     (let emit = catchP (callP emit_failure (\<lambda>w. w\<lparr>w_events := Suc (w_events w)\<rparr>)) (\<lambda>err. returnP ())
      in if positive (countByStatus READY (requests (w_db w)))
         then bindP (on_requests (updateExpiringReadyRequests e (readyRetryIntervalMS cfg) tries)) (\<lambda>updated.
              if updated = 0 then returnP () else emit) w
         else bindP (on_requests (findAndMarkReady e (maxAnchoringDelayMS cfg) (maxStreamLimit cfg)
                       (Some (minStreamLimit cfg)) tries)) (\<lambda>updatedRequests.
              if updatedRequests = [] then returnP () else emit) w)"

section \<open>A platform to evaluate examples with\<close>

text \<open>A tree library whose trees lean to the right: every inner node has a leaf on its left.\<close>

fun comb :: "('car, 'block) car_lib \<Rightarrow> cid list \<Rightarrow> 'car \<Rightarrow> cid \<times> 'car" where
  "comb l [] car = ([], car)"
| "comb l [c] car = (c, car)"
| "comb l (c # d # cs) car =
     (case comb l (d # cs) car of (r, car1) \<Rightarrow> car_put l (IList [ILink c, ILink r]) car1)"

definition comb_path :: "nat \<Rightarrow> nat \<Rightarrow> path_direction list" where
  "comb_path n i = replicate i R @ (if Suc i < n then [L] else [])"

definition comb_factory :: "('car, 'block) car_lib \<Rightarrow> nat \<Rightarrow> candidate list \<Rightarrow> 'car
    \<Rightarrow> cas_error + 'car merkle_car" where
  "comb_factory l depth cs car =
     (if cs = [] \<or> (0 < depth \<and> 2 ^ depth < length cs) then Inl (LibraryError ''number of leaves'')
      else case comb l (map cd_cid cs) car of (r, car1) \<Rightarrow>
        Inr \<lparr>mt_root = r, mt_leaves = cs, mt_path = comb_path (length cs), mt_car = car1\<rparr>)"

definition example_platform :: "(assoc_car, cid \<times> ipld) platform" where
  "example_platform = \<lparr>lib = assoc_lib, tree_factory = comb_factory assoc_lib, pathString = encode_path,
     stream_cid = (\<lambda>s. s), cid_create = (\<lambda>v c m d. ''tx''), id_parsers_of = example_ids,
     engine = stable_engine\<rparr>"

lemma comb_leads:
  assumes "lawful_car l" and "comb l cs car = (r, car')" and "i < length cs"
  shows "extends l car car' \<and> leads l car' (Some (ILink r)) (comb_path (length cs) i) (cs ! i)"
  using assms(2,3)
proof (induction cs arbitrary: r car' i)
  case (Cons c rest)
  show ?case
  proof (cases rest)
    case Nil
    with Cons.prems show ?thesis by (simp add: comb_path_def)
  next
    case (Cons d cs)
    obtain r1 car1 where below: "comb l (d # cs) car = (r1, car1)" by fastforce
    let ?node = "IList [ILink c, ILink r1]"
    have r: "r = fst (car_put l ?node car1)" "car' = snd (car_put l ?node car1)"
      using Cons.prems(1) below Cons by simp_all
    have node: "car_get l car' r = Inr (Some ?node)" and grown: "extends l car1 car'"
      unfolding r by (rule get_put_same [OF assms(1)], rule extends_put [OF assms(1)])
    have IH: "extends l car car1 \<and> leads l car1 (Some (ILink r1)) (comb_path (length (d # cs)) j) ((d # cs) ! j)"
      if "j < length (d # cs)" for j
      by (rule Cons.IH [unfolded Cons]) (use below that in simp_all)
    show ?thesis
    proof (cases i)
      case 0
      then show ?thesis
        using IH [of 0] extends_trans grown node Cons by (auto simp: comb_path_def leads_Cons list_get_def)
    next
      case (Suc j)
      then have j: "j < length (d # cs)" using Cons.prems(2) Cons by simp
      have path: "comb_path (length (c # rest)) i = R # comb_path (length (d # cs)) j"
        using Suc Cons by (simp add: comb_path_def)
      show ?thesis
        using IH [OF j] extends_trans [OF _ grown] leads_extends [OF grown] node Suc Cons
        unfolding path by (auto simp: leads_Cons list_get_def)
    qed
  qed
qed simp

lemma lawful_example: "lawful_tree example_platform" "lawful_car (lib example_platform)"
proof -
  have "mset (mt_leaves t) = mset cs \<and> (\<forall>i < length cs. leaf_ok assoc_lib t i)
      \<and> (\<forall>i < length cs. mt_path t i = [] \<longleftrightarrow> length cs = 1)"
    if "comb_factory assoc_lib depth cs car = Inr t" for depth cs car t
  proof -
    obtain r car1 where comb: "comb assoc_lib (map cd_cid cs) car = (r, car1)" by (metis surj_pair)
    with that have t: "t = \<lparr>mt_root = r, mt_leaves = cs, mt_path = comb_path (length cs), mt_car = car1\<rparr>"
      by (auto simp: comb_factory_def split: if_splits)
    have "leaf_ok assoc_lib t i" if "i < length cs" for i
      using comb_leads [OF lawful_assoc comb, of i] that
      by (simp add: leaf_ok_def t) (simp add: assoc_lib_def)
    moreover have "\<forall>i < length cs. comb_path (length cs) i = [] \<longleftrightarrow> length cs = 1"
      by (cases "length cs") (auto simp: comb_path_def)
    ultimately show ?thesis by (simp add: t)
  qed
  then show "lawful_tree example_platform" by (simp add: lawful_tree_def example_platform_def)
  show "lawful_car (lib example_platform)" by (simp add: example_platform_def lawful_assoc)
qed

definition example_config :: "bool \<Rightarrow> service_config" where
  "example_config queue = \<lparr>merkleDepthLimit = 3, useSmartContractAnchors = False, useQueueBatches = queue,
     maxStreamLimit = max_stream_limit 3, minStreamLimit = min_stream_limit None 3,
     maxAnchoringDelayMS = 100, readyRetryIntervalMS = 10, casUseIpfsStorage = False, casPubsubPublish = False\<rparr>"

definition example_answers :: answers where
  "example_answers = \<lparr>locks = [Refused, Granted],
     submit = (\<lambda>root. Inr \<lparr>chain = ''eip155:1'', txHash = ''0xab'', blockNumber = 5, blockTimestamp = 6\<rparr>),
     import_failure = None, record_failure = (\<lambda>c. None), publish_failure = (\<lambda>c. None),
     car_store_failure = None, witness_store_failure = (\<lambda>c. Some (LibraryError ''full'')),
     new_ids = (\<lambda>i. replicate (Suc i) CHR ''y''),
     persist_attempts = [\<lparr>att_db = example_db, att_now = 7, att_clock = 8, att_aborted = True\<rparr>,
       \<lparr>att_db = example_db, att_now = 9, att_clock = 10, att_aborted = False\<rparr>],
     revert_clock = 11\<rparr>"

definition example_world :: "assoc_car world" where
  "example_world = \<lparr>w_db = example_db, w_sent = [], w_imports = [], w_records = [], w_published = [],
     w_merkle_cars = [], w_witness_cars = [], w_summaries = [], w_acked = [], w_nacked = [], w_events = 0\<rparr>"

end
