(* ===== verification/Anchoring.thy ===== *)
theory Anchoring
  imports Anchor_Service
begin

text \<open>
  Properties of \<open>Anchor_Service\<close>: every anchor of a batch can be proved from the stored Merkle
  CAR, what a finished batch leaves in the database, what a failed one leaves, and how the
  queue message and the anchor event follow the outcome.
\<close>

section \<open>The commits of a batch\<close>

lemma createAnchorCommit_facts:
  assumes "createAnchorCommit P cfg ans p tree i c car w = (a, car', w')" and "lawful_car (lib P)"
  shows "requestId a = req_id (cd_request c)" and "proofCid a = p"
    and "car_get (lib P) car' (anchor_cid a)
      = Inr (Some (anchor_commit P p c (pathString P (mt_path tree i))))"
    and "extends (lib P) car car'" and "w' = publish_commit cfg ans (anchor_cid a) (cd_streamId c) w"
proof -
  let ?put = "car_put (lib P) (anchor_commit P p c (pathString P (mt_path tree i))) car"
  have "a = \<lparr>requestId = req_id (cd_request c), proofCid = p, path = pathString P (mt_path tree i),
      anchor_cid = fst ?put\<rparr>" "car' = snd ?put" "w' = publish_commit cfg ans (fst ?put) (cd_streamId c) w"
    using assms(1) by (auto simp: createAnchorCommit_def Let_def split: prod.splits)
  then show "requestId a = req_id (cd_request c)" "proofCid a = p"
    "car_get (lib P) car' (anchor_cid a) = Inr (Some (anchor_commit P p c (pathString P (mt_path tree i))))"
    "extends (lib P) car car'" "w' = publish_commit cfg ans (anchor_cid a) (cd_streamId c) w"
    using get_put_same [OF assms(2)] extends_put [OF assms(2)] by simp_all
qed

text \<open>Publishing a commit touches only what is stored in IPFS and published.\<close>

lemma publish_commit_keeps [simp]:
  "w_db (publish_commit cfg ans c sid w) = w_db w"
  "w_sent (publish_commit cfg ans c sid w) = w_sent w"
  "w_merkle_cars (publish_commit cfg ans c sid w) = w_merkle_cars w"
  "w_witness_cars (publish_commit cfg ans c sid w) = w_witness_cars w"
  "w_acked (publish_commit cfg ans c sid w) = w_acked w"
  "w_nacked (publish_commit cfg ans c sid w) = w_nacked w"
  by (simp_all add: publish_commit_def Let_def)

lemma create_commits_world:
  assumes "create_commits P cfg ans p tree i leaves car w = (created, car', w')"
    and "\<And>c sid u. view (publish_commit cfg ans c sid u) = view u"
  shows "view w' = view w"
  using assms(1)
proof (induction leaves arbitrary: i car w created)
  case (Cons leaf leaves)
  obtain a car1 w1 where one: "createAnchorCommit P cfg ans p tree i leaf car w = (a, car1, w1)"
    by (metis prod_cases3)
  obtain as where rest: "create_commits P cfg ans p tree (Suc i) leaves car1 w1 = (as, car', w')"
    using Cons.prems one by (auto split: prod.splits)
  have "view w1 = view w"
    using one assms(2) by (auto simp: createAnchorCommit_def Let_def split: prod.splits)
  with Cons.IH [OF rest] show ?case by simp
qed simp

lemma create_commits_facts:
  assumes "create_commits P cfg ans p tree i leaves car w = (created, car', w')" and "lawful_car (lib P)"
  shows "extends (lib P) car car' \<and> list_all2 (\<lambda>k_leaf a.
      requestId a = req_id (cd_request (snd k_leaf)) \<and> proofCid a = p
      \<and> car_get (lib P) car' (anchor_cid a)
        = Inr (Some (anchor_commit P p (snd k_leaf) (pathString P (mt_path tree (fst k_leaf))))))
      (zip [i..<i + length leaves] leaves) created"
  using assms(1)
proof (induction leaves arbitrary: i car w created)
  case Nil
  then show ?case by simp
next
  case (Cons leaf leaves)
  obtain a car1 w1 where one: "createAnchorCommit P cfg ans p tree i leaf car w = (a, car1, w1)"
    by (metis prod_cases3)
  obtain as where rest: "create_commits P cfg ans p tree (Suc i) leaves car1 w1 = (as, car', w')"
    and created: "created = a # as"
    using Cons.prems one by (auto split: prod.splits)
  note first = createAnchorCommit_facts [OF one assms(2)]
  note later = Cons.IH [OF rest]
  have "extends (lib P) car car'"
    using extends_trans [OF first(4)] later by blast
  moreover have "car_get (lib P) car' (anchor_cid a)
      = Inr (Some (anchor_commit P p leaf (pathString P (mt_path tree i))))"
    using extends_get [OF _ first(3)] later by blast
  moreover have "[i..<i + length (leaf # leaves)] = i # [Suc i..<Suc i + length leaves]"
    by (subst upt_conv_Cons) simp_all
  ultimately show ?case
    using first(1,2) later by (simp add: created)
qed

lemma tree_of_candidates:
  assumes "lawful_tree P" and "lawful_car (lib P)" and "buildMerkleTree P cfg cs = Inr t"
  shows "mset (mt_leaves t) = mset cs" and "i < length cs \<Longrightarrow> leaf_ok (lib P) t i"
    and "i < length cs \<Longrightarrow> mt_path t i = [] \<longleftrightarrow> length cs = 1"
proof -
  obtain t0 where t0: "tree_factory P (merkleDepthLimit cfg) cs (car_empty (lib P)) = Inr t0"
    and t: "t = t0\<lparr>mt_car := push_root (lib P) (mt_root t0) (mt_car t0)\<rparr>"
    using assms(3) by (auto simp: buildMerkleTree_def merkle_car_build_def err_simps split: sum.splits)
  note law = assms(1) [unfolded lawful_tree_def, THEN conjunct1, rule_format, OF t0]
  show "mset (mt_leaves t) = mset cs" using law t by simp
  show "i < length cs \<Longrightarrow> mt_path t i = [] \<longleftrightarrow> length cs = 1" using law t by simp
  assume "i < length cs"
  then have "leaf_ok (lib P) t0 i" using law by blast
  then show "leaf_ok (lib P) t i"
    unfolding leaf_ok_def t
    using leads_extends [OF extends_root [OF assms(2)]] extends_root [OF assms(2), of "mt_car t0" "mt_root t0"]
    by (auto simp: extends_def)
qed

text \<open>
  With at least two candidates, the proof and the commits written into
  the Merkle CAR prove every anchor: the \<open>i\<close>-th anchor belongs to the \<open>i\<close>-th leaf's request, its
  commit points to the leaf's CID and to the proof, and a witness built from the CAR verifies.
\<close>

lemma commits_provable:
  assumes "lawful_car (lib P)" and "lawful_tree P" and "buildMerkleTree P cfg cs = Inr t"
    and "length cs \<noteq> 1" and "createIPFSProof P cfg (mt_car t) tx (mt_root t) = (p, car1)"
    and "createAnchorCommits P cfg ans p t car1 w = (created, car, w')" and "i < length cs"
  shows "length created = length cs \<and> requestId (created ! i) = req_id (cd_request (mt_leaves t ! i))
    \<and> proves_anchor (lib P) car (anchor_cid (created ! i)) (cd_cid (mt_leaves t ! i)) p (mt_root t) (mt_path t i)
    \<and> (\<exists>witness. build_witness (lib P) (anchor_cid (created ! i)) car = Inr witness
         \<and> verify (lib P) witness = Inr (anchor_cid (created ! i)))"
proof -
  have len: "length (mt_leaves t) = length cs"
    using tree_of_candidates(1) [OF assms(2,1,3)] by (rule mset_eq_length)
  have ext: "extends (lib P) car1 car"
    and all: "list_all2 (\<lambda>k_leaf a. requestId a = req_id (cd_request (snd k_leaf)) \<and> proofCid a = p
      \<and> car_get (lib P) car (anchor_cid a)
        = Inr (Some (anchor_commit P p (snd k_leaf) (pathString P (mt_path t (fst k_leaf))))))
      (zip [0..<length (mt_leaves t)] (mt_leaves t)) created"
    using create_commits_facts [OF assms(6) [unfolded createAnchorCommits_def] assms(1)] by auto
  have created: "length created = length cs"
    using list_all2_lengthD [OF all] len by simp
  have here: "requestId (created ! i) = req_id (cd_request (mt_leaves t ! i))"
    "car_get (lib P) car (anchor_cid (created ! i))
      = Inr (Some (anchor_commit P p (mt_leaves t ! i) (encode_path (mt_path t i))))"
    using list_all2_nthD2 [OF all, of i] assms(2,7) created len by (auto simp: lawful_tree_def)
  have put: "p = fst (car_put (lib P) (proof_record P cfg tx (mt_root t)) (mt_car t))"
    "car1 = snd (car_put (lib P) (proof_record P cfg tx (mt_root t)) (mt_car t))"
    using assms(5) by (simp_all add: createIPFSProof_def prod_eq_iff)
  have proof_here: "car_get (lib P) car p = Inr (Some (proof_record P cfg tx (mt_root t)))"
    using extends_get [OF ext] get_put_same [OF assms(1)] put by simp
  have grown: "extends (lib P) (mt_car t) car"
    using extends_trans [OF extends_put [OF assms(1)]] ext put(2) by simp
  have leaf: "leads (lib P) car (Some (ILink (mt_root t))) (mt_path t i) (cd_cid (mt_leaves t ! i))"
    "\<exists>x. car_get (lib P) car (cd_cid (mt_leaves t ! i)) = Inr x"
    using tree_of_candidates(2) [OF assms(2,1,3,7)] leads_extends [OF grown] grown
    by (auto simp: leaf_ok_def extends_def)
  have "mt_path t i \<noteq> []"
    using tree_of_candidates(3) [OF assms(2,1,3,7)] assms(4) by simp
  then have proves: "proves_anchor (lib P) car (anchor_cid (created ! i)) (cd_cid (mt_leaves t ! i)) p
      (mt_root t) (mt_path t i)"
    using here(2) proof_here leaf(1)
    by (simp add: proves_anchor_def anchor_commit_def proof_record_def)
  with leaf(2) obtain witness where "build_witness (lib P) (anchor_cid (created ! i)) car = Inr witness"
    "verify (lib P) witness = Inr (anchor_cid (created ! i))"
    using built_witness [OF assms(1) proves] by blast
  with created here(1) proves show ?thesis by blast
qed

section \<open>Storing witnesses and persisting\<close>

lemma storeWitnessCARs_keeps:
  assumes "\<And>c car w. view (put_witness_car c car w) = view w"
  shows "keepsP view (storeWitnessCARs P ans created car)"
proof (induction created)
  case Nil
  show ?case unfolding storeWitnessCARs.simps by (rule keepsP_basic)
next
  case (Cons a as)
  have "keepsP view (catchP (callP f (put_witness_car c x)) (\<lambda>e. returnP ()))" for f c x
    using assms by (auto simp: keepsP_def catchP_def callP_def split: option.splits)
  with Cons show ?case
    unfolding storeWitnessCARs.simps by (intro keepsP_bind keepsP_basic(3))
qed

lemma storeWitnessCARs_Inr:
  "storeWitnessCARs P ans created car w = Some (Inr u, w') \<Longrightarrow> a \<in> set created
    \<Longrightarrow> \<exists>x. build_witness (lib P) (anchor_cid a) car = Inr x"
  by (induction created arbitrary: w) (auto simp: err_simps)

lemma storeWitnessCARs_total:
  "(\<And>a. a \<in> set created \<Longrightarrow> \<exists>x. build_witness (lib P) (anchor_cid a) car = Inr x)
    \<Longrightarrow> \<exists>w'. storeWitnessCARs P ans created car w = Some (Inr (), w')"
proof (induction created arbitrary: w)
  case (Cons a as)
  then obtain x where "build_witness (lib P) (anchor_cid a) car = Inr x" by auto
  with Cons show ?case
    by (cases "witness_store_failure ans (anchor_cid a)") (simp_all add: bindP_def catchP_def callP_def)
qed simp

interpretation persist: retried_transaction "persist_txn ids created accepted" for ids created accepted
proof
  fix a :: "database attempt"
  have "insert_anchors i now known fs tbl \<noteq> Inl SerializationFailure" for i now known fs tbl
    by (induction fs arbitrary: i tbl) (auto simp: err_simps)
  then show "persist_txn ids created accepted a = Inl SerializationFailure \<longleftrightarrow> att_aborted a"
    by (auto simp: persist_txn_def repeatable_read_def createAnchors_def err_simps split: if_splits)
qed

lemma updateRequests_completed:
  "req_id r \<in> set (map req_id rs) \<Longrightarrow> r \<in> set (fst (updateRequests completed_fields rs now tbl))
    \<Longrightarrow> status r = COMPLETED \<and> pinned r"
  by (auto simp: updateRequests_def Let_def completed_fields_def apply_fields_def)

text \<open>What a committed persist transaction did to the database it ran on.\<close>

lemma persist_txn_live:
  assumes "persist_txn ids created accepted a = Inr (db', n)" and "database_wf (att_db a)"
  shows "\<not> att_aborted a \<and> database_wf db'
    \<and> requestId ` set (anchors db') = requestId ` set (anchors (att_db a)) \<union> requestId ` set created
    \<and> (\<exists>added. anchors db' = anchors (att_db a) @ added
         \<and> (\<forall>x\<in>set added. \<exists>f\<in>set created. requestId x = requestId f \<and> proofCid x = proofCid f
              \<and> path x = path f \<and> anchor_cid x = anchor_cid f))
    \<and> requests db' = fst (updateRequests completed_fields accepted (att_clock a) (requests (att_db a)))"
proof -
  have live: "\<not> att_aborted a" using assms(1) by (auto simp: persist_txn_def repeatable_read_def)
  obtain db where db: "(if 0 < length created then createAnchors ids (att_clock a) created (att_db a)
      else Inr (att_db a, Some 0)) = Inr (db, n)"
    and db': "db' = db\<lparr>requests := fst (updateRequests completed_fields accepted (att_clock a) (requests db))\<rparr>"
    using assms(1) live by (auto simp: persist_txn_def repeatable_read_def err_simps)
  have "database_wf db \<and> requests db = requests (att_db a)
      \<and> requestId ` set (anchors db) = requestId ` set (anchors (att_db a)) \<union> requestId ` set created
      \<and> (\<exists>added. anchors db = anchors (att_db a) @ added
         \<and> (\<forall>x\<in>set added. \<exists>f\<in>set created. requestId x = requestId f \<and> proofCid x = proofCid f
              \<and> path x = path f \<and> anchor_cid x = anchor_cid f))"
  proof (cases "created = []")
    case True
    with db assms(2) show ?thesis by simp
  next
    case False
    with db have made: "createAnchors ids (att_clock a) created (att_db a) = Inr (db, n)" by simp
    show ?thesis
      by (rule createAnchors_rows [OF assms(2) made]) auto
  qed
  moreover have "req_id ` set (fst (updateRequests completed_fields accepted (att_clock a) (requests db)))
      = req_id ` set (requests db)"
    using upd.keeps_ids [of completed_fields accepted "att_clock a" "requests db"] by (metis image_set)
  then have "database_wf db \<Longrightarrow> database_wf db'"
    unfolding db' by (simp add: database_wf_def upd.keeps_wf)
  ultimately show ?thesis using live by (simp add: db')
qed

section \<open>A batch of candidates\<close>

text \<open>The steps of a successful batch, once the transaction is in.\<close>

lemma anchor_tree_success:
  assumes "anchor_tree P cfg ans cs t tx w0 = Some (Inr res, w')"
  obtains p car1 created car w1 a n where
    "createIPFSProof P cfg (mt_car t) tx (mt_root t) = (p, car1)"
    "createAnchorCommits P cfg ans p t car1 w0 = (created, car, w1)"
    "\<forall>x\<in>set created. \<exists>witness. build_witness (lib P) (anchor_cid x) car = Inr witness"
    "a \<in> set (persist_attempts ans)" "persist_txn (new_ids ans) created (map cd_request cs) a = Inr (w_db w', n)"
    "w_merkle_cars w' = (p, car) # w_merkle_cars w0" "w_sent w' = w_sent w0"
proof -
  obtain p car1 where p: "createIPFSProof P cfg (mt_car t) tx (mt_root t) = (p, car1)" by fastforce
  obtain created car w1 where c: "createAnchorCommits P cfg ans p t car1 w0 = (created, car, w1)"
    by (metis prod_cases3)
  obtain w2 w3 w4 n where steps:
    "(if casUseIpfsStorage cfg then callP (import_failure ans) (\<lambda>w. w\<lparr>w_imports := w_imports w @ [car]\<rparr>)
        else returnP ()) w1 = Some (Inr (), w2)"
    "w3 = put_merkle_car p car w2" "storeWitnessCARs P ans created car w3 = Some (Inr (), w4)"
    "persistAnchorResult ans created cs w4 = Some (Inr n, w')"
    using assms by (auto simp: anchor_tree_def store_results_def p c err_simps)
  have w1: "w_merkle_cars w1 = w_merkle_cars w0" "w_sent w1 = w_sent w0"
    by (rule create_commits_world [OF c [unfolded createAnchorCommits_def]]; simp)+
  have w2: "w_merkle_cars w2 = w_merkle_cars w1" "w_sent w2 = w_sent w1"
    using steps(1) by (auto simp: err_simps split: if_splits)
  have w4: "w_merkle_cars w4 = w_merkle_cars w3" "w_sent w4 = w_sent w3"
    by (rule keepsPD [OF storeWitnessCARs_keeps steps(3)]; simp add: put_witness_car_def)+
  obtain db where db: "retrying (persist_txn (new_ids ans) created (map cd_request cs)) (persist_attempts ans)
      = Some (Inr (db, n))" "w' = w4\<lparr>w_db := db\<rparr>"
    using steps(4) by (auto simp: persistAnchorResult_def split: option.splits sum.splits)
  obtain a where "a \<in> set (persist_attempts ans)"
    "persist_txn (new_ids ans) created (map cd_request cs) a = Inr (db, n)"
    using persist.retry_Some_cases [OF db(1)] by metis
  then show ?thesis
    using that [OF p c] storeWitnessCARs_Inr [OF steps(3)] w1 w2 w4 steps(2) db(2)
    by (simp add: put_merkle_car_def)
qed

lemma single_leaf_commit:
  assumes "lawful_car (lib P)" and "lawful_tree P" and "buildMerkleTree P cfg cs = Inr t"
    and "length cs = 1" and "createIPFSProof P cfg (mt_car t) tx (mt_root t) = (p, car1)"
    and "createAnchorCommits P cfg ans p t car1 w = (created, car, w')"
  shows "\<exists>a root_record. created = [a] \<and> car_get (lib P) car (mt_root t) = Inr root_record
    \<and> build_witness (lib P) (anchor_cid a) car
      = (if root_record = None then Inl (raiseNoBlockError (Some (ILink (mt_root t))) ''Merkle root'')
         else Inl InvalidPathLine)"
proof -
  have "length (mt_leaves t) = 1"
    using tree_of_candidates(1) [OF assms(2,1,3)] assms(4) by (metis mset_eq_length)
  then obtain leaf where leaf: "mt_leaves t = [leaf]" by (cases "mt_leaves t") auto
  have no_path: "mt_path t 0 = []" using tree_of_candidates(3) [OF assms(2,1,3), of 0] assms(4) by simp
  have ok: "leaf_ok (lib P) t 0" using tree_of_candidates(2) [OF assms(2,1,3), of 0] assms(4) by simp
  obtain a where one: "createAnchorCommit P cfg ans p t 0 leaf car1 w = (a, car, w')" and created: "created = [a]"
    using assms(6) leaf by (auto simp: createAnchorCommits_def split: prod.splits)
  note facts = createAnchorCommit_facts [OF one assms(1)]
  have put: "p = fst (car_put (lib P) (proof_record P cfg tx (mt_root t)) (mt_car t))"
    "car1 = snd (car_put (lib P) (proof_record P cfg tx (mt_root t)) (mt_car t))"
    using assms(5) by (simp_all add: createIPFSProof_def prod_eq_iff)
  have commit: "car_get (lib P) car (anchor_cid a) = Inr (Some (anchor_commit P p leaf []))"
    using facts(3) no_path assms(2) by (simp add: lawful_tree_def encode_path_def)
  have proof_here: "car_get (lib P) car p = Inr (Some (proof_record P cfg tx (mt_root t)))"
    using extends_get [OF facts(4)] get_put_same [OF assms(1)] put by simp
  have "extends (lib P) (mt_car t) car"
    using extends_trans [OF extends_put [OF assms(1)]] facts(4) put(2) by simp
  then obtain r where r: "car_get (lib P) car (mt_root t) = Inr r"
    using ok no_path by (auto simp: leaf_ok_def extends_def)
  obtain b1 b2 where blocks: "block_get (lib P) car (anchor_cid a) = Some b1" "block_get (lib P) car p = Some b2"
    using has_block [OF assms(1) commit] has_block [OF assms(1) proof_here] by metis
  have "block_get (lib P) car (mt_root t) = None \<longleftrightarrow> r = None"
    using r by (auto simp: car_get_block [OF assms(1)] split: option.splits sum.splits)
  then show ?thesis
    using created r commit proof_here blocks
    by (cases r) (auto simp: build_witness_def copyBlock_def anchor_commit_def proof_record_def decode_empty)
qed

text \<open>A batch that fails, at any step, has not changed the database.\<close>

lemma anchor_tree_failure:
  assumes "anchor_tree P cfg ans cs t tx w0 = Some (Inl e, w')"
  shows "w_db w' = w_db w0 \<and> w_sent w' = w_sent w0"
proof -
  obtain p car1 where p: "createIPFSProof P cfg (mt_car t) tx (mt_root t) = (p, car1)" by fastforce
  obtain created car w1 where c: "createAnchorCommits P cfg ans p t car1 w0 = (created, car, w1)"
    by (metis prod_cases3)
  have w1: "w_db w1 = w_db w0" "w_sent w1 = w_sent w0"
    by (rule create_commits_world [OF c [unfolded createAnchorCommits_def]]; simp)+
  have stored: "w_db v = w_db u \<and> w_sent v = w_sent u"
    if "storeWitnessCARs P ans created car u = Some (r, v)" for u r v
    using keepsPD [OF storeWitnessCARs_keeps that, of w_db] keepsPD [OF storeWitnessCARs_keeps that, of w_sent]
    by (simp add: put_witness_car_def)
  have persisted: "v = u" if "persistAnchorResult ans created cs u = Some (Inl e, v)" for u v
    using that by (auto simp: persistAnchorResult_def split: option.splits sum.splits)
  show ?thesis
    using assms w1 unfolding anchor_tree_def store_results_def p c prod.case
    by (auto simp: err_simps put_merkle_car_def split: if_splits dest!: stored persisted)
qed

lemma anchorCandidates_failure:
  assumes "anchorCandidates P cfg ans cs w = Some (Inl e, w')"
  shows "w_db w' = w_db w"
proof -
  have sent: "w_db v = w_db u"
    if "withTransactionMutex (send_root ans root) None (locks ans) u = Some (r, v)" for root u r v
    by (rule keepsPD [OF keepsP_mutex that]) (simp add: send_root_def)
  show ?thesis
    using assms unfolding anchorCandidates_def
    by (auto simp: err_simps dest!: anchor_tree_failure sent)
qed

lemma anchorCandidates_persisted:
  assumes "lawful_car (lib P)" and "lawful_tree P" and "anchorCandidates P cfg ans cs w = Some (Inr res, w')"
  obtains created a n where "a \<in> set (persist_attempts ans)"
    "persist_txn (new_ids ans) created (map cd_request cs) a = Inr (w_db w', n)"
    "requestId ` set created = req_id ` cd_request ` set cs"
proof -
  obtain t tx w0 where t: "buildMerkleTree P cfg cs = Inr t"
    and run: "anchor_tree P cfg ans cs t tx w0 = Some (Inr res, w')"
    using assms(3) by (auto simp: anchorCandidates_def err_simps)
  obtain p car1 created car w1 a n where made:
    "createAnchorCommits P cfg ans p t car1 w0 = (created, car, w1)"
    "a \<in> set (persist_attempts ans)" "persist_txn (new_ids ans) created (map cd_request cs) a = Inr (w_db w', n)"
    by (rule anchor_tree_success [OF run])
  have "list_all2 (\<lambda>k_leaf a. requestId a = req_id (cd_request (snd k_leaf)))
      (zip [0..<length (mt_leaves t)] (mt_leaves t)) created"
    using create_commits_facts [OF made(1) [unfolded createAnchorCommits_def] assms(1)]
    by (auto elim: list_all2_mono)
  then have "map requestId created = map (req_id \<circ> cd_request) (mt_leaves t)"
    by (auto simp: list_all2_conv_all_nth intro: nth_equalityI)
  then have "requestId ` set created = req_id ` cd_request ` set (mt_leaves t)"
    by (metis image_comp list.set_map)
  also have "set (mt_leaves t) = set cs"
    using tree_of_candidates(1) [OF assms(2,1) t] by (rule mset_eq_setD)
  finally show ?thesis using that made(2,3) by blast
qed

text \<open>
  C3 (_anchorCandidates): when anchoring a batch succeeds, one root was sent to the blockchain, the
  Merkle CAR stored under the proof's CID proves, for every candidate, a commit on the candidate's
  CID whose witness can be built and verified, and the database, which started from one of the
  transaction's tries, is well-formed and has an anchor for every candidate's request, whose
  rows are \<open>COMPLETED\<close> and pinned; the anchors added are those made for this batch.
\<close>

theorem anchorCandidates_success:
  assumes "lawful_car (lib P)" and "lawful_tree P" and "anchorCandidates P cfg ans cs w = Some (Inr res, w')"
    and "\<forall>a\<in>set (persist_attempts ans). database_wf (att_db a)"
  shows "\<exists>root p car (created :: fresh_anchor list). w_sent w' = w_sent w @ [root] \<and> w_merkle_cars w' = (p, car) # w_merkle_cars w
    \<and> (\<forall>c\<in>set cs. \<exists>x\<in>set created. requestId x = req_id (cd_request c)
         \<and> (\<exists>line. proves_anchor (lib P) car (anchor_cid x) (cd_cid c) p root line)
         \<and> (\<exists>witness. build_witness (lib P) (anchor_cid x) car = Inr witness
              \<and> verify (lib P) witness = Inr (anchor_cid x)))
    \<and> database_wf (w_db w')
    \<and> (\<forall>c\<in>set cs. \<exists>x\<in>set (anchors (w_db w')). requestId x = req_id (cd_request c))
    \<and> (\<forall>r\<in>set (requests (w_db w')). req_id r \<in> req_id ` cd_request ` set cs \<longrightarrow> status r = COMPLETED \<and> pinned r)
    \<and> (\<exists>a\<in>set (persist_attempts ans). \<exists>added. anchors (w_db w') = anchors (att_db a) @ added
         \<and> (\<forall>x\<in>set added. \<exists>f\<in>set created. requestId x = requestId f \<and> anchor_cid x = anchor_cid f))"
proof -
  obtain t tx w0 where t: "buildMerkleTree P cfg cs = Inr t"
    and sent: "withTransactionMutex (send_root ans (mt_root t)) None (locks ans) w = Some (Inr tx, w0)"
    and run: "anchor_tree P cfg ans cs t tx w0 = Some (Inr res, w')"
    using assms(3) by (auto simp: anchorCandidates_def err_simps)
  have w0: "w_sent w0 = w_sent w @ [mt_root t]" "w_merkle_cars w0 = w_merkle_cars w"
    using sent by (auto simp: withTransactionMutex_def send_root_def split: option.splits sum.splits)
  obtain p car1 created car w1 a n where made:
    "createIPFSProof P cfg (mt_car t) tx (mt_root t) = (p, car1)"
    "createAnchorCommits P cfg ans p t car1 w0 = (created, car, w1)"
    "\<forall>x\<in>set created. \<exists>witness. build_witness (lib P) (anchor_cid x) car = Inr witness"
    "a \<in> set (persist_attempts ans)" "persist_txn (new_ids ans) created (map cd_request cs) a = Inr (w_db w', n)"
    "w_merkle_cars w' = (p, car) # w_merkle_cars w0" "w_sent w' = w_sent w0"
    by (rule anchor_tree_success [OF run])
  have not_single: "length cs \<noteq> 1"
    using single_leaf_commit [OF assms(1,2) t _ made(1,2)] made(3) by (auto split: if_splits)
  have leaves: "set (mt_leaves t) = set cs" "length (mt_leaves t) = length cs"
    using tree_of_candidates(1) [OF assms(2,1) t] by (auto dest: mset_eq_setD mset_eq_length)
  have per_leaf: "\<exists>x\<in>set created. requestId x = req_id (cd_request c)
         \<and> (\<exists>line. proves_anchor (lib P) car (anchor_cid x) (cd_cid c) p (mt_root t) line)
         \<and> (\<exists>witness. build_witness (lib P) (anchor_cid x) car = Inr witness
              \<and> verify (lib P) witness = Inr (anchor_cid x))" if "c \<in> set cs" for c
  proof -
    have "c \<in> set (mt_leaves t)" using that leaves(1) by simp
    then obtain i where "i < length (mt_leaves t)" "mt_leaves t ! i = c"
      unfolding in_set_conv_nth by blast
    with leaves(2) have i: "i < length cs" "mt_leaves t ! i = c" by simp_all
    note provable = commits_provable [OF assms(1,2) t not_single made(1,2) i(1), unfolded i(2)]
    have "created ! i \<in> set created" using provable i(1) by simp
    with provable show ?thesis by blast
  qed
  have live: "database_wf (att_db a)" using assms(4) made(4) by blast
  note db = persist_txn_live [OF made(5) live]
  have anchored: "\<exists>x\<in>set (anchors (w_db w')). requestId x = req_id (cd_request c)" if "c \<in> set cs" for c
  proof -
    have "req_id (cd_request c) \<in> requestId ` set created" using per_leaf [OF that] by force
    then have "req_id (cd_request c) \<in> requestId ` set (anchors (w_db w'))" using db by blast
    then show ?thesis by force
  qed
  have completed: "status r = COMPLETED \<and> pinned r"
    if "r \<in> set (requests (w_db w'))" "req_id r \<in> req_id ` cd_request ` set cs" for r
    using updateRequests_completed [of r "map cd_request cs"] that db by (auto simp: image_image)
  obtain added where added: "anchors (w_db w') = anchors (att_db a) @ added"
    "\<forall>x\<in>set added. \<exists>f\<in>set created. requestId x = requestId f \<and> proofCid x = proofCid f
      \<and> path x = path f \<and> anchor_cid x = anchor_cid f"
    using db by (elim conjE exE)
  have from_try: "\<exists>a\<in>set (persist_attempts ans). \<exists>added. anchors (w_db w') = anchors (att_db a) @ added
      \<and> (\<forall>x\<in>set added. \<exists>f\<in>set created. requestId x = requestId f \<and> anchor_cid x = anchor_cid f)"
    by (rule bexI [OF _ made(4)], rule exI [of _ added], rule conjI [OF added(1)])
      (use added(2) in fast)
  show ?thesis
  proof (rule exI [of _ "mt_root t"], rule exI [of _ p], rule exI [of _ car], rule exI [of _ created],
      intro conjI)
    show "w_sent w' = w_sent w @ [mt_root t]" "w_merkle_cars w' = (p, car) # w_merkle_cars w"
      using made(6,7) w0 by simp_all
    show "database_wf (w_db w')" using db by blast
  qed (rule from_try | rule ballI, erule per_leaf | rule ballI, erule anchored
      | intro ballI impI, rule completed, assumption+)+
qed

definition completes :: "('s, 'a) prog \<Rightarrow> 's \<Rightarrow> bool" where
  "completes m s = (case m s of Some (Inr x, t) \<Rightarrow> True | _ \<Rightarrow> False)"

definition fails :: "('s, 'a) prog \<Rightarrow> 's \<Rightarrow> bool" where
  "fails m s = (case m s of Some (Inl e, t) \<Rightarrow> True | _ \<Rightarrow> False)"

lemma completesE: "completes m s \<Longrightarrow> (\<And>x t. m s = Some (Inr x, t) \<Longrightarrow> thesis) \<Longrightarrow> thesis"
  by (auto simp: completes_def split: option.splits sum.splits)

lemma failsE: "fails m s \<Longrightarrow> (\<And>e t. m s = Some (Inl e, t) \<Longrightarrow> thesis) \<Longrightarrow> thesis"
  by (auto simp: fails_def split: option.splits sum.splits)

lemma example_completes:
  "completes (anchorCandidates example_platform (example_config False) example_answers example_candidates)
     example_world"
  by code_simp

lemma example_attempts_wf: "\<forall>a\<in>set (persist_attempts example_answers). database_wf (att_db a)"
  by code_simp

theorem anchorCandidates_success_witness:
  "\<exists>res w'. anchorCandidates example_platform (example_config False) example_answers example_candidates
      example_world = Some (Inr res, w')
    \<and> (\<exists>root p car (created :: fresh_anchor list). w_sent w' = w_sent example_world @ [root]
    \<and> w_merkle_cars w' = (p, car) # w_merkle_cars example_world
    \<and> (\<forall>c\<in>set example_candidates. \<exists>x\<in>set created. requestId x = req_id (cd_request c)
         \<and> (\<exists>line. proves_anchor (lib example_platform) car (anchor_cid x) (cd_cid c) p root line)
         \<and> (\<exists>witness. build_witness (lib example_platform) (anchor_cid x) car = Inr witness
              \<and> verify (lib example_platform) witness = Inr (anchor_cid x)))
    \<and> database_wf (w_db w')
    \<and> (\<forall>c\<in>set example_candidates. \<exists>x\<in>set (anchors (w_db w')). requestId x = req_id (cd_request c))
    \<and> (\<forall>r\<in>set (requests (w_db w')). req_id r \<in> req_id ` cd_request ` set example_candidates
          \<longrightarrow> status r = COMPLETED \<and> pinned r)
    \<and> (\<exists>a\<in>set (persist_attempts example_answers). \<exists>added. anchors (w_db w') = anchors (att_db a) @ added
         \<and> (\<forall>x\<in>set added. \<exists>f\<in>set created. requestId x = requestId f \<and> anchor_cid x = anchor_cid f)))"
proof (rule completesE [OF example_completes])
  fix res w'
  assume run: "anchorCandidates example_platform (example_config False) example_answers example_candidates
      example_world = Some (Inr res, w')"
  show ?thesis
    by (rule exI [of _ res], rule exI [of _ w'], rule conjI, rule run,
        rule anchorCandidates_success [OF lawful_example(2,1) run example_attempts_wf])
qed

text \<open>
  C16 (_anchorCandidates): a batch with a single candidate always fails after its root has been sent
  to the blockchain: the path of the only leaf is empty, so no witness can be built, and the
  database is left as it was.
\<close>

theorem anchorCandidates_single_fails:
  assumes "lawful_car (lib P)" and "lawful_tree P" and "buildMerkleTree P cfg [c] = Inr t"
    and "locks ans = replicate n Refused @ Granted # later" and "submit ans (mt_root t) = Inr tx"
  shows "\<exists>e w'. anchorCandidates P cfg ans [c] w = Some (Inl e, w')
    \<and> w_sent w' = w_sent w @ [mt_root t] \<and> w_db w' = w_db w"
proof -
  define w0 where "w0 = w\<lparr>w_sent := w_sent w @ [mt_root t]\<rparr>"
  have granted: "acquire None 1 (replicate n Refused @ Granted # later) = Some (Inr (1 + n))"
    by (subst acquire_after_refusals) (simp_all add: acquire.simps attempts_left_def)
  have sent: "withTransactionMutex (send_root ans (mt_root t)) None (locks ans) w = Some (Inr tx, w0)"
    by (simp add: withTransactionMutex_def assms(4,5) granted [simplified] send_root_def w0_def)
  obtain p car1 where p: "createIPFSProof P cfg (mt_car t) tx (mt_root t) = (p, car1)" by fastforce
  obtain created car w1 where made: "createAnchorCommits P cfg ans p t car1 w0 = (created, car, w1)"
    by (metis prod_cases3)
  obtain a e where a: "created = [a]" "build_witness (lib P) (anchor_cid a) car = Inl e"
    using single_leaf_commit [OF assms(1-3) _ p made] by (auto split: if_splits)
  then have "\<exists>e w'. anchor_tree P cfg ans [c] t tx w0 = Some (Inl e, w')"
    unfolding anchor_tree_def store_results_def p made prod.case
    by (cases "import_failure ans"; cases "car_store_failure ans") (auto simp: bindP_def callP_def)
  then obtain e' w' where run: "anchor_tree P cfg ans [c] t tx w0 = Some (Inl e', w')" by blast
  then have "anchorCandidates P cfg ans [c] w = Some (Inl e', w')"
    using assms(3) sent by (simp add: anchorCandidates_def bindP_def)
  then show ?thesis
    using anchor_tree_failure [OF run] by (simp add: w0_def)
qed

definition example_tree :: "assoc_car merkle_car" where
  "example_tree = \<lparr>mt_root = ''c2'', mt_leaves = [example_candidate ''2'' PROCESSING False],
     mt_path = comb_path 1, mt_car = ([], [''c2''])\<rparr>"

theorem anchorCandidates_single_fails_witness:
  "\<exists>e w'. anchorCandidates example_platform (example_config False) example_answers
      [example_candidate ''2'' PROCESSING False] example_world = Some (Inl e, w')
    \<and> w_sent w' = w_sent example_world @ [mt_root example_tree] \<and> w_db w' = w_db example_world"
proof (rule anchorCandidates_single_fails [OF lawful_example(2,1), where n = 1 and later = "[]"])
  show "buildMerkleTree example_platform (example_config False) [example_candidate ''2'' PROCESSING False]
      = Inr example_tree"
    by (simp add: buildMerkleTree_def merkle_car_build_def example_platform_def comb_factory_def
        example_config_def example_tree_def assoc_lib_def example_candidate_def)
  show "locks example_answers = replicate 1 Refused @ Granted # []" by (simp add: example_answers_def)
  show "submit example_answers (mt_root example_tree)
      = Inr \<lparr>chain = ''eip155:1'', txHash = ''0xab'', blockNumber = 5, blockTimestamp = 6\<rparr>"
    by (simp add: example_answers_def)
qed

section \<open>Failed batches, the queue and the anchor event\<close>

lemma findCandidates_requests:
  assumes "findCandidates ids e rs lim tbl = Inr (cs, g)"
  shows "set (map cd_request cs) = set rs"
  using findCandidates_rows(1) [OF assms] by (rule mset_eq_setD)

lemma revert_rows:
  "requests (w_db (revert_to_pending ans cs w)) = map (\<lambda>r. if req_id r \<in> req_id ` cd_request ` set cs
      then r\<lparr>status := PENDING, updatedAt := revert_clock ans\<rparr> else r) (requests (w_db w))"
  by (simp add: revert_to_pending_def updateRequests_def Let_def image_image)

text \<open>All that a batch can do to the database.\<close>

lemma anchor_batch_database:
  assumes "anchor_batch P cfg ans batch b w = Some (r, w')"
  obtains "w_db w' = w_db w" | cs where "w_db w' = w_db (revert_to_pending ans cs w)"
  | cs g res u where "findCandidates (id_parsers_of P) (engine P) (filter (\<lambda>r. status r \<noteq> REPLACED) batch)
      (maxStreamLimit cfg) (anchors (w_db w)) = Inr (cs, g)" "anchorCandidates P cfg ans cs w = Some (Inr res, u)"
      "w_db w' = w_db u" "w_merkle_cars w' = w_merkle_cars u"
proof (cases "filter (\<lambda>r. status r \<noteq> REPLACED) batch = []")
  case True
  then show ?thesis using assms that(1) by (simp add: anchor_batch_def)
next
  case live: False
  show ?thesis
  proof (cases "findCandidates (id_parsers_of P) (engine P) (filter (\<lambda>r. status r \<noteq> REPLACED) batch)
      (maxStreamLimit cfg) (anchors (w_db w))")
    case (Inl e)
    then show ?thesis using assms live that(1) by (simp add: anchor_batch_def bindP_def)
  next
    case (Inr found)
    obtain cs g where found: "found = (cs, g)" by fastforce
    show ?thesis
    proof (cases "cs = [] \<or> anchorCandidates P cfg ans cs w = None")
      case True
      then show ?thesis using assms live Inr found that(1)
        by (cases "cs = []") (auto simp: anchor_batch_def bindP_def catchP_def logAnchorSummary_def)
    next
      case False
      then obtain r1 u where run: "anchorCandidates P cfg ans cs w = Some (r1, u)" by auto
      show ?thesis
      proof (cases r1)
        case (Inr res)
        then have "w_db w' = w_db u" "w_merkle_cars w' = w_merkle_cars u"
          using assms live \<open>_ = Inr found\<close> found False run
          by (auto simp: anchor_batch_def bindP_def catchP_def logAnchorSummary_def)
        then show ?thesis using that(3) run \<open>_ = Inr found\<close> found Inr by blast
      next
        case (Inl e)
        then have u: "w_db u = w_db w" using anchorCandidates_failure run by blast
        have "w_db w' = w_db (if useQueueBatches cfg then u else revert_to_pending ans cs u)"
          using assms live \<open>_ = Inr found\<close> found False run Inl
          by (auto simp: anchor_batch_def bindP_def catchP_def logAnchorSummary_def)
        then show ?thesis
          using that(1,2) u by (auto simp: revert_to_pending_def split: if_splits)
      qed
    qed
  qed
qed


text \<open>The same batch with a Merkle CAR store that refuses.\<close>

definition refusing_answers :: answers where
  "refusing_answers = example_answers\<lparr>car_store_failure := Some (LibraryError ''S3'')\<rparr>"

lemma example_fails:
  "fails (anchor_batch example_platform (example_config False) refusing_answers (requests example_db) ''b'')
     example_world"
  by code_simp


text \<open>Anchoring a batch leaves the queue alone.\<close>

definition queue_view :: "'car world \<Rightarrow> string list \<times> string list" where
  "queue_view w = (w_acked w, w_nacked w)"

lemma persistAnchorResult_queue: "keepsP queue_view (persistAnchorResult ans created cs)"
  by (auto simp: keepsP_def queue_view_def persistAnchorResult_def split: option.splits sum.splits)

lemma storeWitnessCARs_queue: "keepsP queue_view (storeWitnessCARs P ans created car)"
  by (rule storeWitnessCARs_keeps) (simp add: queue_view_def put_witness_car_def)

lemma anchor_tree_queue: "keepsP queue_view (anchor_tree P cfg ans cs t tx)"
  unfolding keepsP_def
proof (intro allI impI)
  fix s r v
  assume run: "anchor_tree P cfg ans cs t tx s = Some (r, v)"
  obtain p car1 where p: "createIPFSProof P cfg (mt_car t) tx (mt_root t) = (p, car1)" by fastforce
  obtain created car s1 where c: "createAnchorCommits P cfg ans p t car1 s = (created, car, s1)"
    by (metis prod_cases3)
  have first: "queue_view s1 = queue_view s"
    by (rule create_commits_world [OF c [unfolded createAnchorCommits_def]]) (simp add: queue_view_def)
  have ipfs: "keepsP queue_view (if b then callP f (\<lambda>w. w\<lparr>w_imports := g w\<rparr>) else returnP ())" for b f g
    by (cases b) (auto simp: queue_view_def intro!: keepsP_basic)
  have cars: "keepsP queue_view (callP f (put_merkle_car c x))" for f c x
    by (rule keepsP_basic) (simp add: queue_view_def put_merkle_car_def)
  have keeps: "keepsP queue_view (store_results P cfg ans cs t p created car)"
    unfolding store_results_def
    by (intro keepsP_bind ipfs cars storeWitnessCARs_queue persistAnchorResult_queue keepsP_basic(1))
  have "store_results P cfg ans cs t p created car s1 = Some (r, v)"
    using run by (simp add: anchor_tree_def p c)
  from keepsPD [OF keeps this] first show "queue_view v = queue_view s" by (rule trans)
qed

text \<open>A batch keeps what its attempt, its summary and the return of its requests to \<open>PENDING\<close> keep.\<close>

lemma anchor_batch_stable:
  assumes "\<And>cs. stableP I (anchorCandidates P cfg ans cs)"
    and "\<And>s f. I s \<Longrightarrow> I (w_summaries_update f s)" and "\<And>s cs. I s \<Longrightarrow> I (revert_to_pending ans cs s)"
  shows "stableP I (anchor_batch P cfg ans batch b)"
  unfolding stableP_def
proof (intro allI impI)
  fix s r v
  assume start: "I s" and batch_run: "anchor_batch P cfg ans batch b s = Some (r, v)"
  have logs: "stableP I (logAnchorSummary b batch g cs f)" for g cs f
  proof -
    have "I (s\<lparr>w_summaries := w_summaries s @ [x]\<rparr>)" if "I s" for s x
      using assms(2) [OF that, of "\<lambda>_. w_summaries s @ [x]"] by simp
    then show ?thesis unfolding logAnchorSummary_def by (intro stableP_basic(4))
  qed
  have reverts: "stableP I (if x then returnP () else modifyP (revert_to_pending ans cs))" for x cs
    using assms(3) by (cases x) (auto intro: stableP_basic)
  show "I v"
  proof (cases "filter (\<lambda>r. status r \<noteq> REPLACED) batch = []")
    case True
    then show ?thesis using batch_run start by (simp add: anchor_batch_def)
  next
    case live: False
    show ?thesis
    proof (cases "findCandidates (id_parsers_of P) (engine P) (filter (\<lambda>r. status r \<noteq> REPLACED) batch)
        (maxStreamLimit cfg) (anchors (w_db s))")
      case (Inl e)
      then show ?thesis using batch_run start live by (simp add: anchor_batch_def bindP_def)
    next
      case (Inr found)
      obtain cs g where found: "found = (cs, g)" by fastforce
      define Q where "Q = (if cs = [] then logAnchorSummary b batch g cs (\<lambda>s. s)
         else catchP
           (bindP (anchorCandidates P cfg ans cs) (\<lambda>results.
            logAnchorSummary b batch g cs (with_results results)))
           (\<lambda>err.
            bindP (if useQueueBatches cfg then returnP () else modifyP (revert_to_pending ans cs)) (\<lambda>_.
            bindP (logAnchorSummary b batch g cs
                     (\<lambda>s. s\<lparr>failedRequestsCount := 0, canRetryCount := 0 + length cs\<rparr>)) (\<lambda>_.
            throwP err))))"
      have run: "Q s = Some (r, v)"
        using batch_run live Inr found by (simp add: anchor_batch_def bindP_def Q_def)
      have "stableP I Q"
      proof (cases "cs = []")
        case True
        show ?thesis unfolding Q_def if_P [OF True] by (rule logs)
      next
        case False
        show ?thesis unfolding Q_def if_not_P [OF False]
          by (intro stableP_catch stableP_bind assms(1) logs reverts stableP_basic(2))
      qed
      then show ?thesis using start run by (rule stablePD)
    qed
  qed
qed

lemma anchor_batch_queue: "keepsP queue_view (anchor_batch P cfg ans batch b)"
proof -
  have mutex: "keepsP queue_view (withTransactionMutex (send_root ans root) mx ls)" for root mx ls
    by (rule keepsP_mutex) (simp add: send_root_def queue_view_def)
  have "keepsP queue_view (anchorCandidates P cfg ans cs)" for cs
    unfolding anchorCandidates_def by (intro keepsP_bind keepsP_basic(3) mutex anchor_tree_queue)
  then show ?thesis
    unfolding keepsP_stable by (intro allI anchor_batch_stable) (auto simp: queue_view_def revert_to_pending_def)
qed

text \<open>
  anchorNextQueuedBatch: with a message received, the call answers \<open>True\<close> exactly when the
  message was acknowledged and not returned; when it fails after the receipt, the message was
  not acknowledged, and it was returned to the queue unless that call failed as well, in which
  case its error replaces the first one. Without a message nothing happens.
\<close>

theorem anchorNextQueuedBatch_ack:
  assumes "anchorNextQueuedBatch P cfg ans q w = Some (r, w')" and "\<not> aborted_before q"
    and "useQueueBatches cfg" and "received q = Inr msg"
  shows "case msg of
      None \<Rightarrow> r = Inr False \<and> w' = w
    | Some m \<Rightarrow>
        (r = Inr True \<and> queue_view w' = (w_acked w @ [bid m], w_nacked w)) \<or>
        (\<exists>e. r = Inl e \<and> queue_view w' = (w_acked w, w_nacked w @ [bid m]) \<and> nack_failure q = None) \<or>
        (\<exists>e. r = Inl e \<and> queue_view w' = queue_view w \<and> nack_failure q = Some e)"
proof (cases msg)
  case None
  with assms show ?thesis by (simp add: anchorNextQueuedBatch_def bindP_def)
next
  case (Some m)
  have batch_keeps: "queue_view v = queue_view u"
    if "anchor_batch P cfg ans batch b u = Some (x, v)" for batch b u x v
    by (rule keepsPD [OF anchor_batch_queue that])
  show ?thesis
  proof (cases r)
    case (Inl e)
    then show ?thesis
      using assms Some
      by (auto simp: anchorNextQueuedBatch_def err_simps queue_view_def split: if_splits
          dest!: batch_keeps)
  next
    case (Inr x)
    then show ?thesis
      using assms Some
      by (auto simp: anchorNextQueuedBatch_def err_simps queue_view_def split: if_splits
          dest!: batch_keeps)
  qed
qed

definition example_queue :: queue_answers where
  "example_queue = \<lparr>aborted_before = False, aborted_after = False,
     received = Inr (Some \<lparr>bid = ''b7'', rids = [''1'', ''2'']\<rparr>), ack_failure = None, nack_failure = None\<rparr>"

lemma example_queue_completes:
  "completes (anchorNextQueuedBatch example_platform (example_config True) example_answers example_queue)
     example_world"
  by code_simp

theorem anchorNextQueuedBatch_ack_witness:
  "\<exists>r w'. anchorNextQueuedBatch example_platform (example_config True) example_answers example_queue
      example_world = Some (Inr r, w') \<and> queue_view w' = ([''b7''], [])"
proof (rule completesE [OF example_queue_completes])
  fix r w'
  assume run: "anchorNextQueuedBatch example_platform (example_config True) example_answers example_queue
      example_world = Some (Inr r, w')"
  have "queue_view w' = ([''b7''], [])"
    using anchorNextQueuedBatch_ack [OF run, where msg = "Some \<lparr>bid = ''b7'', rids = [''1'', ''2'']\<rparr>"]
    by (simp add: example_queue_def example_config_def example_world_def)
  with run show ?thesis by blast
qed

end
