(* ===== verification/Anchor_Storage.thy ===== *)
theory Anchor_Storage
  imports Anchoring
begin

text \<open>
  What batches leave in the stores: whether they succeed or fail, a witness in its store verifies as the
  commit it is stored under, no Merkle CAR disappears, and the anchors a batch adds to the database are proved
  by the Merkle CAR stored under their proof.
\<close>

section \<open>Witnesses that verify\<close>

text \<open>Every stored witness verifies, and the Merkle CARs stored before are still there.\<close>

definition cars_ok :: "('car, 'block) car_lib \<Rightarrow> (cid \<times> 'car) list \<Rightarrow> 'car world \<Rightarrow> bool" where
  "cars_ok l kept w \<longleftrightarrow> (\<forall>(c, car)\<in>set (w_witness_cars w). verify l car = Inr c) \<and> set kept \<subseteq> set (w_merkle_cars w)"

lemma cars_ok_cong:
  "w_witness_cars w' = w_witness_cars w \<Longrightarrow> w_merkle_cars w' = w_merkle_cars w \<Longrightarrow> cars_ok l kept w' = cars_ok l kept w"
  by (simp add: cars_ok_def)

lemma storeWitnessCARs_stable:
  assumes "\<And>a x. a \<in> set created \<Longrightarrow> build_witness (lib P) (anchor_cid a) car = Inr x
      \<Longrightarrow> verify (lib P) x = Inr (anchor_cid a)"
  shows "stableP (cars_ok (lib P) kept) (storeWitnessCARs P ans created car)"
  using assms
proof (induction created)
  case Nil
  show ?case unfolding storeWitnessCARs.simps by (rule stableP_basic)
next
  case (Cons a as)
  have "stableP (cars_ok (lib P) kept) (storeWitnessCARs P ans as car)" using Cons by auto
  moreover have "stableP (cars_ok (lib P) kept) (callP (witness_store_failure ans (anchor_cid a)) (put_witness_car (anchor_cid a) x))"
    if "build_witness (lib P) (anchor_cid a) car = Inr x" for x
    using Cons.prems [of a x] that by (intro stableP_basic(5)) (simp add: cars_ok_def put_witness_car_def)
  ultimately show ?case
    unfolding storeWitnessCARs.simps by (intro stableP_lift stableP_bind stableP_catch stableP_basic(1))
qed

text \<open>Whatever witness can be built for an anchor of a batch from its CAR verifies.\<close>

lemma created_witness:
  assumes "lawful_car (lib P)" and "lawful_tree P" and "buildMerkleTree P cfg cs = Inr t"
    and "createIPFSProof P cfg (mt_car t) tx (mt_root t) = (p, car1)"
    and "createAnchorCommits P cfg ans p t car1 w = (created, car, w')"
    and "a \<in> set created" and "build_witness (lib P) (anchor_cid a) car = Inr x"
  shows "verify (lib P) x = Inr (anchor_cid a)"
proof (cases "length cs = 1")
  case True
  then show ?thesis using single_leaf_commit [OF assms(1-3) True assms(4,5)] assms(6,7) by (auto split: if_splits)
next
  case False
  note provable = commits_provable [OF assms(1-3) False assms(4,5)]
  have "length cs \<noteq> 0"
  proof
    assume "length cs = 0"
    then have "mt_leaves t = []" using tree_of_candidates(1) [OF assms(2,1,3)] by simp
    then show False using assms(5,6) by (simp add: createAnchorCommits_def)
  qed
  then have "length created = length cs" using provable [of 0] by simp
  then obtain i where i: "i < length cs" "created ! i = a" using assms(6) by (metis in_set_conv_nth)
  then show ?thesis using provable [OF i(1)] assms(7) by auto
qed

lemma anchorCandidates_stable:
  assumes "lawful_car (lib P)" and "lawful_tree P"
  shows "stableP (cars_ok (lib P) kept) (anchorCandidates P cfg ans cs)"
proof -
  let ?I = "cars_ok (lib P) kept"
  have sends: "stableP ?I (withTransactionMutex (send_root ans root) mx ls)" for root mx ls
    by (rule stableP_mutex) (simp add: send_root_def cars_ok_def)
  have persists: "stableP ?I (persistAnchorResult ans created cs)" for created
    by (auto simp: stableP_def persistAnchorResult_def cars_ok_def split: option.splits sum.splits)
  have tree: "stableP ?I (anchor_tree P cfg ans cs t tx)" if t: "buildMerkleTree P cfg cs = Inr t" for t tx
    unfolding stableP_def
  proof (intro allI impI)
    fix w r v
    assume start: "?I w" and run: "anchor_tree P cfg ans cs t tx w = Some (r, v)"
    obtain p car1 where p: "createIPFSProof P cfg (mt_car t) tx (mt_root t) = (p, car1)" by fastforce
    obtain created car w1 where made: "createAnchorCommits P cfg ans p t car1 w = (created, car, w1)"
      by (metis prod_cases3)
    have "w_witness_cars w1 = w_witness_cars w" "w_merkle_cars w1 = w_merkle_cars w"
      by (rule create_commits_world [OF made [unfolded createAnchorCommits_def]]; simp)+
    then have ready: "?I w1" using start by (simp add: cars_ok_def)
    have witnesses: "stableP ?I (storeWitnessCARs P ans created car)"
      by (rule storeWitnessCARs_stable) (rule created_witness [OF assms t p made])
    have adds: "stableP ?I (if casUseIpfsStorage cfg
        then callP (import_failure ans) (\<lambda>w. w\<lparr>w_imports := w_imports w @ [car]\<rparr>) else returnP ())"
      by (cases "casUseIpfsStorage cfg") (auto simp: cars_ok_def intro!: stableP_basic)
    have puts: "stableP ?I (callP (car_store_failure ans) (put_merkle_car p car))"
      by (intro stableP_basic(5)) (auto simp: cars_ok_def put_merkle_car_def)
    have "stableP ?I (store_results P cfg ans cs t p created car)"
      unfolding store_results_def by (intro stableP_bind adds puts witnesses persists stableP_basic(1))
    then show "?I v" using ready run p made by (auto simp: anchor_tree_def elim: stablePD)
  qed
  show ?thesis
    unfolding anchorCandidates_def by (intro stableP_lift stableP_bind sends tree)
qed

lemma anchor_batch_cars:
  assumes "lawful_car (lib P)" and "lawful_tree P" and "anchor_batch P cfg ans batch b w = Some (r, w')"
    and "\<forall>(c, car)\<in>set (w_witness_cars w). verify (lib P) car = Inr c"
  shows "(\<forall>(c, car)\<in>set (w_witness_cars w'). verify (lib P) car = Inr c) \<and> set (w_merkle_cars w) \<subseteq> set (w_merkle_cars w')"
proof -
  have "stableP (cars_ok (lib P) (w_merkle_cars w)) (anchor_batch P cfg ans batch b)"
    by (intro anchor_batch_stable anchorCandidates_stable assms(1,2))
      (auto simp: cars_ok_def revert_to_pending_def)
  from stablePD [OF this _ assms(3)] show ?thesis using assms(4) by (simp add: cars_ok_def)
qed

section \<open>Anchors that are proved\<close>

text \<open>A Merkle CAR shows that an anchor's commit is for a CID, and a witness that verifies can be built from it.\<close>

definition shows_anchor :: "('car, 'block) car_lib \<Rightarrow> 'car \<Rightarrow> stored_anchor \<Rightarrow> cid \<Rightarrow> bool" where
  "shows_anchor l m a c \<longleftrightarrow> (\<exists>root line. proves_anchor l m (anchor_cid a) c (proofCid a) root line)
     \<and> (\<exists>witness. build_witness l (anchor_cid a) m = Inr witness \<and> verify l witness = Inr (anchor_cid a))"

lemma anchorCandidates_anchors:
  assumes "lawful_car (lib P)" and "lawful_tree P" and "anchorCandidates P cfg ans cs w = Some (Inr res, w')"
    and "\<forall>a\<in>set (persist_attempts ans). database_wf (att_db a)"
  obtains a added m where "a \<in> set (persist_attempts ans)" and "anchors (w_db w') = anchors (att_db a) @ added"
    and "map row_identity (requests (w_db w')) = map row_identity (requests (att_db a))"
    and "\<And>x. x \<in> set added \<Longrightarrow> (proofCid x, m) \<in> set (w_merkle_cars w')
      \<and> (\<exists>c\<in>set cs. requestId x = req_id (cd_request c) \<and> shows_anchor (lib P) m x (cd_cid c))"
proof -
  obtain t tx w0 where t: "buildMerkleTree P cfg cs = Inr t"
    and run: "anchor_tree P cfg ans cs t tx w0 = Some (Inr res, w')"
    using assms(3) by (auto simp: anchorCandidates_def err_simps)
  obtain p car1 created car w1 a n where made:
    "createIPFSProof P cfg (mt_car t) tx (mt_root t) = (p, car1)"
    "createAnchorCommits P cfg ans p t car1 w0 = (created, car, w1)"
    "\<forall>x\<in>set created. \<exists>witness. build_witness (lib P) (anchor_cid x) car = Inr witness"
    "a \<in> set (persist_attempts ans)" "persist_txn (new_ids ans) created (map cd_request cs) a = Inr (w_db w', n)"
    "w_merkle_cars w' = (p, car) # w_merkle_cars w0"
    by (rule anchor_tree_success [OF run])
  have not_single: "length cs \<noteq> 1"
    using single_leaf_commit [OF assms(1,2) t _ made(1,2)] made(3) by (auto split: if_splits)
  have leaves: "set (mt_leaves t) = set cs" "length (mt_leaves t) = length cs"
    using tree_of_candidates(1) [OF assms(2,1) t] by (auto dest: mset_eq_setD mset_eq_length)
  have all: "list_all2 (\<lambda>k_leaf a. proofCid a = p) (zip [0..<length (mt_leaves t)] (mt_leaves t)) created"
    using create_commits_facts [OF made(2) [unfolded createAnchorCommits_def] assms(1)]
    by (auto elim: list_all2_mono)
  have per_anchor: "proofCid f = p \<and> (\<exists>c\<in>set cs. requestId f = req_id (cd_request c)
      \<and> (\<exists>line. proves_anchor (lib P) car (anchor_cid f) (cd_cid c) p (mt_root t) line)
      \<and> (\<exists>witness. build_witness (lib P) (anchor_cid f) car = Inr witness \<and> verify (lib P) witness = Inr (anchor_cid f)))"
    if here: "f \<in> set created" for f
  proof -
    have "length created = length cs" using list_all2_lengthD [OF all] leaves(2) by simp
    moreover obtain i where k: "i < length created" "created ! i = f" using here unfolding in_set_conv_nth by blast
    ultimately have i: "i < length cs" "created ! i = f" by simp_all
    have "proofCid f = p" using list_all2_nthD2 [OF all k(1)] unfolding k(2) .
    moreover have leaf: "mt_leaves t ! i \<in> set cs" using i(1) leaves by (metis nth_mem)
    note provable = commits_provable [OF assms(1,2) t not_single made(1,2) i(1), unfolded i(2)]
    ultimately show ?thesis using leaf by blast
  qed
  have "database_wf (att_db a)" using assms(4) made(4) by blast
  note db = persist_txn_live [OF made(5) this]
  then have rows: "requests (w_db w') = fst (updateRequests completed_fields (map cd_request cs) (att_clock a) (requests (att_db a)))"
    by blast
  obtain added where added: "anchors (w_db w') = anchors (att_db a) @ added"
    "\<forall>x\<in>set added. \<exists>f\<in>set created. requestId x = requestId f \<and> proofCid x = proofCid f
      \<and> path x = path f \<and> anchor_cid x = anchor_cid f"
    using db by (elim conjE exE)
  show ?thesis
  proof (rule that [OF made(4) added(1)])
    show "map row_identity (requests (w_db w')) = map row_identity (requests (att_db a))"
      unfolding rows by (rule upd.identity_kept)
    fix x
    assume "x \<in> set added"
    then obtain f where f: "f \<in> set created" "requestId x = requestId f" "proofCid x = proofCid f" "anchor_cid x = anchor_cid f"
      using added(2) by blast
    then show "(proofCid x, car) \<in> set (w_merkle_cars w')
      \<and> (\<exists>c\<in>set cs. requestId x = req_id (cd_request c) \<and> shows_anchor (lib P) car x (cd_cid c))"
      using per_anchor [OF f(1)] made(6) unfolding shows_anchor_def by (metis list.set_intros(1))
  qed
qed

end
