(* ===== verification/Service.thy ===== *)
theory Service
  imports Request_Batching Anchor_Storage
begin

text \<open>
  The processes of the service together: their operations on the database as one step relation with its
  invariant, and on the database and the stores of CAR files.
\<close>

section \<open>The database\<close>

text \<open>
  What the processes of the service do to the database, in any order: clients submit requests
  (\<open>RequestService.create\<close> always with status \<open>PENDING\<close>), requests are replaced, marked,
  expired and taken, and batches are anchored. The requests of a batch are any list, so a
  worker may hold rows that other processes have changed since.
\<close>

inductive cas_step :: "('car, 'block) platform \<Rightarrow> service_config \<Rightarrow> database \<Rightarrow> database \<Rightarrow> bool" for P cfg where
  submit_request: "p_status p = Some PENDING \<Longrightarrow> create new_id now p (requests db) = Inr (tbl, stored) \<Longrightarrow>
    cas_step P cfg db (db\<lparr>requests := tbl\<rparr>)"
| replace: "markReplaced (engine P) q (requests db) = (tbl, n) \<Longrightarrow>
    cas_step P cfg db (db\<lparr>requests := tbl\<rparr>)"
| make_ready: "att_db a = requests db \<Longrightarrow>
    mark_ready_txn (engine P) (maxAnchoringDelayMS cfg) mx mn a = Inr (tbl, rows) \<Longrightarrow>
    cas_step P cfg db (db\<lparr>requests := tbl\<rparr>)"
| make_processing: "att_db a = requests db \<Longrightarrow> mark_processing_txn (engine P) a = Inr (tbl, rows) \<Longrightarrow>
    cas_step P cfg db (db\<lparr>requests := tbl\<rparr>)"
| expire: "att_db a = requests db \<Longrightarrow>
    expire_ready_txn (engine P) (readyRetryIntervalMS cfg) a = Inr (tbl, n) \<Longrightarrow>
    cas_step P cfg db (db\<lparr>requests := tbl\<rparr>)"
| take_batch: "batchProcessing (engine P) (maxStreamLimit cfg) (requests db) = (tbl, rows) \<Longrightarrow>
    cas_step P cfg db (db\<lparr>requests := tbl\<rparr>)"
| anchor: "anchor_batch P cfg ans batch b w = Some (r, w') \<Longrightarrow> w_db w = db \<Longrightarrow>
    \<forall>a\<in>set (persist_attempts ans). att_db a = db \<Longrightarrow> cas_step P cfg db (w_db w')"

inductive cas_reachable :: "('car, 'block) platform \<Rightarrow> service_config \<Rightarrow> database \<Rightarrow> bool" for P cfg where
  empty: "cas_reachable P cfg \<lparr>requests = [], anchors = []\<rparr>"
| step: "cas_reachable P cfg db \<Longrightarrow> cas_step P cfg db db' \<Longrightarrow> cas_reachable P cfg db'"

text \<open>Keys and references hold, and a completed request has an anchor.\<close>

definition cas_inv :: "database \<Rightarrow> bool" where
  "cas_inv db \<longleftrightarrow> database_wf db
     \<and> (\<forall>r\<in>set (requests db). status r = COMPLETED \<longrightarrow> (\<exists>a\<in>set (anchors db). requestId a = req_id r))"

text \<open>
  Steps that rewrite rows without completing any: every row of the new table has the identity
  of an old row and is \<open>COMPLETED\<close> only if that row was.
\<close>

definition completes_none :: "request list \<Rightarrow> request list \<Rightarrow> bool" where
  "completes_none tbl tbl' \<longleftrightarrow> map row_identity tbl' = map row_identity tbl
     \<and> list_all2 (\<lambda>r r'. status r' = COMPLETED \<longrightarrow> status r = COMPLETED) tbl tbl'"

lemma completes_none_map:
  assumes "\<And>r. row_identity (g r) = row_identity r"
    and "\<And>r. status (g r) = COMPLETED \<Longrightarrow> status r = COMPLETED"
  shows "completes_none tbl (map (\<lambda>r. if c r then g r else r) tbl)"
  using assms by (auto simp: completes_none_def list_all2_conv_all_nth)

lemma completes_none_refl [simp]: "completes_none tbl tbl"
  by (simp add: completes_none_def list_all2_refl)

lemma completes_none_update:
  "s \<noteq> COMPLETED \<Longrightarrow> completes_none tbl (fst (updateRequests (only_status s) rows now tbl))"
  unfolding updateRequests_def Let_def fst_conv
  by (rule completes_none_map) (simp_all add: row_identity_def)

lemma completes_none_inv:
  assumes "cas_inv db" and "completes_none (requests db) tbl"
  shows "cas_inv (db\<lparr>requests := tbl\<rparr>)"
proof -
  have ids: "map req_id tbl = map req_id (requests db)" "map req_cid tbl = map req_cid (requests db)"
    using assms(2) by (auto simp: completes_none_def row_identity_def list_eq_iff_nth_eq)
  have "req_id ` set tbl = req_id ` set (requests db)" using ids(1) by (metis list.set_map)
  with ids have wf: "database_wf (db\<lparr>requests := tbl\<rparr>)"
    using assms(1) by (simp add: cas_inv_def database_wf_def request_table_wf_def)
  have "\<exists>a\<in>set (anchors db). requestId a = req_id r" if "r \<in> set tbl" "status r = COMPLETED" for r
  proof -
    obtain i where i: "i < length tbl" "tbl ! i = r" using \<open>r \<in> set tbl\<close> by (metis in_set_conv_nth)
    have len: "length tbl = length (requests db)" using ids(1) by (metis length_map)
    have "status (requests db ! i) = COMPLETED" "req_id (requests db ! i) = req_id r"
      using assms(2) i len that(2) ids(1) unfolding completes_none_def list_all2_conv_all_nth
      by (auto dest: map_eq_imp_length_eq) (metis len nth_map)
    then show ?thesis
      using assms(1) i(1) len unfolding cas_inv_def by (metis nth_mem)
  qed
  with wf show ?thesis by (simp add: cas_inv_def)
qed

lemma cas_inv_submit:
  assumes "cas_inv db" and "p_status p = Some PENDING" and "create new_id now p (requests db) = Inr (tbl, stored)"
  shows "cas_inv (db\<lparr>requests := tbl\<rparr>)"
proof -
  have "tbl = requests db \<or> (\<exists>r. tbl = requests db @ [r] \<and> status r = PENDING
      \<and> req_cid r \<notin> set (map req_cid (requests db)) \<and> req_id r \<notin> set (map req_id (requests db)))"
    using assms(2,3) by (auto simp: create_def toDB_def insert_row_def err_simps split: if_splits)
  then show ?thesis
    using assms(1) by (auto simp: cas_inv_def database_wf_def request_table_wf_def)
qed

lemma cas_inv_persist:
  assumes "persist_txn ids created accepted a = Inr (db', n)" and "cas_inv (att_db a)"
    and "requestId ` set created = req_id ` set accepted"
  shows "cas_inv db'"
proof -
  have wf: "database_wf (att_db a)" using assms(2) by (simp add: cas_inv_def)
  note db = persist_txn_live [OF assms(1) wf]
  have known: "requestId ` set (anchors db')
      = requestId ` set (anchors (att_db a)) \<union> req_id ` set accepted"
    using db assms(3) by simp
  have "req_id r \<in> requestId ` set (anchors db')"
    if "r \<in> set (requests db')" "status r = COMPLETED" for r
  proof -
    have "r \<in> set (fst (updateRequests completed_fields accepted (att_clock a) (requests (att_db a))))"
      using db that(1) by simp
    then have "r \<in> (\<lambda>q. if req_id q \<in> set (map req_id accepted)
        then apply_fields completed_fields (att_clock a) q else q) ` set (requests (att_db a))"
      by (simp add: updateRequests_def Let_def)
    then obtain q where q: "q \<in> set (requests (att_db a))"
      "r = (if req_id q \<in> set (map req_id accepted) then apply_fields completed_fields (att_clock a) q else q)"
      by (rule imageE) simp
    show ?thesis
    proof (cases "req_id q \<in> set (map req_id accepted)")
      case True
      then show ?thesis using q(2) known by simp
    next
      case False
      then have "r = q" using q(2) by simp
      with q(1) that(2) assms(2) have "\<exists>x\<in>set (anchors (att_db a)). requestId x = req_id r"
        unfolding cas_inv_def by blast
      then show ?thesis using known by (auto intro: rev_image_eqI)
    qed
  qed
  then have "\<forall>r\<in>set (requests db'). status r = COMPLETED \<longrightarrow> (\<exists>x\<in>set (anchors db'). requestId x = req_id r)"
    by (auto simp: image_iff eq_commute)
  moreover have "database_wf db'" using db by blast
  ultimately show ?thesis by (simp add: cas_inv_def)
qed

text \<open>Every step submits, rewrites rows without completing any, or persists the anchors of a batch.\<close>

lemma cas_step_effect:
  assumes "cas_step P cfg db db'" and "lawful_car (lib P)" and "lawful_tree P"
  obtains (submitted) p new_id now tbl stored where "p_status p = Some PENDING"
      "create new_id now p (requests db) = Inr (tbl, stored)" "db' = db\<lparr>requests := tbl\<rparr>"
  | (rewritten) tbl where "completes_none (requests db) tbl" "db' = db\<lparr>requests := tbl\<rparr>"
  | (persisted) ids created accepted a n where "persist_txn ids created accepted a = Inr (db', n)" "att_db a = db"
      "requestId ` set created = req_id ` set accepted"
  using assms(1)
proof cases
  case (submit_request p new_id now tbl stored)
  then show ?thesis using submitted by blast
next
  case (replace q tbl n)
  then have "completes_none (requests db) tbl"
    by (auto simp: markReplaced_def Let_def intro!: completes_none_map)
  then show ?thesis using replace rewritten by blast
next
  case (make_ready a mx mn tbl rows)
  then have "completes_none (requests db) tbl"
    using completes_none_update [of READY]
    by (auto simp: mark_ready_txn_def repeatable_read_def Let_def split: if_splits prod.splits) (metis fst_conv)
  then show ?thesis using make_ready rewritten by blast
next
  case (make_processing a tbl rows)
  then have "completes_none (requests db) tbl"
    using completes_none_update [of PROCESSING]
    by (auto simp: mark_processing_txn_def repeatable_read_def Let_def split: if_splits prod.splits) (metis fst_conv)
  then show ?thesis using make_processing rewritten by blast
next
  case (expire a tbl n)
  then have "completes_none (requests db) tbl"
    using completes_none_update [of READY]
    by (auto simp: expire_ready_txn_def repeatable_read_def Let_def split: if_splits list.splits) (metis fst_conv)
  then show ?thesis using expire rewritten by blast
next
  case (take_batch tbl rows)
  then have "completes_none (requests db) tbl"
    by (auto simp: batchProcessing_def Let_def intro!: completes_none_map)
  then show ?thesis using take_batch rewritten by blast
next
  case (anchor ans batch b w r w')
  show ?thesis
  proof (rule anchor_batch_database [OF anchor(2)])
    assume "w_db w' = w_db w"
    then show ?thesis using anchor(1,3) rewritten [of "requests db"] by simp
  next
    fix cs
    assume reverted: "w_db w' = w_db (revert_to_pending ans cs w)"
    have "completes_none (requests db) (requests (w_db w'))"
      unfolding reverted using completes_none_update [of PENDING] anchor(3)
      by (simp add: revert_to_pending_def)
    then show ?thesis using anchor(1,3) reverted rewritten by (simp add: revert_to_pending_def)
  next
    fix cs g res u
    assume run: "anchorCandidates P cfg ans cs w = Some (Inr res, u)" and same: "w_db w' = w_db u"
    obtain created a n where made: "a \<in> set (persist_attempts ans)"
      "persist_txn (new_ids ans) created (map cd_request cs) a = Inr (w_db u, n)"
      "requestId ` set created = req_id ` cd_request ` set cs"
      by (rule anchorCandidates_persisted [OF assms(2,3) run])
    then show ?thesis using persisted [of "new_ids ans" created "map cd_request cs" a n] anchor(1,4) same by simp
  qed
qed

lemma cas_inv_step:
  assumes "cas_step P cfg db db'" and "lawful_car (lib P)" and "lawful_tree P" and "cas_inv db"
  shows "cas_inv db'"
  using assms(1-3)
proof (cases rule: cas_step_effect)
  case (submitted p new_id now tbl stored)
  then show ?thesis using cas_inv_submit [OF assms(4)] by simp
next
  case (rewritten tbl)
  then show ?thesis using completes_none_inv [OF assms(4)] by simp
next
  case (persisted ids created accepted a n)
  then show ?thesis using cas_inv_persist [OF persisted(1) _ persisted(3)] assms(4) by simp
qed

lemma cas_reachable_inv:
  assumes "lawful_car (lib P)" and "lawful_tree P" and "cas_reachable P cfg db"
  shows "cas_inv db"
  using assms(3)
proof induction
  case empty
  show ?case by (simp add: cas_inv_def database_wf_def request_table_wf_def anchor_table_wf_def)
next
  case (step db db')
  then show ?case using cas_inv_step [OF _ assms(1,2)] by blast
qed

section \<open>The database and the stores\<close>

text \<open>No step takes a row away or changes its identity.\<close>

lemma cas_step_rows:
  assumes "cas_step P cfg db db'" and "lawful_car (lib P)" and "lawful_tree P" and "cas_inv db"
  shows "row_identity ` set (requests db) \<subseteq> row_identity ` set (requests db')"
  using assms(1-3)
proof (cases rule: cas_step_effect)
  case (submitted p new_id now tbl stored)
  then show ?thesis by (auto simp: create_def err_simps split: if_splits)
next
  case (rewritten tbl)
  then have "set (map row_identity tbl) = set (map row_identity (requests db))" by (simp add: completes_none_def)
  then show ?thesis using rewritten(2) by simp
next
  case (persisted ids created accepted a n)
  have "database_wf (att_db a)" using assms(4) persisted(2) by (simp add: cas_inv_def)
  then have "requests db' = fst (updateRequests completed_fields accepted (att_clock a) (requests db))"
    using persist_txn_live [OF persisted(1)] persisted(2) by simp
  then have "set (map row_identity (requests db')) = set (map row_identity (requests db))"
    by (simp only: upd.identity_kept)
  then show ?thesis by simp
qed

text \<open>
  A step of one process: a change of rows, or a whole batch, of requests that were read at any time before,
  with what it leaves in the stores, whatever its end.
\<close>

inductive service_step :: "('car, 'block) platform \<Rightarrow> service_config \<Rightarrow> 'car world \<Rightarrow> 'car world \<Rightarrow> bool" for P cfg where
  on_rows: "cas_step P cfg (w_db w) db \<Longrightarrow> anchors db = anchors (w_db w) \<Longrightarrow> service_step P cfg w (w\<lparr>w_db := db\<rparr>)"
| on_batch: "anchor_batch P cfg ans batch b w = Some (r, w') \<Longrightarrow> \<forall>a\<in>set (persist_attempts ans). att_db a = w_db w \<Longrightarrow>
    row_identity ` set batch \<subseteq> row_identity ` set (requests (w_db w)) \<Longrightarrow> service_step P cfg w w'"

inductive service_reachable :: "('car, 'block) platform \<Rightarrow> service_config \<Rightarrow> 'car world \<Rightarrow> bool" for P cfg where
  start: "w_db w = \<lparr>requests = [], anchors = []\<rparr> \<Longrightarrow> w_merkle_cars w = [] \<Longrightarrow> w_witness_cars w = [] \<Longrightarrow>
    service_reachable P cfg w"
| step: "service_reachable P cfg w \<Longrightarrow> service_step P cfg w w' \<Longrightarrow> service_reachable P cfg w'"

text \<open>An anchor belongs to a request, and a Merkle CAR stored under its proof shows that it is for the request's CID.\<close>

definition shown :: "('car, 'block) platform \<Rightarrow> 'car world \<Rightarrow> stored_anchor \<Rightarrow> bool" where
  "shown P w a \<longleftrightarrow> (\<exists>r\<in>set (requests (w_db w)). \<exists>c m. requestId a = req_id r
     \<and> parse_cid (id_parsers_of P) (req_cid r) = Inr c \<and> (\<exists>sid. parse_stream_id (id_parsers_of P) (streamId r) = Inr sid)
     \<and> (proofCid a, m) \<in> set (w_merkle_cars w) \<and> shows_anchor (lib P) m a c)"

definition service_inv :: "('car, 'block) platform \<Rightarrow> 'car world \<Rightarrow> bool" where
  "service_inv P w \<longleftrightarrow> cas_inv (w_db w) \<and> (\<forall>(c, car)\<in>set (w_witness_cars w). verify (lib P) car = Inr c)
     \<and> (\<forall>a\<in>set (anchors (w_db w)). shown P w a)"

lemma shownI:
  assumes "row_identity r \<in> row_identity ` set (requests (w_db w))" and "requestId a = req_id r"
    and "parse_cid (id_parsers_of P) (req_cid r) = Inr c" and "\<exists>sid. parse_stream_id (id_parsers_of P) (streamId r) = Inr sid"
    and "(proofCid a, m) \<in> set (w_merkle_cars w)" and "shows_anchor (lib P) m a c"
  shows "shown P w a"
proof -
  obtain r' where "r' \<in> set (requests (w_db w))" "row_identity r = row_identity r'" using assms(1) by blast
  then show ?thesis using assms(2-6) unfolding shown_def row_identity_def by (metis prod.inject)
qed

lemma shown_later:
  assumes "shown P w a" and "row_identity ` set (requests (w_db w)) \<subseteq> row_identity ` set (requests (w_db w'))"
    and "set (w_merkle_cars w) \<subseteq> set (w_merkle_cars w')"
  shows "shown P w' a"
proof -
  obtain r c m where "r \<in> set (requests (w_db w))" "requestId a = req_id r" "parse_cid (id_parsers_of P) (req_cid r) = Inr c"
    "\<exists>sid. parse_stream_id (id_parsers_of P) (streamId r) = Inr sid" "(proofCid a, m) \<in> set (w_merkle_cars w)" "shows_anchor (lib P) m a c" using assms(1) unfolding shown_def by blast
  then show ?thesis using assms(2,3) by (intro shownI [where r = r and c = c and m = m]) auto
qed

lemma service_step_database: "service_step P cfg w w' \<Longrightarrow> cas_step P cfg (w_db w) (w_db w')"
  by (induction rule: service_step.induct) (auto intro: cas_step.anchor)

text \<open>The anchors that a batch adds.\<close>

lemma batch_shown:
  assumes "lawful_car (lib P)" and "lawful_tree P" and "anchor_batch P cfg ans batch b w = Some (r, w')"
    and "\<forall>a\<in>set (persist_attempts ans). att_db a = w_db w" and "database_wf (w_db w)"
    and "row_identity ` set batch \<subseteq> row_identity ` set (requests (w_db w))"
    and "a \<in> set (anchors (w_db w'))" and "a \<notin> set (anchors (w_db w))"
  shows "shown P w' a"
  using assms(3)
proof (cases rule: anchor_batch_database)
  case (3 cs g res u)
  have wf: "\<forall>a\<in>set (persist_attempts ans). database_wf (att_db a)" using assms(4,5) by simp
  obtain tried added m where tried: "tried \<in> set (persist_attempts ans)"
    and anchors: "anchors (w_db u) = anchors (att_db tried) @ added"
    and rows: "map row_identity (requests (w_db u)) = map row_identity (requests (att_db tried))"
    and added: "\<And>x. x \<in> set added \<Longrightarrow> (proofCid x, m) \<in> set (w_merkle_cars u)
      \<and> (\<exists>c\<in>set cs. requestId x = req_id (cd_request c) \<and> shows_anchor (lib P) m x (cd_cid c))"
    using anchorCandidates_anchors [OF assms(1,2) 3(2) wf] by blast
  have "a \<in> set added" using assms(4,7,8) anchors tried 3(3) by auto
  then obtain c where c: "c \<in> set cs" "requestId a = req_id (cd_request c)" "shows_anchor (lib P) m a (cd_cid c)"
    and m: "(proofCid a, m) \<in> set (w_merkle_cars u)" using added by blast
  have "cd_request c \<in> set batch" using findCandidates_requests [OF 3(1)] c(1) by auto
  then have "row_identity (cd_request c) \<in> row_identity ` set (requests (w_db w))" using assms(6) by blast
  also have "\<dots> = row_identity ` set (requests (w_db w'))" using rows assms(4) tried 3(3) by (metis list.set_map)
  finally show ?thesis
    using c m 3(4) findCandidates_rows(2,3) [OF 3(1) c(1)] by (intro shownI [where r = "cd_request c" and c = "cd_cid c" and m = m]) simp_all
qed (use assms(7,8) in \<open>simp_all add: revert_to_pending_def\<close>)

lemma service_inv_step:
  assumes "service_step P cfg w w'" and "lawful_car (lib P)" and "lawful_tree P" and "service_inv P w"
  shows "service_inv P w'"
proof -
  note db = service_step_database [OF assms(1)]
  have inv: "cas_inv (w_db w)" "database_wf (w_db w)" using assms(4) by (simp_all add: service_inv_def cas_inv_def)
  note rows = cas_step_rows [OF db assms(2,3) inv(1)]
  have "cas_inv (w_db w')" by (rule cas_inv_step [OF db assms(2,3) inv(1)])
  moreover have "(\<forall>(c, car)\<in>set (w_witness_cars w'). verify (lib P) car = Inr c) \<and> set (w_merkle_cars w) \<subseteq> set (w_merkle_cars w')
      \<and> (\<forall>a\<in>set (anchors (w_db w')). a \<in> set (anchors (w_db w)) \<or> shown P w' a)"
    using assms(1)
  proof cases
    case (on_rows db)
    then show ?thesis using assms(4) by (simp add: service_inv_def)
  next
    case (on_batch ans batch b r)
    have "\<forall>(c, car)\<in>set (w_witness_cars w). verify (lib P) car = Inr c" using assms(4) by (simp add: service_inv_def)
    then show ?thesis
      using anchor_batch_cars [OF assms(2,3) on_batch(1)] batch_shown [OF assms(2,3) on_batch(1,2) inv(2) on_batch(3)] by blast
  qed
  ultimately show ?thesis
    using assms(4) shown_later [OF _ rows] unfolding service_inv_def by blast
qed

lemma service_reachable_inv:
  assumes "lawful_car (lib P)" and "lawful_tree P" and "service_reachable P cfg w"
  shows "service_inv P w"
  using assms(3)
proof induction
  case (start w)
  then show ?case
    by (simp add: service_inv_def cas_inv_def database_wf_def request_table_wf_def anchor_table_wf_def)
next
  case (step w w')
  then show ?case using service_inv_step [OF _ assms(1,2)] by blast
qed

end
