(* ===== verification/Ethereum.thy ===== *)
theory Ethereum
  imports Models
begin

text \<open>
  \<open>src/src/services/blockchain/ethereum/ethereum-blockchain-service.ts\<close>: submitting the Merkle
  root as an Ethereum transaction, with a rising gas price and up to \<open>MAX_RETRIES\<close> attempts.
  The node behind the provider and the wallet is outside; its answers are the fields of
  \<open>node\<close>, one value of it for every attempt. Big numbers are integers.
\<close>

section \<open>Errors and data\<close>

text \<open>What the node throws, by its code, and what the service throws, which has no code.\<close>

datatype eth_error =
    InsufficientFunds | TimedOut | NonceExpired | OtherFailure string
  | CostTooHigh int int
  | InvalidNumber
  | SendFailed
  | NoChainId
  | WrongChainId nat nat
  | CompletedWithFailure
  | NotConfirmed
  | NoGasPrice

record tx_request =
  tx_to :: string
  tx_data :: string
  tx_nonce :: nat
  tx_from :: string
  gasLimit :: "int option"
  gasPrice :: "int option"
  maxPriorityFeePerGas :: "int option"
  maxFeePerGas :: "int option"

record fee_data =
  fd_maxFeePerGas :: "int option"
  fd_maxPriorityFeePerGas :: "int option"
  fd_gasPrice :: "int option"

record tx_response =
  rs_hash :: string
  rs_chainId :: nat

record tx_receipt =
  byzantium :: bool
  rc_status :: "int option"
  rc_transactionHash :: string
  rc_blockNumber :: int

record eth_config =
  overrideGasConfig :: bool
  configGasLimit :: int
  ethChainId :: "nat option"
  eth_useSmartContractAnchors :: bool
  contractAddress :: string
  walletAddress :: string

record node =
  getFeeData :: "eth_error + fee_data"
  estimateGas :: "tx_request \<Rightarrow> eth_error + int"
  node_send :: "tx_request \<Rightarrow> eth_error + tx_response"
  waitForTransaction :: "tx_response \<Rightarrow> eth_error + tx_receipt"
  getBlock :: "tx_receipt \<Rightarrow> eth_error + int"
  wait_again :: "tx_response \<Rightarrow> eth_error + tx_receipt"

definition MAX_RETRIES :: nat where
  "MAX_RETRIES = 3"

section \<open>Gas price\<close>

text \<open>\<open>BigNumber.div\<close> truncates.\<close>

definition bn_div :: "int \<Rightarrow> int \<Rightarrow> int" where
  "bn_div x y = sgn x * sgn y * (\<bar>x\<bar> div \<bar>y\<bar>)"

definition increaseGasPricePerAttempt :: "int \<Rightarrow> nat \<Rightarrow> int option \<Rightarrow> int" where
  "increaseGasPricePerAttempt estimate attempt previousGas =
     (let increase = bn_div estimate 10 * int attempt;
          increaseEstimate = estimate + increase
      in if attempt = 0 then increaseEstimate
         else (case previousGas of
             None \<Rightarrow> increaseEstimate
           | Some previous \<Rightarrow>
               (let increaseTransaction = previous + bn_div previous 10
                in if increaseTransaction < increaseEstimate then increaseEstimate else increaseTransaction)))"

text \<open>
  \<open>setGasPrice\<close> writes into the transaction request; what it wrote before an error stays.
\<close>

definition setGasPrice :: "eth_config \<Rightarrow> node \<Rightarrow> nat \<Rightarrow> tx_request
    \<Rightarrow> (eth_error + unit) \<times> tx_request" where
  "setGasPrice cfg nd attempt tx =
     (if overrideGasConfig cfg then (Inr (), tx\<lparr>gasLimit := Some (configGasLimit cfg)\<rparr>)
      else case getFeeData nd of
        Inl e \<Rightarrow> (Inl e, tx)
      | Inr fees \<Rightarrow>
          (let priced =
             (case (fd_maxPriorityFeePerGas fees, fd_maxFeePerGas fees) of
                (Some maxPriority, Some maxFee) \<Rightarrow>
                  (let prevPriorityFee = (case maxPriorityFeePerGas tx of Some p \<Rightarrow> p | None \<Rightarrow> maxPriority);
                       nextPriorityFee = increaseGasPricePerAttempt maxPriority attempt (Some prevPriorityFee);
                       baseFee = maxFee - maxPriority
                   in Inr (tx\<lparr>maxPriorityFeePerGas := Some nextPriorityFee,
                              maxFeePerGas := Some (baseFee + nextPriorityFee)\<rparr>))
              | _ \<Rightarrow>
                  (case fd_gasPrice fees of
                     None \<Rightarrow> Inl NoGasPrice
                   | Some price \<Rightarrow>
                       Inr (tx\<lparr>gasPrice := Some (increaseGasPricePerAttempt price attempt
                                 (Some (case gasPrice tx of Some p \<Rightarrow> p | None \<Rightarrow> price)))\<rparr>)))
           in case priced of
                Inl e \<Rightarrow> (Inl e, tx)
              | Inr tx1 \<Rightarrow>
                  (case estimateGas nd tx1 of
                     Inl e \<Rightarrow> (Inl e, tx1)
                   | Inr limit \<Rightarrow> (Inr (), tx1\<lparr>gasLimit := Some limit\<rparr>))))"

text \<open>\<open>gasLimit.mul(maxFeePerGas!)\<close> throws when either is \<open>undefined\<close>.\<close>

definition handleInsufficientFundsError :: "tx_request \<Rightarrow> int \<Rightarrow> eth_error + unit" where
  "handleInsufficientFundsError tx walletBalance =
     (case (gasLimit tx, maxFeePerGas tx) of
        (Some limit, Some fee) \<Rightarrow>
          (if walletBalance < limit * fee then Inl (CostTooHigh (limit * fee) walletBalance) else Inr ())
      | _ \<Rightarrow> Inl InvalidNumber)"

section \<open>Chain id, request, submission, confirmation\<close>

definition caipChainId :: "nat \<Rightarrow> string" where
  "caipChainId n = ''eip155:'' @ nat_to_string n"

text \<open>The getter \<open>chainId\<close>: 0 is as good as \<open>undefined\<close>.\<close>

definition chain_id :: "eth_config \<Rightarrow> eth_error + nat" where
  "chain_id cfg = (case ethChainId cfg of Some (Suc n) \<Rightarrow> Inr (Suc n) | _ \<Rightarrow> Inl NoChainId)"

definition assertSameChainId :: "nat \<Rightarrow> nat \<Rightarrow> eth_error + unit" where
  "assertSameChainId actual expected = (if actual \<noteq> expected then Inl (WrongChainId expected actual) else Inr ())"

text \<open>
  The data field: the root CID in base 16, padded to whole bytes, or what the contract's
  interface makes of the CID's bytes; both renderings come from packages.
\<close>

definition buildTransactionRequest :: "eth_config \<Rightarrow> (cid \<Rightarrow> string) \<Rightarrow> (cid \<Rightarrow> string) \<Rightarrow> nat \<Rightarrow> cid
    \<Rightarrow> tx_request" where
  "buildTransactionRequest cfg base16_of contract_data baseNonce rootCid =
     (let rootStrHex = base16_of rootCid;
          hexEncoded = ''0x'' @ (if even (length rootStrHex) then rootStrHex else CHR ''0'' # rootStrHex)
      in \<lparr>tx_to = (if eth_useSmartContractAnchors cfg then contractAddress cfg else walletAddress cfg),
          tx_data = (if eth_useSmartContractAnchors cfg then contract_data rootCid else hexEncoded),
          tx_nonce = baseNonce, tx_from = walletAddress cfg,
          gasLimit = None, gasPrice = None, maxPriorityFeePerGas = None, maxFeePerGas = None\<rparr>)"

definition trySendTransaction :: "eth_config \<Rightarrow> node \<Rightarrow> tx_request \<Rightarrow> eth_error + tx_response" where
  "trySendTransaction cfg nd tx =
     bindE (node_send nd tx) (\<lambda>response.
     bindE (chain_id cfg) (\<lambda>expected.
     bindE (assertSameChainId (rs_chainId response) expected) (\<lambda>_. Inr response)))"

definition confirmTransactionSuccess :: "eth_config \<Rightarrow> (tx_response \<Rightarrow> eth_error + tx_receipt)
    \<Rightarrow> (tx_receipt \<Rightarrow> eth_error + int) \<Rightarrow> tx_response \<Rightarrow> eth_error + transaction" where
  "confirmTransactionSuccess cfg wait block_of response =
     bindE (wait response) (\<lambda>receipt.
     bindE (block_of receipt) (\<lambda>time.
     let receipt_status = (if byzantium receipt then rc_status receipt else Some (- 1))
     in if receipt_status = Some 0 then Inl CompletedWithFailure
        else bindE (chain_id cfg) (\<lambda>c.
          Inr \<lparr>chain = caipChainId c, txHash = rc_transactionHash receipt,
               blockNumber = rc_blockNumber receipt, blockTimestamp = time\<rparr>)))"

text \<open>The loop of \<open>_checkForPreviousTransactionSuccess\<close>, over the responses from the last one.\<close>

fun check_previous :: "eth_config \<Rightarrow> node \<Rightarrow> tx_response list \<Rightarrow> eth_error + transaction" where
  "check_previous cfg nd [] = Inl NotConfirmed"
| "check_previous cfg nd (response # earlier) =
     (case confirmTransactionSuccess cfg (wait_again nd) (getBlock nd) response of
        Inr t \<Rightarrow> Inr t
      | Inl e \<Rightarrow> check_previous cfg nd earlier)"

definition checkForPreviousTransactionSuccess :: "eth_config \<Rightarrow> node \<Rightarrow> tx_response list
    \<Rightarrow> eth_error + transaction" where
  "checkForPreviousTransactionSuccess cfg nd responses = check_previous cfg nd (rev responses)"

section \<open>Sending\<close>

text \<open>The request being priced, the responses kept, and the requests handed to the wallet.\<close>

record send_state =
  txData :: tx_request
  txResponses :: "tx_response list"
  handed :: "tx_request list"

text \<open>One run of the operation given to \<open>attempt\<close>: \<open>Inr None\<close> is \<open>undefined\<close>.\<close>

definition try_block :: "eth_config \<Rightarrow> node \<Rightarrow> nat \<Rightarrow> send_state \<Rightarrow> (eth_error + transaction) \<times> send_state" where
  "try_block cfg nd attemptNum s =
     (case setGasPrice cfg nd attemptNum (txData s) of
        (Inl e, tx) \<Rightarrow> (Inl e, s\<lparr>txData := tx\<rparr>)
      | (Inr _, tx) \<Rightarrow>
          (let s1 = s\<lparr>txData := tx, handed := handed s @ [tx]\<rparr>
           in case trySendTransaction cfg nd tx of
                Inl e \<Rightarrow> (Inl e, s1)
              | Inr response \<Rightarrow>
                  (confirmTransactionSuccess cfg (waitForTransaction nd) (getBlock nd) response,
                   s1\<lparr>txResponses := txResponses s1 @ [response]\<rparr>)))"

definition send_attempt :: "eth_config \<Rightarrow> int \<Rightarrow> node \<Rightarrow> nat \<Rightarrow> send_state
    \<Rightarrow> (eth_error + transaction option) \<times> send_state" where
  "send_attempt cfg walletBalance nd attemptNum s =
     (case try_block cfg nd attemptNum s of
        (Inr t, s1) \<Rightarrow> (Inr (Some t), s1)
      | (Inl e, s1) \<Rightarrow>
          (case e of
             InsufficientFunds \<Rightarrow>
               (case handleInsufficientFundsError (txData s1) walletBalance of
                  Inl e' \<Rightarrow> (Inl e', s1) | Inr _ \<Rightarrow> (Inr None, s1))
           | TimedOut \<Rightarrow> (Inr None, s1)
           | NonceExpired \<Rightarrow>
               (if attemptNum = 0 \<or> txResponses s1 = [] then (Inl e, s1)
                else (case checkForPreviousTransactionSuccess cfg nd (txResponses s1) of
                        Inl e' \<Rightarrow> (Inl e', s1) | Inr t \<Rightarrow> (Inr (Some t), s1)))
           | _ \<Rightarrow> (Inr None, s1)))"

text \<open>
  \<open>attempt(max, operation)\<close>: the node's answers are given for each attempt number.
\<close>

function attempt_from :: "nat \<Rightarrow> (nat \<Rightarrow> 's \<Rightarrow> (eth_error + 'r option) \<times> 's) \<Rightarrow> nat \<Rightarrow> 's
    \<Rightarrow> (eth_error + 'r) \<times> 's" where
  "attempt_from max_attempts operation k s =
     (if k < max_attempts
      then (case operation k s of
              (Inl e, s1) \<Rightarrow> (Inl e, s1)
            | (Inr (Some r), s1) \<Rightarrow> (Inr r, s1)
            | (Inr None, s1) \<Rightarrow> attempt_from max_attempts operation (Suc k) s1)
      else (Inl SendFailed, s))"
  by pat_completeness auto
termination
  by (relation "measure (\<lambda>(m, operation, k, s). m - k)") auto

declare attempt_from.simps [simp del]

text \<open>
  \<open>sendTransaction\<close> within \<open>withWalletBalance\<close>: the balance is read before and after, and an
  error of the second reading replaces the result.
\<close>

record balances =
  balance_before :: "eth_error + int"
  balance_after :: "eth_error + int"

definition sendTransaction :: "eth_config \<Rightarrow> (nat \<Rightarrow> node) \<Rightarrow> balances \<Rightarrow> tx_request
    \<Rightarrow> (eth_error + transaction) \<times> send_state" where
  "sendTransaction cfg nodes bal tx =
     (let s0 = \<lparr>txData = tx, txResponses = [], handed = []\<rparr>
      in case balance_before bal of
           Inl e \<Rightarrow> (Inl e, s0)
         | Inr balance \<Rightarrow>
             (case attempt_from MAX_RETRIES (\<lambda>k. send_attempt cfg balance (nodes k) k) 0 s0 of
                (Inl e, s) \<Rightarrow> (Inl e, s)
              | (Inr t, s) \<Rightarrow>
                  (case balance_after bal of Inl e \<Rightarrow> (Inl e, s) | Inr _ \<Rightarrow> (Inr t, s))))"

section \<open>Gas price properties\<close>

lemma bn_div_nonneg: "0 \<le> x \<Longrightarrow> bn_div x 10 = x div 10"
  by (cases "x = 0") (simp_all add: bn_div_def)

text \<open>
  increaseGasPricePerAttempt: on the first attempt the price is the estimate; on a later one
  it is the larger of the estimate raised by a tenth per attempt and the previous price raised
  by a tenth, tenths rounded down. So it never falls, it rises as soon as the previous price is
  at least 10, and it can miss the documented tenth by less than one unit only.
\<close>

theorem increaseGasPricePerAttempt_bounds:
  fixes estimate previous :: int and attempt :: nat
  assumes "0 \<le> estimate" and "0 \<le> previous"
  defines "price \<equiv> increaseGasPricePerAttempt estimate attempt (Some previous)"
  shows "(attempt = 0 \<longrightarrow> price = estimate)
    \<and> (0 < attempt \<longrightarrow> price = max (estimate + int attempt * (estimate div 10)) (previous + previous div 10)
         \<and> previous \<le> price \<and> (10 \<le> previous \<longrightarrow> previous < price) \<and> 11 * previous < 10 * price + 10)"
proof (cases "attempt = 0")
  case True
  then show ?thesis by (simp add: price_def increaseGasPricePerAttempt_def)
next
  case False
  then have price: "price = max (estimate + int attempt * (estimate div 10)) (previous + previous div 10)"
    using assms(1,2) by (simp add: price_def increaseGasPricePerAttempt_def Let_def bn_div_nonneg max_def ac_simps)
  have tenth: "previous < 10 * (previous div 10) + 10" "0 \<le> previous div 10" using assms(2) by simp_all
  then have "11 * previous < 10 * price + 10" using price by linarith
  moreover have "10 \<le> previous \<Longrightarrow> previous < price" using price by linarith
  moreover have "previous \<le> price" using price tenth(2) by linarith
  ultimately show ?thesis using False price by blast
qed

theorem increaseGasPricePerAttempt_bounds_witness:
  "\<exists>attempt. (attempt = 0 \<longrightarrow> increaseGasPricePerAttempt 100 attempt (Some 9) = 100)
    \<and> (0 < attempt \<longrightarrow> increaseGasPricePerAttempt 100 attempt (Some 9)
          = max (100 + int attempt * (100 div 10)) (9 + 9 div 10)
         \<and> 9 \<le> increaseGasPricePerAttempt 100 attempt (Some 9)
         \<and> (10 \<le> (9::int) \<longrightarrow> 9 < increaseGasPricePerAttempt 100 attempt (Some 9))
         \<and> 11 * 9 < 10 * increaseGasPricePerAttempt 100 attempt (Some 9) + 10)"
  by (rule exI [of _ 2], rule increaseGasPricePerAttempt_bounds) simp_all

section \<open>Sending properties\<close>

lemma attempt_from_inv:
  assumes "\<And>k s r s'. k < m \<Longrightarrow> I k s \<Longrightarrow> operation k s = (r, s') \<Longrightarrow> I (Suc k) s'"
    and "I k s" and "attempt_from m operation k s = (r, s')" and "k \<le> m"
  shows "\<exists>j \<le> m. I j s'"
  using assms(2-4)
proof (induction "m - k" arbitrary: k s)
  case 0
  then have "s' = s" by (subst (asm) attempt_from.simps) simp
  with 0 show ?case by auto
next
  case (Suc n)
  then have less: "k < m" by simp
  obtain r1 s1 where run: "operation k s = (r1, s1)" by fastforce
  have next_inv: "I (Suc k) s1" by (rule assms(1) [OF less Suc.prems(1) run])
  show ?case
  proof (cases "r1 = Inr None")
    case True
    then have "attempt_from m operation (Suc k) s1 = (r, s')"
      using Suc.prems(2) less run by (simp add: attempt_from.simps [of m operation k])
    with Suc.hyps(1) [of "Suc k" s1] Suc.hyps(2) next_inv less show ?thesis by simp
  next
    case False
    then have "s' = s1"
      using Suc.prems(2) less run
      by (cases r1) (auto simp: attempt_from.simps [of m operation k] split: option.splits)
    then show ?thesis using next_inv less by (intro exI [of _ "Suc k"]) simp
  qed
qed

text \<open>What an attempt adds to the state: at most one request is handed to the wallet.\<close>

lemma send_attempt_state:
  assumes "send_attempt cfg bal nd k s = (r, s')"
  obtains tx res where "setGasPrice cfg nd k (txData s) = (res, tx)" "txData s' = tx"
    "handed s' = handed s \<and> txResponses s' = txResponses s
     \<or> res = Inr () \<and> handed s' = handed s @ [tx]
       \<and> (txResponses s' = txResponses s
          \<or> (\<exists>response. trySendTransaction cfg nd tx = Inr response \<and> txResponses s' = txResponses s @ [response]))"
proof -
  obtain res tx where gas: "setGasPrice cfg nd k (txData s) = (res, tx)" by fastforce
  obtain r1 s1 where tried: "try_block cfg nd k s = (r1, s1)" by fastforce
  have "s' = s1"
    using assms tried by (auto simp: send_attempt_def split: sum.splits eth_error.splits if_splits)
  then show ?thesis
    using tried gas that [OF gas]
    by (auto simp: try_block_def Let_def split: sum.splits)
qed

text \<open>The parts of a request that \<open>setGasPrice\<close> never touches.\<close>

definition same_call :: "tx_request \<Rightarrow> tx_request \<Rightarrow> bool" where
  "same_call tx tx' \<longleftrightarrow> tx_to tx' = tx_to tx \<and> tx_data tx' = tx_data tx \<and> tx_nonce tx' = tx_nonce tx
     \<and> tx_from tx' = tx_from tx"

lemma setGasPrice_same_call: "setGasPrice cfg nd k tx = (r, tx') \<Longrightarrow> same_call tx tx'"
  by (auto simp: setGasPrice_def same_call_def Let_def split: if_splits sum.splits option.splits prod.splits)

text \<open>A node of an EIP-1559 chain quotes both fees, none of them negative.\<close>

definition quotes_1559 :: "node \<Rightarrow> bool" where
  "quotes_1559 nd \<longleftrightarrow> (\<forall>fees. getFeeData nd = Inr fees \<longrightarrow>
     (\<exists>tip fee. fd_maxPriorityFeePerGas fees = Some tip \<and> fd_maxFeePerGas fees = Some fee \<and> 0 \<le> tip \<and> tip \<le> fee))"

definition tip_of :: "tx_request \<Rightarrow> int" where
  "tip_of tx = (case maxPriorityFeePerGas tx of Some t \<Rightarrow> t | None \<Rightarrow> 0)"

text \<open>
  The tip after pricing attempt \<open>k\<close>: never negative, a tenth above the last one from the second
  attempt on, and the fee cap moves along so that it covers base fee and tip.
\<close>

lemma setGasPrice_tip:
  assumes "setGasPrice cfg nd k tx = (Inr (), tx')" and "quotes_1559 nd" and "\<not> overrideGasConfig cfg"
    and "0 \<le> tip_of tx"
  shows "maxPriorityFeePerGas tx' \<noteq> None \<and> 0 \<le> tip_of tx' \<and> (0 < k \<longrightarrow> tip_of tx + tip_of tx div 10 \<le> tip_of tx')
    \<and> (\<exists>fees tip fee. getFeeData nd = Inr fees \<and> fd_maxPriorityFeePerGas fees = Some tip
         \<and> fd_maxFeePerGas fees = Some fee \<and> maxFeePerGas tx' = Some (fee - tip + tip_of tx'))"
proof -
  obtain fees where fees: "getFeeData nd = Inr fees"
    using assms(1,3) by (auto simp: setGasPrice_def split: sum.splits)
  obtain tip fee where quoted: "fd_maxPriorityFeePerGas fees = Some tip" "fd_maxFeePerGas fees = Some fee" "0 \<le> tip"
    using assms(2) fees by (auto simp: quotes_1559_def)
  define prev where "prev = (case maxPriorityFeePerGas tx of Some p \<Rightarrow> p | None \<Rightarrow> tip)"
  define price where "price = increaseGasPricePerAttempt tip k (Some prev)"
  have tx': "maxPriorityFeePerGas tx' = Some price" "maxFeePerGas tx' = Some (fee - tip + price)"
    using assms(1,3) fees quoted by (auto simp: setGasPrice_def Let_def prev_def price_def split: sum.splits)
  have prev: "0 \<le> prev" "tip_of tx \<le> prev"
    using assms(4) quoted(3) by (auto simp: prev_def tip_of_def split: option.splits)
  have price: "0 \<le> price" "0 < k \<Longrightarrow> prev + prev div 10 \<le> price"
    using prev(1) quoted(3)
    by (auto simp: price_def increaseGasPricePerAttempt_def Let_def bn_div_nonneg)
  moreover have "tip_of tx + tip_of tx div 10 \<le> prev + prev div 10"
    using prev(2) by (simp add: add_mono zdiv_mono1)
  ultimately show ?thesis using tx' fees quoted by (auto simp: tip_of_def)
qed

lemma setGasPrice_tip_grows:
  assumes "setGasPrice cfg nd k tx = (r, tx')" and "quotes_1559 nd" and "\<not> overrideGasConfig cfg"
    and "0 \<le> tip_of tx" and "0 < k \<or> maxPriorityFeePerGas tx = None"
  shows "tip_of tx \<le> tip_of tx'"
proof (cases "getFeeData nd")
  case (Inl e)
  then show ?thesis using assms(1,3) by (simp add: setGasPrice_def)
next
  case (Inr fees)
  obtain tip fee where quoted: "fd_maxPriorityFeePerGas fees = Some tip" "fd_maxFeePerGas fees = Some fee" "0 \<le> tip"
    using assms(2) Inr by (auto simp: quotes_1559_def)
  define prev where "prev = (case maxPriorityFeePerGas tx of Some p \<Rightarrow> p | None \<Rightarrow> tip)"
  define price where "price = increaseGasPricePerAttempt tip k (Some prev)"
  have tx': "maxPriorityFeePerGas tx' = Some price"
    using assms(1,3) Inr quoted by (auto simp: setGasPrice_def Let_def prev_def price_def split: sum.splits)
  have prev: "0 \<le> prev" "tip_of tx \<le> prev"
    using assms(4) quoted(3) by (auto simp: prev_def tip_of_def split: option.splits)
  have "0 < k \<Longrightarrow> prev \<le> price" "k = 0 \<Longrightarrow> price = tip"
    using prev(1) quoted(3)
    by (auto simp: price_def increaseGasPricePerAttempt_def Let_def bn_div_nonneg)
  then show ?thesis
    using tx' prev(2) assms(5) quoted(3) by (cases "0 < k") (auto simp: tip_of_def)
qed

text \<open>The invariant of the attempts: one call, resubmitted with a rising tip.\<close>

definition resubmits :: "tx_request \<Rightarrow> nat \<Rightarrow> send_state \<Rightarrow> bool" where
  "resubmits tx k s \<longleftrightarrow> same_call tx (txData s) \<and> 0 \<le> tip_of (txData s)
     \<and> (k = 0 \<longrightarrow> maxPriorityFeePerGas (txData s) = None) \<and> length (handed s) \<le> k
     \<and> (\<forall>h\<in>set (handed s). same_call tx h)
     \<and> (handed s \<noteq> [] \<longrightarrow> 0 \<le> tip_of (last (handed s)) \<and> tip_of (last (handed s)) \<le> tip_of (txData s))
     \<and> (\<forall>i. Suc i < length (handed s) \<longrightarrow>
          tip_of (handed s ! i) + tip_of (handed s ! i) div 10 \<le> tip_of (handed s ! Suc i))"

lemma resubmits_step:
  assumes "resubmits tx k s" and "send_attempt cfg bal nd k s = (r, s')" and "quotes_1559 nd"
    and "\<not> overrideGasConfig cfg"
  shows "resubmits tx (Suc k) s'"
proof -
  obtain tx' res where gas: "setGasPrice cfg nd k (txData s) = (res, tx')" and tx': "txData s' = tx'"
    and hand: "handed s' = handed s \<or> res = Inr () \<and> handed s' = handed s @ [tx']"
    by (rule send_attempt_state [OF assms(2)]) auto
  have call: "same_call tx tx'"
    using setGasPrice_same_call [OF gas] assms(1) by (auto simp: resubmits_def same_call_def)
  have tip: "0 \<le> tip_of (txData s)" "0 < k \<or> maxPriorityFeePerGas (txData s) = None"
    using assms(1) by (auto simp: resubmits_def)
  have grows: "tip_of (txData s) \<le> tip_of tx'"
    by (rule setGasPrice_tip_grows [OF gas assms(3,4) tip])
  show ?thesis
  proof (cases "handed s' = handed s")
    case True
    then show ?thesis using assms(1) call grows tx' unfolding resubmits_def by auto
  next
    case False
    then have handed: "handed s' = handed s @ [tx']" and gas': "setGasPrice cfg nd k (txData s) = (Inr (), tx')"
      using hand gas by auto
    have step: "0 < k \<Longrightarrow> tip_of (txData s) + tip_of (txData s) div 10 \<le> tip_of tx'"
      using setGasPrice_tip [OF gas' assms(3,4) tip(1)] by blast
    have rise: "tip_of (handed s' ! i) + tip_of (handed s' ! i) div 10 \<le> tip_of (handed s' ! Suc i)"
      if i: "Suc i < length (handed s')" for i
    proof (cases "Suc i < length (handed s)")
      case True
      then show ?thesis using assms(1) by (simp add: resubmits_def handed nth_append)
    next
      case False
      then have last_one: "Suc i = length (handed s)" using i handed by simp
      then have k: "0 < k" using assms(1) by (auto simp: resubmits_def)
      have "handed s ! i = last (handed s)" using last_one by (metis diff_Suc_1 last_conv_nth length_0_conv nat.simps(3))
      moreover have "tip_of (last (handed s)) \<le> tip_of (txData s)"
        using assms(1) last_one by (auto simp: resubmits_def)
      ultimately have "tip_of (handed s ! i) + tip_of (handed s ! i) div 10
          \<le> tip_of (txData s) + tip_of (txData s) div 10"
        by (simp add: add_mono zdiv_mono1)
      then show ?thesis using step [OF k] last_one handed by (simp add: nth_append)
    qed
    show ?thesis
      using assms(1) call tip(1) grows tx' handed rise unfolding resubmits_def by auto
  qed
qed


text \<open>A node that times out on the first attempt, quotes less on the second, and then confirms.\<close>

definition example_node :: "nat \<Rightarrow> node" where
  "example_node k = \<lparr>getFeeData = Inr \<lparr>fd_maxFeePerGas = Some 300,
       fd_maxPriorityFeePerGas = Some (if k = 0 then 100 else 50), fd_gasPrice = None\<rparr>,
     estimateGas = (\<lambda>tx. Inr 21000), node_send = (\<lambda>tx. Inr \<lparr>rs_hash = ''h'', rs_chainId = 1\<rparr>),
     waitForTransaction = (\<lambda>rs. if k = 0 then Inl TimedOut else
       Inr \<lparr>byzantium = True, rc_status = Some 1, rc_transactionHash = ''h'', rc_blockNumber = 4\<rparr>),
     getBlock = (\<lambda>rc. Inr 99), wait_again = (\<lambda>rs. Inl TimedOut)\<rparr>"

definition example_eth :: eth_config where
  "example_eth = \<lparr>overrideGasConfig = False, configGasLimit = 1, ethChainId = Some 1,
     eth_useSmartContractAnchors = False, contractAddress = ''0xc'', walletAddress = ''0xw''\<rparr>"

definition example_tx :: tx_request where
  "example_tx = buildTransactionRequest example_eth (\<lambda>c. c) (\<lambda>c. c) 7 ''abc''"

definition example_balances :: balances where
  "example_balances = \<lparr>balance_before = Inr 1000, balance_after = Inr 900\<rparr>"

definition example_sent :: "(eth_error + transaction) \<times> send_state" where
  "example_sent = sendTransaction example_eth example_node example_balances example_tx"

lemma example_sent_values:
  "fst example_sent = Inr \<lparr>chain = ''eip155:1'', txHash = ''h'', blockNumber = 4, blockTimestamp = 99\<rparr>"
  "map tip_of (handed (snd example_sent)) = [100, 110]"
  by code_simp+


section \<open>What a returned transaction is\<close>

text \<open>Every response kept came from the wallet for a request handed to it, on the right chain.\<close>

definition responses_ok :: "eth_config \<Rightarrow> (nat \<Rightarrow> node) \<Rightarrow> send_state \<Rightarrow> bool" where
  "responses_ok cfg nodes s \<longleftrightarrow> (\<forall>response\<in>set (txResponses s).
     \<exists>k. \<exists>tx\<in>set (handed s). node_send (nodes k) tx = Inr response \<and> chain_id cfg = Inr (rs_chainId response))"

lemma responses_ok_step:
  assumes "responses_ok cfg nodes s" and "send_attempt cfg bal (nodes k) k s = (r, s')"
  shows "responses_ok cfg nodes s'"
proof (rule send_attempt_state [OF assms(2)])
  fix tx res
  assume step: "handed s' = handed s \<and> txResponses s' = txResponses s
     \<or> res = Inr () \<and> handed s' = handed s @ [tx]
       \<and> (txResponses s' = txResponses s
          \<or> (\<exists>response. trySendTransaction cfg (nodes k) tx = Inr response \<and> txResponses s' = txResponses s @ [response]))"
  have fresh: "node_send (nodes k) tx = Inr response \<and> chain_id cfg = Inr (rs_chainId response)"
    if "trySendTransaction cfg (nodes k) tx = Inr response" for response
    using that by (auto simp: trySendTransaction_def assertSameChainId_def err_simps split: if_splits)
  have old: "responses_ok cfg nodes s'" if "txResponses s' = txResponses s" "set (handed s) \<subseteq> set (handed s')"
    using assms(1) that unfolding responses_ok_def by (simp add: subset_iff) metis
  from step show ?thesis
  proof (elim disjE conjE exE)
    fix response
    assume new: "trySendTransaction cfg (nodes k) tx = Inr response" "txResponses s' = txResponses s @ [response]"
      and handed: "handed s' = handed s @ [tx]"
    show ?thesis
      unfolding responses_ok_def
    proof
      fix x
      assume "x \<in> set (txResponses s')"
      then consider "x = response" | "x \<in> set (txResponses s)" using new(2) by auto
      then show "\<exists>k. \<exists>tx\<in>set (handed s'). node_send (nodes k) tx = Inr x \<and> chain_id cfg = Inr (rs_chainId x)"
      proof cases
        case 1
        then show ?thesis using fresh [OF new(1)] handed by auto
      next
        case 2
        then show ?thesis using assms(1) handed unfolding responses_ok_def by (metis in_set_conv_decomp append_Cons append_assoc)
      qed
    qed
  qed (auto intro: old)
qed

text \<open>What a confirmation vouches for.\<close>

definition confirmed_by :: "eth_config \<Rightarrow> node \<Rightarrow> tx_response \<Rightarrow> transaction \<Rightarrow> bool" where
  "confirmed_by cfg nd response t \<longleftrightarrow>
     (\<exists>receipt. (waitForTransaction nd response = Inr receipt \<or> wait_again nd response = Inr receipt)
        \<and> \<not> (byzantium receipt \<and> rc_status receipt = Some 0)
        \<and> txHash t = rc_transactionHash receipt \<and> blockNumber t = rc_blockNumber receipt
        \<and> getBlock nd receipt = Inr (blockTimestamp t))"

lemma confirm_facts:
  assumes "confirmTransactionSuccess cfg wait (getBlock nd) response = Inr t"
    and "wait = waitForTransaction nd \<or> wait = wait_again nd"
  shows "confirmed_by cfg nd response t" and "\<exists>c. chain_id cfg = Inr c \<and> chain t = caipChainId c"
proof -
  obtain receipt time c where steps: "wait response = Inr receipt" "getBlock nd receipt = Inr time"
    "(if byzantium receipt then rc_status receipt else Some (- 1)) \<noteq> Some 0" "chain_id cfg = Inr c"
    "t = \<lparr>chain = caipChainId c, txHash = rc_transactionHash receipt, blockNumber = rc_blockNumber receipt,
      blockTimestamp = time\<rparr>"
    using assms(1) by (auto simp: confirmTransactionSuccess_def err_simps Let_def split: if_splits)
  then show "confirmed_by cfg nd response t" and "\<exists>c. chain_id cfg = Inr c \<and> chain t = caipChainId c"
    using assms(2) by (auto simp: confirmed_by_def)
qed

lemma check_previous_Inr:
  "check_previous cfg nd rs = Inr t \<Longrightarrow>
    \<exists>x\<in>set rs. confirmTransactionSuccess cfg (wait_again nd) (getBlock nd) x = Inr t"
  by (induction rs) (auto split: sum.splits)

lemma send_attempt_confirmed:
  assumes "send_attempt cfg bal nd k s = (Inr (Some t), s')"
  shows "\<exists>x\<in>set (txResponses s'). confirmed_by cfg nd x t \<and> (\<exists>c. chain_id cfg = Inr c \<and> chain t = caipChainId c)"
proof -
  obtain r1 s1 where tried: "try_block cfg nd k s = (r1, s1)" by fastforce
  show ?thesis
  proof (cases r1)
    case (Inr u)
    then have u: "u = t" "s1 = s'" using assms tried by (auto simp: send_attempt_def)
    then obtain response where "txResponses s' = txResponses s @ [response]"
      "confirmTransactionSuccess cfg (waitForTransaction nd) (getBlock nd) response = Inr t"
      using tried Inr by (auto simp: try_block_def Let_def split: sum.splits prod.splits)
    then show ?thesis using confirm_facts [of cfg "waitForTransaction nd" nd response t] by auto
  next
    case (Inl e)
    then have "s1 = s'" "checkForPreviousTransactionSuccess cfg nd (txResponses s1) = Inr t"
      using assms tried by (auto simp: send_attempt_def split: eth_error.splits sum.splits if_splits)
    then obtain x where "x \<in> set (txResponses s')"
      "confirmTransactionSuccess cfg (wait_again nd) (getBlock nd) x = Inr t"
      using check_previous_Inr [of cfg nd "rev (txResponses s1)" t]
      by (auto simp: checkForPreviousTransactionSuccess_def)
    then show ?thesis using confirm_facts [of cfg "wait_again nd" nd x t] by blast
  qed
qed

lemma attempt_from_Inr:
  assumes "\<And>k s r s'. k < m \<Longrightarrow> I s \<Longrightarrow> operation k s = (r, s') \<Longrightarrow> I s'"
    and "I s" and "attempt_from m operation k s = (Inr x, s')"
  shows "I s' \<and> (\<exists>j < m. \<exists>u. operation j u = (Inr (Some x), s'))"
  using assms(2,3)
proof (induction "m - k" arbitrary: k s)
  case 0
  then show ?case by (subst (asm) attempt_from.simps) simp
next
  case (Suc n)
  then have less: "k < m" by simp
  obtain r1 s1 where run: "operation k s = (r1, s1)" by fastforce
  have keep: "I s1" by (rule assms(1) [OF less Suc.prems(1) run])
  show ?case
  proof (cases "r1 = Inr None")
    case True
    then have "attempt_from m operation (Suc k) s1 = (Inr x, s')"
      using Suc.prems(2) less run by (simp add: attempt_from.simps [of m operation k])
    with Suc.hyps(1) [of "Suc k" s1] Suc.hyps(2) keep show ?thesis by simp
  next
    case False
    then have "r1 = Inr (Some x)" "s' = s1"
      using Suc.prems(2) less run
      by (cases r1; auto simp: attempt_from.simps [of m operation k] split: option.splits)+
    then show ?thesis using keep run less by blast
  qed
qed

text \<open>
  C31 (sendTransaction): a transaction is returned only if the wallet accepted one of the requests
  handed to it on the connected chain, and a receipt for that response was found, in a block
  whose time stamp is returned, that does not report failure.
\<close>

theorem sendTransaction_confirmed:
  assumes "sendTransaction cfg nodes bal tx = (Inr t, s)"
  shows "\<exists>k j request response. request \<in> set (handed s) \<and> node_send (nodes j) request = Inr response
    \<and> chain_id cfg = Inr (rs_chainId response) \<and> chain t = caipChainId (rs_chainId response)
    \<and> confirmed_by cfg (nodes k) response t"
proof -
  obtain b where run: "attempt_from MAX_RETRIES (\<lambda>k. send_attempt cfg b (nodes k) k) 0
      \<lparr>txData = tx, txResponses = [], handed = []\<rparr> = (Inr t, s)"
    using assms by (auto simp: sendTransaction_def Let_def split: prod.splits sum.splits)
  have "responses_ok cfg nodes s \<and> (\<exists>j < MAX_RETRIES. \<exists>u. send_attempt cfg b (nodes j) j u = (Inr (Some t), s))"
    by (rule attempt_from_Inr [where I = "responses_ok cfg nodes", OF _ _ run])
      (erule responses_ok_step, assumption, simp add: responses_ok_def)
  then obtain k u where ok: "responses_ok cfg nodes s"
    and final: "send_attempt cfg b (nodes k) k u = (Inr (Some t), s)" by blast
  obtain response c where "response \<in> set (txResponses s)" "confirmed_by cfg (nodes k) response t"
    "chain_id cfg = Inr c" "chain t = caipChainId c"
    using send_attempt_confirmed [OF final] by blast
  with ok show ?thesis unfolding responses_ok_def by fastforce
qed

theorem sendTransaction_confirmed_witness:
  "\<exists>k j request response. request \<in> set (handed (snd example_sent))
    \<and> node_send (example_node j) request = Inr response
    \<and> chain_id example_eth = Inr (rs_chainId response) \<and> ''eip155:1'' = caipChainId (rs_chainId response)
    \<and> confirmed_by example_eth (example_node k) response
        \<lparr>chain = ''eip155:1'', txHash = ''h'', blockNumber = 4, blockTimestamp = 99\<rparr>"
  using sendTransaction_confirmed [of example_eth example_node example_balances example_tx
      "\<lparr>chain = ''eip155:1'', txHash = ''h'', blockNumber = 4, blockTimestamp = 99\<rparr>" "snd example_sent"]
    example_sent_values(1)
  by (simp add: example_sent_def prod_eq_iff)

end
