(* ===== verification/Migrations.thy ===== *)
theory Migrations
  imports Anchor_Repository
begin

text \<open>
  The schema of the database: \<open>src/migrations\<close> as lists of statements, what the statements do to the
  catalog of the server, and \<open>runMigrations\<close> of \<open>src/src/db-connection.ts\<close>. The constraints that the models
  of the repositories rely on are proved to be those the migrations declare.
\<close>

section \<open>Catalogs\<close>

datatype sql_type = UUID | INTEGER | BOOLEAN | TIMESTAMP | VARCHAR "nat option" | JSONB

datatype default_expr = UuidGenerateV4 | Now | FalseValue

record column =
  col_name :: string
  col_type :: sql_type
  col_nullable :: bool
  col_default :: "default_expr option"

text \<open>
  A foreign key is its column with the table and column it refers to. An index has the name knex gives
  it, here the columns it was created for, and the columns it is on now.
\<close>

record sql_table =
  columns :: "column list"
  primary :: "string list"
  uniques :: "string list"
  foreigns :: "(string \<times> string \<times> string) list"
  indexes :: "(string list \<times> string list) list"

type_synonym catalog = "(string \<times> sql_table) list"

text \<open>A column as the table builder of knex or a raw \<open>add column\<close> declares it.\<close>

record column_spec =
  spec_column :: column
  spec_unique :: bool
  spec_primary :: bool
  spec_index :: bool
  spec_references :: "(string \<times> string) option"

datatype statement =
    CreateExtension string
  | CreateTable string "column_spec list"
  | DropTable string
  | AddColumn string column_spec
  | DropColumns string "string list"
  | RenameColumn string string string
  | CreateIndex string "string list"
  | DropIndex string "string list"

datatype schema_error =
    RelationExists string
  | NoRelation string
  | ColumnExists string
  | NoColumn string
  | UnexpectedStructure string
  | Referenced string
  | CannotRollback
  | MigrationsFailed schema_error

section \<open>What the statements do\<close>

definition has_column :: "sql_table \<Rightarrow> string \<Rightarrow> bool" where
  "has_column t c \<longleftrightarrow> c \<in> set (map col_name (columns t))"

definition add_column :: "column_spec \<Rightarrow> sql_table \<Rightarrow> schema_error + sql_table" where
  "add_column s t =
     (let c = col_name (spec_column s)
      in if has_column t c then Inl (ColumnExists c)
         else if spec_index s \<and> [c] \<in> fst ` set (indexes t) then Inl (RelationExists c)
         else Inr (t\<lparr>columns := columns t @ [spec_column s],
                primary := primary t @ (if spec_primary s then [c] else []),
                uniques := uniques t @ (if spec_unique s then [c] else []),
                foreigns := foreigns t @ (case spec_references s of None \<Rightarrow> [] | Some (u, d) \<Rightarrow> [(c, u, d)]),
                indexes := indexes t @ (if spec_index s then [([c], [c])] else [])\<rparr>))"

fun add_columns :: "column_spec list \<Rightarrow> sql_table \<Rightarrow> schema_error + sql_table" where
  "add_columns [] t = Inr t"
| "add_columns (s # ss) t = bindE (add_column s t) (add_columns ss)"

definition empty_table :: sql_table where
  "empty_table = \<lparr>columns = [], primary = [], uniques = [], foreigns = [], indexes = []\<rparr>"

text \<open>Dropping a column drops the constraints and indexes it is part of.\<close>

definition drop_column :: "string \<Rightarrow> sql_table \<Rightarrow> schema_error + sql_table" where
  "drop_column c t =
     (if \<not> has_column t c then Inl (NoColumn c)
      else Inr (t\<lparr>columns := filter (\<lambda>x. col_name x \<noteq> c) (columns t),
             primary := (if c \<in> set (primary t) then [] else primary t),
             uniques := filter (\<lambda>x. x \<noteq> c) (uniques t),
             foreigns := filter (\<lambda>(x, u, d). x \<noteq> c) (foreigns t),
             indexes := filter (\<lambda>(n, cs). c \<notin> set cs) (indexes t)\<rparr>))"

fun drop_columns :: "string list \<Rightarrow> sql_table \<Rightarrow> schema_error + sql_table" where
  "drop_columns [] t = Inr t"
| "drop_columns (c # cs) t = bindE (drop_column c t) (drop_columns cs)"

definition renamed :: "string \<Rightarrow> string \<Rightarrow> string \<Rightarrow> string" where
  "renamed a b x = (if x = a then b else x)"

definition rename_column :: "string \<Rightarrow> string \<Rightarrow> sql_table \<Rightarrow> schema_error + sql_table" where
  "rename_column a b t =
     (if \<not> has_column t a then Inl (NoColumn a)
      else if has_column t b then Inl (ColumnExists b)
      else Inr (t\<lparr>columns := map (\<lambda>x. x\<lparr>col_name := renamed a b (col_name x)\<rparr>) (columns t),
             primary := map (renamed a b) (primary t), uniques := map (renamed a b) (uniques t),
             foreigns := map (\<lambda>(x, u, d). (renamed a b x, u, d)) (foreigns t),
             indexes := map (\<lambda>(n, cs). (n, map (renamed a b) cs)) (indexes t)\<rparr>))"

definition create_index :: "string list \<Rightarrow> sql_table \<Rightarrow> schema_error + sql_table" where
  "create_index cs t =
     (case filter (\<lambda>c. \<not> has_column t c) cs of
        c # _ \<Rightarrow> Inl (NoColumn c)
      | [] \<Rightarrow> if cs \<in> fst ` set (indexes t) then Inl (RelationExists (concat cs))
              else Inr (t\<lparr>indexes := indexes t @ [(cs, cs)]\<rparr>))"

definition drop_index :: "string list \<Rightarrow> sql_table \<Rightarrow> schema_error + sql_table" where
  "drop_index cs t =
     (if cs \<notin> fst ` set (indexes t) then Inl (NoRelation (concat cs))
      else Inr (t\<lparr>indexes := filter (\<lambda>(n, x). n \<noteq> cs) (indexes t)\<rparr>))"

text \<open>
  A statement on one table of the catalog; \<open>refer\<close> renames what other tables refer to, and what they refer
  to can not be dropped.
\<close>

fun alter :: "string \<Rightarrow> (sql_table \<Rightarrow> schema_error + sql_table) \<Rightarrow> catalog \<Rightarrow> schema_error + catalog" where
  "alter n f [] = Inl (NoRelation n)"
| "alter n f ((m, t) # c) =
     (if m = n then bindE (f t) (\<lambda>t'. Inr ((m, t') # c)) else bindE (alter n f c) (\<lambda>c'. Inr ((m, t) # c')))"

definition refer :: "string \<Rightarrow> string \<Rightarrow> string \<Rightarrow> catalog \<Rightarrow> catalog" where
  "refer n a b = map (\<lambda>(m, t). (m, t\<lparr>foreigns := map (\<lambda>(x, u, d). (x, u, if u = n then renamed a b d else d)) (foreigns t)\<rparr>))"

definition referenced :: "string \<Rightarrow> string \<Rightarrow> catalog \<Rightarrow> bool" where
  "referenced n d c \<longleftrightarrow> list_ex (\<lambda>(m, t). list_ex (\<lambda>(x, v, e). v = n \<and> e = d) (foreigns t)) c"

fun execute :: "statement \<Rightarrow> catalog \<Rightarrow> schema_error + catalog" where
  "execute (CreateExtension e) c = Inr c"
| "execute (CreateTable n specs) c =
     (if n \<in> fst ` set c then Inl (RelationExists n)
      else bindE (add_columns specs empty_table) (\<lambda>t. Inr (c @ [(n, t)])))"
| "execute (DropTable n) c =
     (if n \<notin> fst ` set c then Inl (NoRelation n)
      else if list_ex (\<lambda>(m, t). m \<noteq> n \<and> n \<in> set (map (\<lambda>(x, v, e). v) (foreigns t))) c then Inl (Referenced n)
      else Inr (filter (\<lambda>(m, t). m \<noteq> n) c))"
| "execute (AddColumn n s) c = alter n (add_column s) c"
| "execute (DropColumns n cs) c =
     (case filter (\<lambda>d. referenced n d c) cs of
        d # _ \<Rightarrow> Inl (Referenced d)
      | [] \<Rightarrow> alter n (drop_columns cs) c)"
| "execute (RenameColumn n a b) c = bindE (alter n (rename_column a b) c) (\<lambda>c'. Inr (refer n a b c'))"
| "execute (CreateIndex n cs) c = alter n (create_index cs) c"
| "execute (DropIndex n cs) c = alter n (drop_index cs) c"

fun execute_all :: "statement list \<Rightarrow> catalog \<Rightarrow> schema_error + catalog" where
  "execute_all [] c = Inr c"
| "execute_all (s # ss) c = bindE (execute s c) (execute_all ss)"

lemma execute_all_append: "execute_all (xs @ ys) c = bindE (execute_all xs c) (execute_all ys)"
proof (induction xs arbitrary: c)
  case (Cons x xs)
  then show ?case by (cases "execute x c") simp_all
qed simp

section \<open>The migrations\<close>

definition spec :: "string \<Rightarrow> sql_type \<Rightarrow> bool \<Rightarrow> default_expr option \<Rightarrow> column_spec" where
  "spec n ty null d = \<lparr>spec_column = \<lparr>col_name = n, col_type = ty, col_nullable = null, col_default = d\<rparr>,
     spec_unique = False, spec_primary = False, spec_index = False, spec_references = None\<rparr>"

definition REQUEST_TABLE_NAME :: string where "REQUEST_TABLE_NAME = ''request''"
definition ANCHOR_TABLE_NAME :: string where "ANCHOR_TABLE_NAME = ''anchor''"
definition METADATA_TABLE_NAME :: string where "METADATA_TABLE_NAME = ''metadata''"

definition id_spec :: column_spec where
  "id_spec = (spec ''id'' UUID False (Some UuidGenerateV4))\<lparr>spec_unique := True, spec_primary := True\<rparr>"

definition stamp :: "string \<Rightarrow> column_spec" where
  "stamp n = spec n TIMESTAMP False (Some Now)"

definition createRequestTable :: "string \<Rightarrow> statement list" where
  "createRequestTable tableName =
     [CreateTable tableName [id_spec, spec ''status'' INTEGER False None,
        spec ''pinned'' BOOLEAN False (Some FalseValue), stamp ''created_at'', stamp ''updated_at''],
      AddColumn tableName ((spec ''cid'' (VARCHAR None) False None)\<lparr>spec_unique := True\<rparr>),
      AddColumn tableName (spec ''doc_id'' (VARCHAR None) False None),
      AddColumn tableName (spec ''message'' (VARCHAR None) True None)]"

definition createAnchorTable :: "string \<Rightarrow> statement list" where
  "createAnchorTable tableName =
     [CreateTable tableName [id_spec, stamp ''created_at'', stamp ''updated_at''],
      AddColumn tableName ((spec ''request_id '' UUID True None)
        \<lparr>spec_unique := True, spec_references := Some (''request'', ''id'')\<rparr>),
      AddColumn tableName (spec ''path'' (VARCHAR None) False None),
      AddColumn tableName (spec ''cid'' (VARCHAR None) False None),
      AddColumn tableName (spec ''proof_cid'' (VARCHAR None) False None)]"

text \<open>What knex reports of a column, and what the migration expects of tables that exist already.\<close>

record column_info =
  type_name :: string
  maxLength :: "nat option"
  null_allowed :: bool
  defaultValue :: "string option"

definition typeorm_info :: "string \<Rightarrow> bool \<Rightarrow> string option \<Rightarrow> column_info" where
  "typeorm_info ty null d = \<lparr>type_name = ty, maxLength = None, null_allowed = null, defaultValue = d\<rparr>"

definition REQUEST_TABLE_COLUMN_INFO :: "(string \<times> column_info) list" where
  "REQUEST_TABLE_COLUMN_INFO =
     [(''id'', typeorm_info ''uuid'' False (Some ''uuid_generate_v4()'')),
      (''status'', typeorm_info ''integer'' False None),
      (''pinned'', typeorm_info ''boolean'' False (Some ''false'')),
      (''created_at'', typeorm_info ''timestamp without time zone'' False (Some ''now()'')),
      (''updated_at'', typeorm_info ''timestamp without time zone'' False (Some ''now()'')),
      (''cid'', typeorm_info ''character varying'' False None),
      (''doc_id'', typeorm_info ''character varying'' False None),
      (''message'', typeorm_info ''character varying'' True None)]"

definition ANCHOR_TABLE_COLUMN_INFO :: "(string \<times> column_info) list" where
  "ANCHOR_TABLE_COLUMN_INFO =
     [(''id'', typeorm_info ''uuid'' False (Some ''uuid_generate_v4()'')),
      (''created_at'', typeorm_info ''timestamp without time zone'' False (Some ''now()'')),
      (''updated_at'', typeorm_info ''timestamp without time zone'' False (Some ''now()'')),
      (''request_id '', typeorm_info ''uuid'' True None),
      (''path'', typeorm_info ''character varying'' False None),
      (''cid'', typeorm_info ''character varying'' False None),
      (''proof_cid'', typeorm_info ''character varying'' False None)]"

fun sql_type_name :: "sql_type \<Rightarrow> string" where
  "sql_type_name UUID = ''uuid''"
| "sql_type_name INTEGER = ''integer''"
| "sql_type_name BOOLEAN = ''boolean''"
| "sql_type_name TIMESTAMP = ''timestamp without time zone''"
| "sql_type_name (VARCHAR n) = ''character varying''"
| "sql_type_name JSONB = ''jsonb''"

fun default_text :: "default_expr \<Rightarrow> string" where
  "default_text UuidGenerateV4 = ''uuid_generate_v4()''"
| "default_text Now = ''now()''"
| "default_text FalseValue = ''false''"

definition columnInfo :: "sql_table \<Rightarrow> string \<rightharpoonup> column_info" where
  "columnInfo t = map_of (map (\<lambda>c. (col_name c, \<lparr>type_name = sql_type_name (col_type c),
     maxLength = (case col_type c of VARCHAR n \<Rightarrow> n | _ \<Rightarrow> None), null_allowed = col_nullable c,
     defaultValue = map_option default_text (col_default c)\<rparr>)) (columns t))"

text \<open>\<open>verifyTableStructure\<close> is asynchronous: its result is a promise, and a promise is truthy.\<close>

datatype 'a promise = Promise 'a

definition truthy_promise :: "'a promise \<Rightarrow> bool" where
  "truthy_promise p = True"

definition verifyTableStructure :: "(string \<times> column_info) list \<Rightarrow> (string \<rightharpoonup> column_info) \<Rightarrow> bool promise" where
  "verifyTableStructure validColumnInfo columnInfoToVerify =
     Promise (list_all (\<lambda>(key, v). columnInfoToVerify key = Some v) validColumnInfo)"

definition create_or_verify :: "string \<Rightarrow> statement list \<Rightarrow> (string \<times> column_info) list \<Rightarrow> catalog \<Rightarrow> schema_error + catalog" where
  "create_or_verify n creation expected c =
     (case map_of c n of
        None \<Rightarrow> execute_all creation c
      | Some t \<Rightarrow>
          (let requestTableIsValid = verifyTableStructure expected (columnInfo t)
           in if \<not> truthy_promise requestTableIsValid then Inl (UnexpectedStructure n) else Inr c))"

definition up_create :: "catalog \<Rightarrow> schema_error + catalog" where
  "up_create c =
     bindE (execute (CreateExtension ''uuid-ossp'') c) (\<lambda>c.
     bindE (create_or_verify REQUEST_TABLE_NAME (createRequestTable REQUEST_TABLE_NAME) REQUEST_TABLE_COLUMN_INFO c) (\<lambda>c.
     create_or_verify ANCHOR_TABLE_NAME (createAnchorTable ANCHOR_TABLE_NAME) ANCHOR_TABLE_COLUMN_INFO c))"

definition down_create :: "catalog \<Rightarrow> schema_error + catalog" where
  "down_create c = Inl CannotRollback"

definition up_rename :: "statement list" where
  "up_rename = [RenameColumn ANCHOR_TABLE_NAME ''request_id '' ''request_id'',
     RenameColumn REQUEST_TABLE_NAME ''doc_id'' ''stream_id'']"

definition down_rename :: "statement list" where
  "down_rename = [RenameColumn ANCHOR_TABLE_NAME ''request_id'' ''request_id '',
     RenameColumn REQUEST_TABLE_NAME ''stream_id'' ''doc_id'']"

definition request_indexes :: "string list list" where
  "request_indexes = [[''stream_id''], [''created_at''], [''updated_at''], [''status'', ''created_at''], [''status'', ''updated_at'']]"

definition up_indexes :: "statement list" where
  "up_indexes = map (CreateIndex REQUEST_TABLE_NAME) request_indexes @ [CreateIndex ANCHOR_TABLE_NAME [''cid'']]"

definition down_indexes :: "statement list" where
  "down_indexes = map (DropIndex REQUEST_TABLE_NAME) request_indexes @ [DropIndex ANCHOR_TABLE_NAME [''cid'']]"

definition up_metadata :: "statement list" where
  "up_metadata = [CreateTable METADATA_TABLE_NAME
     [(spec ''stream_id'' (VARCHAR (Some 1024)) False None)\<lparr>spec_unique := True, spec_primary := True, spec_index := True\<rparr>,
      stamp ''created_at'', stamp ''updated_at'', stamp ''used_at'', spec ''metadata'' JSONB False None]]"

definition down_metadata :: "statement list" where
  "down_metadata = [DropTable METADATA_TABLE_NAME]"

definition up_origin :: "statement list" where
  "up_origin = [AddColumn REQUEST_TABLE_NAME ((spec ''origin'' (VARCHAR (Some 1024)) True None)\<lparr>spec_index := True\<rparr>),
     AddColumn REQUEST_TABLE_NAME (stamp ''timestamp'')]"

definition down_origin :: "statement list" where
  "down_origin = [DropColumns REQUEST_TABLE_NAME [''origin'', ''timestamp'']]"

text \<open>The directory in the order of the file names, each with its two directions.\<close>

definition migrations :: "(string \<times> (catalog \<Rightarrow> schema_error + catalog) \<times> (catalog \<Rightarrow> schema_error + catalog)) list" where
  "migrations =
     [(''20221004154924_create_anchor_and_request'', up_create, down_create),
      (''20221004155551_alter_anchor_and_update_rename_columns'', execute_all up_rename, execute_all down_rename),
      (''20221031220419_alter_request_add_indexes'', execute_all up_indexes, execute_all down_indexes),
      (''20221128160000_add_metadata'', execute_all up_metadata, execute_all down_metadata),
      (''20221128162000_alter_request_add_origin'', execute_all up_origin, execute_all down_origin)]"

text \<open>
  \<open>runMigrations\<close>: knex knows the names of the completed migrations, runs the pending ones in order, each in
  a transaction of its own, and stops at the first that fails.
\<close>

record schema_state =
  completed :: "string list"
  catalog :: catalog

fun run_pending :: "(string \<times> (catalog \<Rightarrow> schema_error + catalog) \<times> (catalog \<Rightarrow> schema_error + catalog)) list
    \<Rightarrow> schema_state \<Rightarrow> (schema_error + unit) \<times> schema_state" where
  "run_pending [] s = (Inr (), s)"
| "run_pending ((n, up, down) # ms) s =
     (case up (catalog s) of
        Inl e \<Rightarrow> (Inl e, s)
      | Inr c \<Rightarrow> run_pending ms (s\<lparr>completed := completed s @ [n], catalog := c\<rparr>))"

definition runMigrations :: "schema_state \<Rightarrow> (schema_error + unit) \<times> schema_state" where
  "runMigrations s =
     (let pendingMigrations = filter (\<lambda>m. fst m \<notin> set (completed s)) migrations
      in if 0 < length pendingMigrations then run_pending pendingMigrations s else (Inr (), s))"

definition migrate_on_connect :: "schema_state \<Rightarrow> (schema_error + unit) \<times> schema_state" where
  "migrate_on_connect s =
     (case runMigrations s of (Inl e, s') \<Rightarrow> (Inl (MigrationsFailed e), s') | (Inr u, s') \<Rightarrow> (Inr u, s'))"

section \<open>The schema the migrations lead to\<close>

definition plain :: "string \<Rightarrow> sql_type \<Rightarrow> bool \<Rightarrow> default_expr option \<Rightarrow> column" where
  "plain n ty null d = \<lparr>col_name = n, col_type = ty, col_nullable = null, col_default = d\<rparr>"

definition request_table :: sql_table where
  "request_table = \<lparr>columns =
       [plain ''id'' UUID False (Some UuidGenerateV4), plain ''status'' INTEGER False None,
        plain ''pinned'' BOOLEAN False (Some FalseValue), plain ''created_at'' TIMESTAMP False (Some Now),
        plain ''updated_at'' TIMESTAMP False (Some Now), plain ''cid'' (VARCHAR None) False None,
        plain ''stream_id'' (VARCHAR None) False None, plain ''message'' (VARCHAR None) True None,
        plain ''origin'' (VARCHAR (Some 1024)) True None, plain ''timestamp'' TIMESTAMP False (Some Now)],
     primary = [''id''], uniques = [''id'', ''cid''], foreigns = [],
     indexes = map (\<lambda>cs. (cs, cs)) (request_indexes @ [[''origin'']])\<rparr>"

definition anchor_table :: sql_table where
  "anchor_table = \<lparr>columns =
       [plain ''id'' UUID False (Some UuidGenerateV4), plain ''created_at'' TIMESTAMP False (Some Now),
        plain ''updated_at'' TIMESTAMP False (Some Now), plain ''request_id'' UUID True None,
        plain ''path'' (VARCHAR None) False None, plain ''cid'' (VARCHAR None) False None,
        plain ''proof_cid'' (VARCHAR None) False None],
     primary = [''id''], uniques = [''id'', ''request_id''], foreigns = [(''request_id'', ''request'', ''id'')],
     indexes = [([''cid''], [''cid''])]\<rparr>"

definition metadata_table :: sql_table where
  "metadata_table = \<lparr>columns =
       [plain ''stream_id'' (VARCHAR (Some 1024)) False None, plain ''created_at'' TIMESTAMP False (Some Now),
        plain ''updated_at'' TIMESTAMP False (Some Now), plain ''used_at'' TIMESTAMP False (Some Now),
        plain ''metadata'' JSONB False None],
     primary = [''stream_id''], uniques = [''stream_id''], foreigns = [], indexes = [([''stream_id''], [''stream_id''])]\<rparr>"

definition cas_schema :: catalog where
  "cas_schema = [(''request'', request_table), (''anchor'', anchor_table), (''metadata'', metadata_table)]"

definition fresh_database :: schema_state where
  "fresh_database = \<lparr>completed = [], catalog = []\<rparr>"

lemma migrations_reach_schema:
  "run_pending migrations fresh_database = (Inr (), \<lparr>completed = map fst migrations, catalog = cas_schema\<rparr>)"
  by code_simp

lemma migration_names: "distinct (map fst migrations)"
  by code_simp

lemma run_pending_append:
  "run_pending (xs @ ys) s = (case run_pending xs s of (Inl e, s') \<Rightarrow> (Inl e, s') | (Inr u, s') \<Rightarrow> run_pending ys s')"
  by (induction xs s rule: run_pending.induct) (auto split: sum.split)

lemma run_pending_completed:
  "run_pending ms s = (Inr u, s') \<Longrightarrow> completed s' = completed s @ map fst ms"
  by (induction ms s rule: run_pending.induct) (auto split: sum.splits)

text \<open>
  db-connection.ts, migrations: a database on which any first part of the migrations was run is
  brought to one and the same schema when the service connects, and a migrated one is left alone.
\<close>

theorem runMigrations_reaches_schema:
  assumes "run_pending (take k migrations) fresh_database = (Inr u, s)"
  shows "runMigrations s = (Inr (), \<lparr>completed = map fst migrations, catalog = cas_schema\<rparr>)"
proof -
  have names: "completed s = map fst (take k migrations)"
    using run_pending_completed [OF assms] by (simp add: fresh_database_def)
  have split: "migrations = take k migrations @ drop k migrations" by simp
  have dist: "set (map fst (take k migrations)) \<inter> set (map fst (drop k migrations)) = {}"
    using migration_names split by (metis distinct_append map_append)
  have "filter (\<lambda>m. fst m \<notin> set (map fst (take k migrations))) (take k migrations @ drop k migrations)
      = drop k migrations"
    using dist by (subst filter_append, subst filter_False, force, subst filter_True, force, simp)
  then have pending: "filter (\<lambda>m. fst m \<notin> set (completed s)) migrations = drop k migrations"
    by (simp add: names)
  have rest: "run_pending (drop k migrations) s = (Inr (), \<lparr>completed = map fst migrations, catalog = cas_schema\<rparr>)"
    using migrations_reach_schema run_pending_append [of "take k migrations" "drop k migrations" fresh_database]
    by (simp add: assms)
  show ?thesis
  proof (cases "drop k migrations = []")
    case True
    then show ?thesis using rest pending by (simp add: runMigrations_def)
  next
    case False
    then show ?thesis using rest by (simp add: runMigrations_def pending)
  qed
qed

theorem runMigrations_reaches_schema_witness:
  "\<exists>s. run_pending (take 2 migrations) fresh_database = (Inr (), s) \<and> length (catalog s) = 2
     \<and> runMigrations s = (Inr (), \<lparr>completed = map fst migrations, catalog = cas_schema\<rparr>)"
proof -
  have "fst (run_pending (take 2 migrations) fresh_database) = Inr ()"
    "length (catalog (snd (run_pending (take 2 migrations) fresh_database))) = 2" by code_simp+
  then show ?thesis
    using runMigrations_reaches_schema [of 2 "()" "snd (run_pending (take 2 migrations) fresh_database)"]
    by (intro exI [of _ "snd (run_pending (take 2 migrations) fresh_database)"]) (simp add: prod_eq_iff)
qed

lemma migrated_catalog: "catalog (snd (runMigrations fresh_database)) = cas_schema"
proof -
  have "runMigrations fresh_database = run_pending migrations fresh_database"
    by (simp add: runMigrations_def fresh_database_def migrations_def)
  then show ?thesis by (simp add: migrations_reach_schema)
qed

section \<open>Rows under the declared constraints\<close>

datatype sql_value = Null | Text string | Number int | Boolean bool | Time date

type_synonym sql_row = "string \<Rightarrow> sql_value"

fun has_type :: "sql_type \<Rightarrow> sql_value \<Rightarrow> bool" where
  "has_type UUID (Text s) = True"
| "has_type INTEGER (Number i) = True"
| "has_type BOOLEAN (Boolean b) = True"
| "has_type TIMESTAMP (Time t) = True"
| "has_type (VARCHAR None) (Text s) = True"
| "has_type (VARCHAR (Some n)) (Text s) = (length s \<le> n)"
| "has_type ty v = False"

definition cell_ok :: "column \<Rightarrow> sql_value \<Rightarrow> bool" where
  "cell_ok c v \<longleftrightarrow> (if v = Null then col_nullable c else has_type (col_type c) v)"

definition row_ok :: "sql_table \<Rightarrow> sql_row \<Rightarrow> bool" where
  "row_ok t r \<longleftrightarrow> list_all (\<lambda>c. cell_ok c (r (col_name c))) (columns t)"

text \<open>Two nulls do not clash; primary keys are not null.\<close>

definition unique_ok :: "string \<Rightarrow> sql_row list \<Rightarrow> bool" where
  "unique_ok c rows \<longleftrightarrow> distinct (filter (\<lambda>v. v \<noteq> Null) (map (\<lambda>r. r c) rows))"

definition table_ok :: "(string \<Rightarrow> sql_row list) \<Rightarrow> sql_table \<Rightarrow> sql_row list \<Rightarrow> bool" where
  "table_ok other t rows \<longleftrightarrow> list_all (row_ok t) rows
     \<and> list_all (\<lambda>c. unique_ok c rows) (uniques t)
     \<and> distinct (map (\<lambda>r. map r (primary t)) rows) \<and> (\<forall>r\<in>set rows. Null \<notin> set (map r (primary t)))
     \<and> list_all (\<lambda>(c, u, d). \<forall>r\<in>set rows. r c = Null \<or> r c \<in> (\<lambda>r. r d) ` set (other u)) (foreigns t)"

definition satisfies :: "catalog \<Rightarrow> (string \<Rightarrow> sql_row list) \<Rightarrow> bool" where
  "satisfies c contents \<longleftrightarrow> list_all (\<lambda>(n, t). table_ok contents t (contents n)) c"

definition text_or_null :: "string option \<Rightarrow> sql_value" where
  "text_or_null v = (case v of None \<Rightarrow> Null | Some s \<Rightarrow> Text s)"

text \<open>The rows of the models, as rows of the server.\<close>

definition request_row :: "request \<Rightarrow> sql_row" where
  "request_row r = (\<lambda>_. Null)(''id'' := Text (req_id r), ''status'' := Number (int (status_code (status r))),
     ''pinned'' := Boolean (pinned r), ''created_at'' := Time (createdAt r), ''updated_at'' := Time (updatedAt r),
     ''cid'' := Text (req_cid r), ''stream_id'' := Text (streamId r), ''message'' := text_or_null (message r),
     ''origin'' := text_or_null (origin r), ''timestamp'' := Time (timestamp r))"

definition anchor_row :: "stored_anchor \<Rightarrow> sql_row" where
  "anchor_row a = (\<lambda>_. Null)(''id'' := Text (anchor_id a), ''created_at'' := Time (anchor_createdAt a),
     ''updated_at'' := Time (anchor_updatedAt a), ''request_id'' := Text (requestId a), ''path'' := Text (path a),
     ''cid'' := Text (anchor_cid a), ''proof_cid'' := Text (proofCid a))"

definition server_rows :: "database \<Rightarrow> string \<Rightarrow> sql_row list" where
  "server_rows db n = (if n = ''request'' then map request_row (requests db)
     else if n = ''anchor'' then map anchor_row (anchors db) else [])"

lemma unique_text:
  assumes "\<And>x. row x c = Text (f x)"
  shows "unique_ok c (map row xs) \<longleftrightarrow> distinct (map f xs)"
proof -
  have "filter (\<lambda>v. v \<noteq> Null) (map (\<lambda>r. r c) (map row xs)) = map Text (map f xs)"
    by (induction xs) (simp_all add: assms)
  moreover have "inj_on Text A" for A by (simp add: inj_on_def)
  ultimately show ?thesis by (simp add: unique_ok_def distinct_map comp_inj_on_iff [symmetric] del: map_map)
qed

lemma primary_text:
  assumes "\<And>x. row x c = Text (f x)"
  shows "distinct (map (\<lambda>r. map r [c]) (map row xs)) \<longleftrightarrow> distinct (map f xs)"
    and "\<forall>r\<in>set (map row xs). Null \<notin> set (map r [c])"
proof -
  have "map (\<lambda>r. map r [c]) (map row xs) = map (\<lambda>x. [Text x]) (map f xs)" by (simp add: assms)
  moreover have "inj_on (\<lambda>x. [Text x]) A" for A by (simp add: inj_on_def)
  ultimately show "distinct (map (\<lambda>r. map r [c]) (map row xs)) \<longleftrightarrow> distinct (map f xs)"
    by (simp add: distinct_map del: map_map)
qed (simp add: assms)

lemma request_row_ok: "row_ok request_table (request_row r) \<longleftrightarrow> (\<forall>s. origin r = Some s \<longrightarrow> length s \<le> 1024)"
  by (cases "message r"; cases "origin r")
    (simp_all add: row_ok_def request_table_def plain_def cell_ok_def request_row_def text_or_null_def)

lemma anchor_row_ok: "row_ok anchor_table (anchor_row a)"
  by (simp add: row_ok_def anchor_table_def plain_def cell_ok_def anchor_row_def)

lemma request_table_ok:
  "table_ok other request_table (map request_row rs) \<longleftrightarrow> request_table_wf rs
     \<and> (\<forall>r\<in>set rs. \<forall>s. origin r = Some s \<longrightarrow> length s \<le> 1024)"
proof -
  have cells: "request_row r ''id'' = Text (req_id r)" "request_row r ''cid'' = Text (req_cid r)" for r
    by (simp_all add: request_row_def)
  have lists: "uniques request_table = [''id'', ''cid'']" "primary request_table = [''id'']" "foreigns request_table = []"
    by (simp_all add: request_table_def)
  have rows: "list_all (row_ok request_table) (map request_row rs)
      \<longleftrightarrow> (\<forall>r\<in>set rs. \<forall>s. origin r = Some s \<longrightarrow> length s \<le> 1024)"
    by (simp only: list_all_iff request_row_ok set_map ball_simps)
  show ?thesis
    unfolding table_ok_def request_table_wf_def lists rows list.pred_inject
      unique_text [where row = request_row, OF cells(1)] unique_text [where row = request_row, OF cells(2)]
      primary_text(1) [where row = request_row, OF cells(1)]
    using primary_text(2) [where row = request_row, OF cells(1), where xs = rs]
    by (simp only: list.pred_inject simp_thms) argo
qed

lemma anchor_table_ok:
  "table_ok (server_rows db) anchor_table (map anchor_row (anchors db)) \<longleftrightarrow> anchor_table_wf (anchors db)
     \<and> requestId ` set (anchors db) \<subseteq> req_id ` set (requests db)"
proof -
  have cells: "anchor_row a ''id'' = Text (anchor_id a)" "anchor_row a ''request_id'' = Text (requestId a)"
    "request_row r ''id'' = Text (req_id r)" for a r
    by (simp_all add: anchor_row_def request_row_def)
  have lists: "uniques anchor_table = [''id'', ''request_id'']" "primary anchor_table = [''id'']"
    "foreigns anchor_table = [(''request_id'', ''request'', ''id'')]" "server_rows db ''request'' = map request_row (requests db)"
    by (simp_all add: anchor_table_def server_rows_def)
  have rows: "list_all (row_ok anchor_table) (map anchor_row as)" for as
    by (simp add: list_all_iff anchor_row_ok)
  have refs: "(\<forall>r\<in>set (map anchor_row (anchors db)). r ''request_id'' = Null
        \<or> r ''request_id'' \<in> (\<lambda>r. r ''id'') ` set (map request_row (requests db)))
      \<longleftrightarrow> requestId ` set (anchors db) \<subseteq> req_id ` set (requests db)"
    by (auto simp: cells image_image)
  show ?thesis
    unfolding table_ok_def anchor_table_wf_def lists list.pred_inject prod.case refs
      unique_text [where row = anchor_row, OF cells(1)] unique_text [where row = anchor_row, OF cells(2)]
      primary_text(1) [where row = anchor_row, OF cells(1)]
    using primary_text(2) [where row = anchor_row, OF cells(1), where xs = "anchors db"] rows
    by (simp only: list.pred_inject simp_thms) argo
qed

lemma satisfies_iff:
  "satisfies cas_schema (server_rows db) \<longleftrightarrow> database_wf db
     \<and> (\<forall>r\<in>set (requests db). \<forall>s. origin r = Some s \<longrightarrow> length s \<le> 1024)"
proof -
  have "table_ok (server_rows db) metadata_table []"
    by (simp add: table_ok_def metadata_table_def unique_ok_def)
  moreover have "server_rows db ''request'' = map request_row (requests db)"
    "server_rows db ''anchor'' = map anchor_row (anchors db)" "server_rows db ''metadata'' = []"
    by (simp_all add: server_rows_def)
  ultimately show ?thesis
    unfolding satisfies_def cas_schema_def database_wf_def list.pred_inject prod.case
    by (simp only: request_table_ok anchor_table_ok list.pred_inject simp_thms) argo
qed

definition origin_fits :: "request \<Rightarrow> bool" where
  "origin_fits r \<longleftrightarrow> (case origin r of None \<Rightarrow> True | Some s \<Rightarrow> length s \<le> 1024)"

text \<open>
  C24 (migrations, repositories): the rows of a database of the models satisfy the constraints that the
  migrations declare exactly if the models' well-formedness holds and no origin is longer than its column.
\<close>

theorem declared_constraints_iff:
  "satisfies (catalog (snd (runMigrations fresh_database))) (server_rows db)
     \<longleftrightarrow> database_wf db \<and> list_all origin_fits (requests db)"
proof -
  have "list_all origin_fits (requests db) \<longleftrightarrow> (\<forall>r\<in>set (requests db). \<forall>s. origin r = Some s \<longrightarrow> length s \<le> 1024)"
    by (auto simp: list_all_iff origin_fits_def split: option.splits)
  then show ?thesis by (simp only: satisfies_iff migrated_catalog)
qed

section \<open>What an insertion leaves out\<close>

fun default_value :: "string \<Rightarrow> date \<Rightarrow> default_expr \<Rightarrow> sql_value" where
  "default_value new_id now UuidGenerateV4 = Text new_id"
| "default_value new_id now Now = Time now"
| "default_value new_id now FalseValue = Boolean False"

text \<open>The row an \<open>INSERT\<close> stores for the given values: a column left out gets its default.\<close>

definition declared_row :: "sql_table \<Rightarrow> string \<Rightarrow> date \<Rightarrow> (string \<Rightarrow> sql_value option) \<Rightarrow> sql_row" where
  "declared_row t new_id now g n =
     (case find (\<lambda>c. col_name c = n) (columns t) of
        None \<Rightarrow> Null
      | Some c \<Rightarrow> (case g n of Some v \<Rightarrow> v
          | None \<Rightarrow> (case col_default c of None \<Rightarrow> Null | Some e \<Rightarrow> default_value new_id now e)))"

definition not_null_ok :: "sql_table \<Rightarrow> sql_row \<Rightarrow> bool" where
  "not_null_ok t r \<longleftrightarrow> list_all (\<lambda>c. r (col_name c) = Null \<longrightarrow> col_nullable c) (columns t)"

text \<open>The values of an \<open>IDBRequest\<close>; knex inserts the default for a field that is \<open>undefined\<close>.\<close>

definition given_values :: "idb_request \<Rightarrow> string \<Rightarrow> sql_value option" where
  "given_values d = (\<lambda>_. None)(''id'' := map_option Text (db_id d),
     ''status'' := map_option (\<lambda>s. Number (int (status_code s))) (db_status d),
     ''cid'' := Some (Text (db_cid d)), ''stream_id'' := Some (Text (db_streamId d)),
     ''message'' := map_option Text (db_message d), ''pinned'' := map_option Boolean (db_pinned d),
     ''created_at'' := map_option Time (db_createdAt d), ''updated_at'' := map_option Time (db_updatedAt d),
     ''timestamp'' := map_option Time (db_timestamp d), ''origin'' := map_option Text (db_origin d))"

lemma declared_request_row:
  "declared_row request_table i t g ''id'' = (case g ''id'' of None \<Rightarrow> Text i | Some v \<Rightarrow> v)"
  "declared_row request_table i t g ''status'' = (case g ''status'' of None \<Rightarrow> Null | Some v \<Rightarrow> v)"
  "declared_row request_table i t g ''pinned'' = (case g ''pinned'' of None \<Rightarrow> Boolean False | Some v \<Rightarrow> v)"
  "declared_row request_table i t g ''created_at'' = (case g ''created_at'' of None \<Rightarrow> Time t | Some v \<Rightarrow> v)"
  "declared_row request_table i t g ''updated_at'' = (case g ''updated_at'' of None \<Rightarrow> Time t | Some v \<Rightarrow> v)"
  "declared_row request_table i t g ''cid'' = (case g ''cid'' of None \<Rightarrow> Null | Some v \<Rightarrow> v)"
  "declared_row request_table i t g ''stream_id'' = (case g ''stream_id'' of None \<Rightarrow> Null | Some v \<Rightarrow> v)"
  "declared_row request_table i t g ''message'' = (case g ''message'' of None \<Rightarrow> Null | Some v \<Rightarrow> v)"
  "declared_row request_table i t g ''origin'' = (case g ''origin'' of None \<Rightarrow> Null | Some v \<Rightarrow> v)"
  "declared_row request_table i t g ''timestamp'' = (case g ''timestamp'' of None \<Rightarrow> Time t | Some v \<Rightarrow> v)"
  by (simp_all add: declared_row_def request_table_def plain_def split: option.split)

lemma declared_row_undeclared: "n \<notin> set (map col_name (columns t)) \<Longrightarrow> declared_row t i now g n = Null"
  by (auto simp: declared_row_def find_Some_iff split: option.split)

lemma request_columns: "map col_name (columns request_table) = [''id'', ''status'', ''pinned'', ''created_at'', ''updated_at'',
    ''cid'', ''stream_id'', ''message'', ''origin'', ''timestamp'']"
  by (simp add: request_table_def plain_def)

lemma given_cells:
  "given_values d ''id'' = map_option Text (db_id d)"
  "given_values d ''status'' = map_option (\<lambda>s. Number (int (status_code s))) (db_status d)"
  "given_values d ''cid'' = Some (Text (db_cid d))" "given_values d ''stream_id'' = Some (Text (db_streamId d))"
  "given_values d ''message'' = map_option Text (db_message d)" "given_values d ''pinned'' = map_option Boolean (db_pinned d)"
  "given_values d ''created_at'' = map_option Time (db_createdAt d)"
  "given_values d ''updated_at'' = map_option Time (db_updatedAt d)"
  "given_values d ''timestamp'' = map_option Time (db_timestamp d)" "given_values d ''origin'' = map_option Text (db_origin d)"
  by (simp_all add: given_values_def)

lemma request_row_cells:
  "request_row r ''id'' = Text (req_id r)" "request_row r ''status'' = Number (int (status_code (status r)))"
  "request_row r ''pinned'' = Boolean (pinned r)" "request_row r ''created_at'' = Time (createdAt r)"
  "request_row r ''updated_at'' = Time (updatedAt r)" "request_row r ''cid'' = Text (req_cid r)"
  "request_row r ''stream_id'' = Text (streamId r)" "request_row r ''message'' = text_or_null (message r)"
  "request_row r ''origin'' = text_or_null (origin r)" "request_row r ''timestamp'' = Time (timestamp r)"
  by (simp_all add: request_row_def)

lemma request_row_undeclared: "n \<notin> set (map col_name (columns request_table)) \<Longrightarrow> request_row r n = Null"
  by (simp add: request_columns request_row_def)

lemma insert_row_request_table:
  "case insert_row new_id now d of
     Inr r \<Rightarrow> request_row r = declared_row request_table new_id now (given_values d)
       \<and> not_null_ok request_table (request_row r)
   | Inl e \<Rightarrow> e = NotNullViolation \<and> \<not> not_null_ok request_table (declared_row request_table new_id now (given_values d))"
proof (cases "db_status d")
  case None
  let ?c = "plain ''status'' INTEGER False None"
  have "?c \<in> set (columns request_table)" by (simp add: request_table_def)
  moreover have "declared_row request_table new_id now (given_values d) (col_name ?c) = Null" "\<not> col_nullable ?c"
    using None by (simp_all add: plain_def declared_request_row given_cells)
  ultimately have "\<not> not_null_ok request_table (declared_row request_table new_id now (given_values d))"
    unfolding not_null_ok_def list_all_iff by blast
  then show ?thesis using None by (simp add: insert_row_def)
next
  case (Some st)
  obtain r where r: "insert_row new_id now d = Inr r" using Some by (simp add: insert_row_def)
  have cell: "request_row r n = declared_row request_table new_id now (given_values d) n"
    if "n \<in> set (map col_name (columns request_table))" for n
    using that r Some unfolding request_columns
    by (simp add: insert_row_def, elim disjE)
      (simp_all add: declared_request_row given_cells request_row_cells text_or_null_def split: option.split,
       auto split: option.split)
  have "request_row r = declared_row request_table new_id now (given_values d)"
    using cell by (metis ext declared_row_undeclared request_row_undeclared)
  moreover have "not_null_ok request_table (request_row r)"
    by (simp add: not_null_ok_def request_table_def plain_def request_row_cells)
  ultimately show ?thesis by (simp add: r)
qed


end
