(* ===== verification/Migration_Rollback.thy ===== *)
theory Migration_Rollback
  imports Migrations
begin

text \<open>
  Rolling the migrations of \<open>src/migrations\<close> back: on a catalog whose constraints are about columns that
  exist, the \<open>down\<close> of every migration but the first undoes its \<open>up\<close> exactly, and what the first one
  accepts of tables that exist already.
\<close>

section \<open>Well-formed catalogs\<close>

definition column_names :: "sql_table \<Rightarrow> string set" where
  "column_names t = set (map col_name (columns t))"

definition mentioned :: "sql_table \<Rightarrow> string set" where
  "mentioned t = set (primary t) \<union> set (uniques t) \<union> (\<lambda>(x, v, d). x) ` set (foreigns t)
     \<union> (\<Union>(n, cs)\<in>set (indexes t). set cs)"

definition catalog_wf :: "catalog \<Rightarrow> bool" where
  "catalog_wf c \<longleftrightarrow> distinct (map fst c)
     \<and> (\<forall>(m, t)\<in>set c. mentioned t \<subseteq> column_names t
          \<and> (\<forall>(x, v, d)\<in>set (foreigns t). \<exists>u\<in>set c. fst u = v \<and> d \<in> column_names (snd u)))"

lemma has_column_names: "has_column t c \<longleftrightarrow> c \<in> column_names t"
  by (simp add: has_column_def column_names_def)

lemma catalog_wf_mentioned: "catalog_wf c \<Longrightarrow> (m, t) \<in> set c \<Longrightarrow> mentioned t \<subseteq> column_names t"
  by (auto simp: catalog_wf_def)

text \<open>A column a table does not have is not referred to.\<close>

lemma catalog_wf_unreferenced:
  assumes "catalog_wf c" and "map_of c n = Some t" and "b \<notin> column_names t" and "(m, u) \<in> set c"
  shows "(x, n, b) \<notin> set (foreigns u)"
proof
  assume "(x, n, b) \<in> set (foreigns u)"
  then obtain w where "w \<in> set c" "fst w = n" "b \<in> column_names (snd w)"
    using assms(1,4) unfolding catalog_wf_def by fastforce
  moreover have "distinct (map fst c)" using assms(1) by (simp add: catalog_wf_def)
  ultimately show False using assms(2,3) by (metis map_of_eq_Some_iff option.inject prod.collapse)
qed

section \<open>Statements on one table\<close>

lemma alter_None: "map_of c n = None \<Longrightarrow> alter n f c = Inl (NoRelation n)"
  by (induction c) (auto split: if_splits)

lemma alter_update:
  assumes "distinct (map fst c)" and "map_of c n = Some t" and "f t = Inr t'"
  shows "alter n f c = Inr (map (\<lambda>(m, u). if m = n then (m, t') else (m, u)) c)"
  using assms
proof (induction c)
  case (Cons p c)
  obtain m u where p: "p = (m, u)" by (cases p)
  show ?case
  proof (cases "m = n")
    case True
    then have "map (\<lambda>(m, u). if m = n then (m, t') else (m, u)) c = c"
      using Cons.prems(1) p True by (intro map_idI) (force split: if_splits)
    then show ?thesis using Cons.prems p True by simp
  next
    case False
    then show ?thesis using Cons p by simp
  qed
qed simp

lemma alter_Inr_iff:
  assumes "distinct (map fst c)"
  shows "alter n f c = Inr c' \<longleftrightarrow> (\<exists>t t'. map_of c n = Some t \<and> f t = Inr t'
    \<and> c' = map (\<lambda>(m, u). if m = n then (m, t') else (m, u)) c)"
proof (cases "map_of c n")
  case None
  then show ?thesis by (simp add: alter_None)
next
  case (Some t)
  show ?thesis
  proof (cases "f t")
    case (Inl e)
    have "alter n f c \<noteq> Inr c'" using Some Inl
      by (induction c arbitrary: c') (auto simp: bindE_Inr_iff split: if_splits)
    then show ?thesis using Inl Some by simp
  next
    case (Inr t')
    then show ?thesis using alter_update [OF assms Some, of f t'] Some by auto
  qed
qed

lemma alter_alter: "bindE (alter n f c) (alter n g) = alter n (\<lambda>t. bindE (f t) g) c"
proof (induction c)
  case (Cons p c)
  obtain m u where p: "p = (m, u)" by (cases p)
  show ?case
  proof (cases "m = n")
    case True
    then show ?thesis by (cases "f u") (simp_all add: p)
  next
    case False
    then show ?thesis using Cons.IH [symmetric] by (cases "alter n f c") (simp_all add: p)
  qed
qed simp

text \<open>One table changed and changed back is the catalog that was.\<close>

lemma alter_undone:
  assumes "distinct (map fst c)" and "alter n f c = Inr c'" and "\<And>t t'. map_of c n = Some t \<Longrightarrow> f t = Inr t' \<Longrightarrow> g t' = Inr t"
  shows "alter n g c' = Inr c"
proof -
  obtain t t' where t: "map_of c n = Some t" "f t = Inr t'"
    and c': "c' = map (\<lambda>(m, u). if m = n then (m, t') else (m, u)) c"
    using assms(1,2) by (auto simp: alter_Inr_iff)
  have names: "map fst c' = map fst c" by (simp add: c' case_prod_unfold comp_def if_distrib cong: if_cong)
  have "(n, t) \<in> set c" using t(1) by (rule map_of_SomeD)
  then have "(n, t') \<in> set c'" unfolding c' set_map by (rule rev_image_eqI) simp
  then have "map_of c' n = Some t'" using assms(1) names by (simp add: map_of_is_SomeI)
  then have "alter n g c' = Inr (map (\<lambda>(m, u). if m = n then (m, t) else (m, u)) c')"
    using alter_update [where f = g] assms(1,3) names t by simp
  moreover have "map (\<lambda>(m, u). if m = n then (m, t) else (m, u)) c' = c"
  proof -
    have "(m, u) \<in> set c \<Longrightarrow> m = n \<Longrightarrow> u = t" for m u
      using map_of_is_SomeI [OF assms(1)] t(1) by fastforce
    then show ?thesis unfolding c' map_map by (intro map_idI) (auto simp: case_prod_unfold)
  qed
  ultimately show ?thesis by simp
qed

section \<open>Renaming\<close>

text \<open>What renaming a column of the table \<open>n\<close> does to each table.\<close>

definition renaming :: "string \<Rightarrow> string \<Rightarrow> string \<Rightarrow> string \<times> sql_table \<Rightarrow> string \<times> sql_table" where
  "renaming n a b p =
     (let r = (if fst p = n then renamed a b else id)
      in (fst p, \<lparr>columns = map (\<lambda>x. x\<lparr>col_name := r (col_name x)\<rparr>) (columns (snd p)),
            primary = map r (primary (snd p)), uniques = map r (uniques (snd p)),
            foreigns = map (\<lambda>(x, v, d). (r x, v, if v = n then renamed a b d else d)) (foreigns (snd p)),
            indexes = map (\<lambda>(k, cs). (k, map r cs)) (indexes (snd p))\<rparr>))"

lemma execute_rename:
  assumes "distinct (map fst c)" and "map_of c n = Some t" and "has_column t a" and "\<not> has_column t b"
  shows "execute (RenameColumn n a b) c = Inr (map (renaming n a b) c)"
proof -
  obtain t' where t': "rename_column a b t = Inr t'" using assms(3,4) by (simp add: rename_column_def)
  have "(m, u) \<in> set c \<Longrightarrow> m = n \<Longrightarrow> u = t" for m u using assms(1,2) by (simp add: map_of_is_SomeI)
  then have "refer n a b (map (\<lambda>(m, u). if m = n then (m, t') else (m, u)) c) = map (renaming n a b) c"
    using t' assms(3,4) unfolding refer_def map_map
    by (intro map_cong refl) (auto simp: renaming_def rename_column_def Let_def case_prod_unfold)
  then show ?thesis using alter_update [where f = "rename_column a b", OF assms(1,2) t'] by simp
qed

lemma execute_rename_Inr:
  assumes "distinct (map fst c)" and "execute (RenameColumn n a b) c = Inr c'"
  obtains t where "map_of c n = Some t" and "has_column t a" and "\<not> has_column t b" and "c' = map (renaming n a b) c"
proof -
  obtain t t' where t: "map_of c n = Some t" "rename_column a b t = Inr t'"
    using assms by (auto simp: bindE_Inr_iff alter_Inr_iff [OF assms(1)])
  then have "has_column t a" "\<not> has_column t b" by (auto simp: rename_column_def split: if_splits)
  then show ?thesis using that t(1) execute_rename [OF assms(1) t(1)] assms(2) by simp
qed

lemma renaming_fst [simp]:
  "fst (renaming n a b p) = fst p" "fst \<circ> renaming n a b = fst"
  by (simp_all add: renaming_def Let_def fun_eq_iff)

lemma map_of_renaming: "map_of (map (renaming n a b) c) m = map_option (\<lambda>t. snd (renaming n a b (m, t))) (map_of c m)"
  by (induction c) (auto simp: renaming_def Let_def)

lemma renaming_columns:
  "column_names (snd (renaming n a b (m, t))) = (if m = n then renamed a b ` column_names t else column_names t)"
  by (auto simp: renaming_def Let_def column_names_def image_image)

lemma renaming_commute: "n \<noteq> m \<Longrightarrow> renaming n a b (renaming m x y p) = renaming m x y (renaming n a b p)"
  by (cases p) (auto simp: renaming_def Let_def)

lemma renaming_undone:
  assumes "catalog_wf c" and "map_of c n = Some t" and "\<not> has_column t b" and "p \<in> set c"
  shows "renaming n b a (renaming n a b p) = p"
proof -
  obtain m u where p: "p = (m, u)" by (cases p)
  have inverse: "renamed b a (renamed a b x) = x" if "x \<noteq> b" for x using that by (simp add: renamed_def)
  have foreign: "(x, n, b) \<notin> set (foreigns u)" for x
    using catalog_wf_unreferenced [OF assms(1,2)] assms(3,4) by (simp add: has_column_names p)
  have "m = n \<Longrightarrow> b \<notin> column_names u \<and> mentioned u \<subseteq> column_names u"
  proof -
    assume "m = n"
    moreover have "distinct (map fst c)" using assms(1) by (simp add: catalog_wf_def)
    ultimately have "u = t" using assms(2,4) p by (metis map_of_is_SomeI option.inject)
    then show ?thesis using catalog_wf_mentioned [OF assms(1)] assms(3,4) p by (auto simp: has_column_names)
  qed
  then have own: "m = n \<Longrightarrow> b \<notin> column_names u \<and> b \<notin> mentioned u" by blast
  show ?thesis
  proof (cases "m = n")
    case True
    have own: "b \<notin> column_names u" "b \<notin> mentioned u" using own True by simp_all
    have list: "map (\<lambda>x. renamed b a (renamed a b x)) l = l" if "b \<notin> set l" for l
      using that by (intro map_idI inverse) auto
    have "map (\<lambda>x. x\<lparr>col_name := renamed b a (renamed a b (col_name x))\<rparr>) (columns u) = columns u"
    proof (rule map_idI)
      fix x assume "x \<in> set (columns u)"
      then have "col_name x \<noteq> b" using own(1) by (auto simp: column_names_def)
      then show "x\<lparr>col_name := renamed b a (renamed a b (col_name x))\<rparr> = x" by (simp add: inverse)
    qed
    moreover have "map (\<lambda>x. renamed b a (renamed a b x)) (primary u) = primary u"
        "map (\<lambda>x. renamed b a (renamed a b x)) (uniques u) = uniques u"
      using own(2) by (simp_all add: mentioned_def list)
    moreover have "map (\<lambda>(x, v, d). (renamed b a (renamed a b x), v, if v = n then renamed b a (renamed a b d) else d)) (foreigns u) = foreigns u"
    proof (rule map_idI)
      fix q assume q: "q \<in> set (foreigns u)"
      obtain x v d where xvd: "q = (x, v, d)" by (cases q)
      then have "x \<noteq> b" "v = n \<Longrightarrow> d \<noteq> b" using own(2) foreign q by (force simp: mentioned_def)+
      then show "(case q of (x, v, d) \<Rightarrow> (renamed b a (renamed a b x), v, if v = n then renamed b a (renamed a b d) else d)) = q"
        by (simp add: inverse xvd)
    qed
    moreover have "map (\<lambda>(k, cs). (k, map (\<lambda>x. renamed b a (renamed a b x)) cs)) (indexes u) = indexes u"
    proof (rule map_idI)
      fix q assume q: "q \<in> set (indexes u)"
      obtain k cs where kcs: "q = (k, cs)" by (cases q)
      then have "b \<notin> set cs" using own(2) q by (force simp: mentioned_def)
      then show "(case q of (k, cs) \<Rightarrow> (k, map (\<lambda>x. renamed b a (renamed a b x)) cs)) = q" by (simp add: list kcs)
    qed
    ultimately show ?thesis using True
      by (simp add: p renaming_def Let_def comp_def case_prod_unfold cong: if_cong)
  next
    case False
    have "map (\<lambda>(x, v, d). (x, v, if v = n then renamed b a (renamed a b d) else d)) (foreigns u) = foreigns u"
      using foreign by (intro map_idI) (clarsimp, metis inverse)
    then show ?thesis using False by (simp add: p renaming_def Let_def comp_def case_prod_unfold cong: if_cong)
  qed
qed

lemma rename_rollback:
  assumes "catalog_wf c" and "execute_all up_rename c = Inr c'"
  shows "execute_all down_rename c' = Inr c"
proof -
  let ?A = "renaming ''anchor'' ''request_id '' ''request_id''" and ?R = "renaming ''request'' ''doc_id'' ''stream_id''"
  let ?A' = "renaming ''anchor'' ''request_id'' ''request_id ''" and ?R' = "renaming ''request'' ''stream_id'' ''doc_id''"
  have dist: "distinct (map fst c)" using assms(1) by (simp add: catalog_wf_def)
  obtain c1 where c1: "execute (RenameColumn ''anchor'' ''request_id '' ''request_id'') c = Inr c1"
    "execute (RenameColumn ''request'' ''doc_id'' ''stream_id'') c1 = Inr c'"
    using assms(2) by (auto simp: up_rename_def ANCHOR_TABLE_NAME_def REQUEST_TABLE_NAME_def bindE_Inr_iff)
  obtain t where t: "map_of c ''anchor'' = Some t" "has_column t ''request_id ''" "\<not> has_column t ''request_id''" "c1 = map ?A c"
    using execute_rename_Inr [OF dist c1(1)] .
  have dist1: "distinct (map fst c1)" using dist by (simp add: t(4))
  obtain u1 where u1: "map_of c1 ''request'' = Some u1" "has_column u1 ''doc_id''" "\<not> has_column u1 ''stream_id''" "c' = map ?R c1"
    using execute_rename_Inr [OF dist1 c1(2)] .
  obtain u where u: "map_of c ''request'' = Some u" "column_names u1 = column_names u"
    using u1(1) by (auto simp: t(4) map_of_renaming renaming_columns)
  have c': "c' = map (\<lambda>p. ?R (?A p)) c" by (simp add: u1(4) t(4))
  have dist': "distinct (map fst c')" using dist1 by (simp add: u1(4))
  have step1: "execute (RenameColumn ''anchor'' ''request_id'' ''request_id '') c' = Inr (map ?A' c')"
  proof (rule execute_rename [OF dist'])
    show "map_of c' ''anchor'' = Some (snd (?R (''anchor'', snd (?A (''anchor'', t)))))"
      using t(1) by (simp add: u1(4) t(4) map_of_renaming del: map_map)
  qed (use t(2,3) in \<open>auto simp: has_column_names renaming_columns renamed_def\<close>)
  have step2: "execute (RenameColumn ''request'' ''stream_id'' ''doc_id'') (map ?A' c') = Inr (map ?R' (map ?A' c'))"
  proof (rule execute_rename)
    show "distinct (map fst (map ?A' c'))" using dist' by simp
    show "map_of (map ?A' c') ''request'' = Some (snd (?A' (''request'', snd (?R (''request'', snd (?A (''request'', u)))))))"
      using u by (simp add: u1(4) t(4) map_of_renaming del: map_map)
  qed (use u u1(2,3) in \<open>auto simp: has_column_names renaming_columns renamed_def\<close>)
  have "?R' (?A' (?R (?A p))) = p" if "p \<in> set c" for p
  proof -
    have "?A' (?R (?A p)) = ?R (?A' (?A p))" by (rule renaming_commute) simp
    also have "?A' (?A p) = p" by (rule renaming_undone [OF assms(1) t(1,3) that])
    finally show ?thesis
      using renaming_undone [OF assms(1) u(1) _ that] u(2) u1(3) by (simp add: has_column_names)
  qed
  then have "map ?R' (map ?A' c') = c" unfolding c' map_map by (intro map_idI) simp
  then show ?thesis using step1 step2
    by (simp add: down_rename_def ANCHOR_TABLE_NAME_def REQUEST_TABLE_NAME_def)
qed

section \<open>Indexes\<close>

fun each :: "('a \<Rightarrow> 't \<Rightarrow> 'e + 't) \<Rightarrow> 'a list \<Rightarrow> 't \<Rightarrow> 'e + 't" where
  "each f [] t = Inr t"
| "each f (x # xs) t = bindE (f x t) (each f xs)"

lemma alter_Inr_self: "n \<in> fst ` set c \<Longrightarrow> alter n Inr c = Inr c"
proof (induction c)
  case (Cons p c)
  then show ?case by (cases p; cases "fst p = n") auto
qed simp

lemma alter_names: "alter n f c = Inr c' \<Longrightarrow> map fst c' = map fst c"
  by (induction c arbitrary: c') (auto simp: bindE_Inr_iff split: if_splits)

lemma execute_all_each:
  assumes "\<And>x. execute (st x) = alter n (f x)"
  shows "n \<in> fst ` set c \<Longrightarrow> execute_all (map st xs) c = alter n (each f xs) c"
proof (induction xs arbitrary: c)
  case Nil
  have "each f [] = Inr" by (simp add: fun_eq_iff)
  then show ?case using Nil by (simp add: alter_Inr_self)
next
  case (Cons x xs)
  have "n \<in> fst ` set c1" if "alter n (f x) c = Inr c1" for c1
    using Cons.prems alter_names [OF that] by (metis set_map)
  then have "execute_all (map st (x # xs)) c = bindE (alter n (f x) c) (alter n (each f xs))"
    using Cons.IH by (cases "alter n (f x) c") (auto simp: assms)
  then show ?case by (simp add: alter_alter)
qed

lemma each_create_index:
  "each create_index xs t = Inr t' \<Longrightarrow> t' = t\<lparr>indexes := indexes t @ map (\<lambda>x. (x, x)) xs\<rparr>
     \<and> distinct xs \<and> set xs \<inter> fst ` set (indexes t) = {}"
proof (induction xs arbitrary: t)
  case (Cons x xs)
  then obtain t1 where t1: "create_index x t = Inr t1" "each create_index xs t1 = Inr t'" by (auto simp: bindE_Inr_iff)
  then have "x \<notin> fst ` set (indexes t)" "t1 = t\<lparr>indexes := indexes t @ [(x, x)]\<rparr>"
    by (auto simp: create_index_def split: list.splits if_splits)
  with Cons.IH [OF t1(2)] show ?case by auto
qed simp

lemma each_drop_index:
  "distinct xs \<Longrightarrow> set xs \<inter> fst ` set ixs = {} \<Longrightarrow>
     each drop_index xs (t\<lparr>indexes := ixs @ map (\<lambda>x. (x, x)) xs\<rparr>) = Inr (t\<lparr>indexes := ixs\<rparr>)"
proof (induction xs)
  case (Cons x xs)
  have "filter (\<lambda>(n, y). n \<noteq> x) ixs = ixs" "filter (\<lambda>(n, y). n \<noteq> x) (map (\<lambda>y. (y, y)) xs) = map (\<lambda>y. (y, y)) xs"
    using Cons.prems by (force simp: filter_id_conv)+
  then show ?case using Cons by (simp add: drop_index_def)
qed simp

lemma each_create_index_undone: "each create_index xs t = Inr t' \<Longrightarrow> each drop_index xs t' = Inr t"
  by (drule each_create_index) (simp add: each_drop_index)

lemma alter_Inr_known: "alter n f c = Inr c' \<Longrightarrow> n \<in> fst ` set c \<and> n \<in> fst ` set c'"
  by (induction c arbitrary: c') (auto simp: bindE_Inr_iff split: if_splits)

lemma execute_all_each_known:
  assumes "\<And>x. execute (st x) = alter n (f x)" and "execute_all (map st (x # xs)) c = Inr c'"
  shows "alter n (each f (x # xs)) c = Inr c'"
proof -
  obtain c1 where "alter n (f x) c = Inr c1" using assms(2) by (auto simp: assms(1) bindE_Inr_iff)
  then have "n \<in> fst ` set c" using alter_Inr_known by blast
  from execute_all_each [of st n f, OF assms(1) this] assms(2) show ?thesis by (simp only:)
qed

text \<open>Statements on different tables do not meet.\<close>

lemma alter_other:
  assumes "distinct (map fst c)" and "n \<noteq> m" and "alter n f c = Inr c1" and "alter m g c1 = Inr c2"
  shows "\<exists>c3. alter m g c = Inr c3 \<and> alter n f c3 = Inr c2"
  using assms
proof (induction c arbitrary: c1 c2)
  case (Cons p c)
  obtain k u where p: "p = (k, u)" by (cases p)
  consider "k = n" | "k = m" | "k \<noteq> n" "k \<noteq> m" by blast
  then show ?case
  proof cases
    case 1
    then show ?thesis using Cons.prems(2-4) p by (auto simp: bindE_Inr_iff)
  next
    case 2
    then show ?thesis using Cons.prems(2-4) p by (auto simp: bindE_Inr_iff)
  next
    case 3
    then obtain d1 d2 where d: "alter n f c = Inr d1" "alter m g d1 = Inr d2" "c2 = (k, u) # d2"
      using Cons.prems(3,4) p by (auto simp: bindE_Inr_iff)
    have "distinct (map fst c)" using Cons.prems(1) by simp
    then obtain c3 where "alter m g c = Inr c3" "alter n f c3 = Inr d2"
      using Cons.IH [OF _ Cons.prems(2) d(1,2)] by blast
    then show ?thesis using 3 p d(3) by simp
  qed
qed simp

lemma indexes_rollback:
  assumes "catalog_wf c" and "execute_all up_indexes c = Inr c'"
  shows "execute_all down_indexes c' = Inr c"
proof -
  let ?n = "REQUEST_TABLE_NAME" and ?m = "ANCHOR_TABLE_NAME" and ?xs = request_indexes and ?ys = "[[''cid'']]"
  obtain x xs where xs: "?xs = x # xs" by (simp add: request_indexes_def)
  have dist: "distinct (map fst c)" using assms(1) by (simp add: catalog_wf_def)
  have nm: "?m \<noteq> ?n" by (simp add: REQUEST_TABLE_NAME_def ANCHOR_TABLE_NAME_def)
  obtain c1 where "execute_all (map (CreateIndex ?n) ?xs) c = Inr c1" "execute_all (map (CreateIndex ?m) ?ys) c1 = Inr c'"
    using assms(2) by (auto simp: up_indexes_def execute_all_append bindE_Inr_iff)
  then have c1: "alter ?n (each create_index ?xs) c = Inr c1" "alter ?m (each create_index ?ys) c1 = Inr c'"
    unfolding xs by (auto intro!: execute_all_each_known [where st = "CreateIndex _"] simp: fun_eq_iff)
  have dist1: "distinct (map fst c1)" using dist alter_names [OF c1(1)] by simp
  have undo1: "alter ?n (each drop_index ?xs) c1 = Inr c"
    by (rule alter_undone [OF dist c1(1)]) (rule each_create_index_undone)
  have "alter ?m (each drop_index ?ys) c' = Inr c1"
    by (rule alter_undone [OF dist1 c1(2)]) (rule each_create_index_undone)
  moreover have "distinct (map fst c')" using dist1 alter_names [OF c1(2)] by simp
  ultimately obtain c3 where c3: "alter ?n (each drop_index ?xs) c' = Inr c3" "alter ?m (each drop_index ?ys) c3 = Inr c"
    using alter_other [OF _ nm _ undo1] by blast
  have "execute_all (map (DropIndex ?n) ?xs) c' = Inr c3" "execute_all (map (DropIndex ?m) ?ys) c3 = Inr c"
    using c3 alter_Inr_known
    by (auto simp del: each.simps list.map intro!: trans [OF execute_all_each [where st = "DropIndex _"]] simp: fun_eq_iff)
  then show ?thesis by (simp add: down_indexes_def execute_all_append)
qed

section \<open>The other migrations\<close>

lemma metadata_rollback:
  assumes "catalog_wf c" and "execute_all up_metadata c = Inr c'"
  shows "execute_all down_metadata c' = Inr c"
proof -
  obtain t where t: "''metadata'' \<notin> fst ` set c" "c' = c @ [(''metadata'', t)]" "foreigns t = []"
    using assms(2) by (auto simp: up_metadata_def METADATA_TABLE_NAME_def bindE_Inr_iff add_column_def empty_table_def
        spec_def stamp_def Let_def split: if_splits)
  have "\<not> list_ex (\<lambda>(m, t). m \<noteq> ''metadata'' \<and> ''metadata'' \<in> set (map (\<lambda>(x, v, e). v) (foreigns t))) c'"
    using assms(1) t unfolding catalog_wf_def by (fastforce simp: list_ex_iff)
  moreover have "filter (\<lambda>(m, t). m \<noteq> ''metadata'') c = c" using t(1) by (force simp: filter_id_conv)
  ultimately show ?thesis using t by (simp add: down_metadata_def METADATA_TABLE_NAME_def)
qed

lemma drop_columns_added:
  assumes "mentioned t \<subseteq> column_names t" and "''origin'' \<notin> column_names t" and "''timestamp'' \<notin> column_names t"
    and "t' = t\<lparr>columns := columns t @ [x, y], indexes := indexes t @ [([''origin''], [''origin''])]\<rparr>"
    and "col_name x = ''origin''" and "col_name y = ''timestamp''"
  shows "drop_columns [''origin'', ''timestamp''] t' = Inr t"
proof -
  have not: "c \<notin> set (primary t)" "filter (\<lambda>x. x \<noteq> c) (uniques t) = uniques t"
    "filter (\<lambda>(x, v, d). x \<noteq> c) (foreigns t) = foreigns t" "filter (\<lambda>(n, cs). c \<notin> set cs) (indexes t) = indexes t"
    "filter (\<lambda>x. col_name x \<noteq> c) (columns t) = columns t"
    if "c \<notin> column_names t" for c
  proof -
    have "c \<notin> mentioned t" using that assms(1) by blast
    then show "c \<notin> set (primary t)" "filter (\<lambda>x. x \<noteq> c) (uniques t) = uniques t"
      "filter (\<lambda>(x, v, d). x \<noteq> c) (foreigns t) = foreigns t" "filter (\<lambda>(n, cs). c \<notin> set cs) (indexes t) = indexes t"
      by (force simp: mentioned_def filter_id_conv)+
    show "filter (\<lambda>x. col_name x \<noteq> c) (columns t) = columns t"
      using that by (force simp: column_names_def filter_id_conv)
  qed
  show ?thesis
    by (simp add: assms(4-6) drop_column_def has_column_def not [OF assms(2)] not [OF assms(3)])
qed

lemma origin_rollback:
  assumes "catalog_wf c" and "execute_all up_origin c = Inr c'"
  shows "execute_all down_origin c' = Inr c"
proof -
  let ?x = "spec ''origin'' (VARCHAR (Some 1024)) True None" and ?y = "stamp ''timestamp''"
  let ?up = "\<lambda>t. bindE (add_column (?x\<lparr>spec_index := True\<rparr>) t) (add_column ?y)"
  have dist: "distinct (map fst c)" using assms(1) by (simp add: catalog_wf_def)
  have up: "alter ''request'' ?up c = Inr c'"
    using assms(2) by (auto simp: up_origin_def REQUEST_TABLE_NAME_def alter_alter [symmetric] bindE_Inr_iff)
  have added: "''origin'' \<notin> column_names t \<and> ''timestamp'' \<notin> column_names t
      \<and> t' = t\<lparr>columns := columns t @ [spec_column ?x, spec_column ?y], indexes := indexes t @ [([''origin''], [''origin''])]\<rparr>"
    if "?up t = Inr t'" for t t'
    using that by (auto simp: add_column_def bindE_Inr_iff Let_def has_column_names spec_def stamp_def column_names_def
        split: if_splits)
  have "alter ''request'' (drop_columns [''origin'', ''timestamp'']) c' = Inr c"
  proof (rule alter_undone [OF dist up])
    fix t t' assume t: "map_of c ''request'' = Some t" "?up t = Inr t'"
    then have "mentioned t \<subseteq> column_names t" using catalog_wf_mentioned [OF assms(1)] map_of_SomeD by metis
    then show "drop_columns [''origin'', ''timestamp''] t' = Inr t"
      using added [OF t(2)] by (intro drop_columns_added) (auto simp: spec_def stamp_def)
  qed
  moreover have "filter (\<lambda>d. referenced ''request'' d c') [''origin'', ''timestamp''] = []"
  proof -
    obtain t t' where t: "map_of c ''request'' = Some t" "?up t = Inr t'"
      and c': "c' = map (\<lambda>(m, u). if m = ''request'' then (m, t') else (m, u)) c"
      using up by (auto simp: alter_Inr_iff [OF dist])
    have "foreigns t' = foreigns t" using added [OF t(2)] by simp
    then have "(m, u) \<in> set c' \<Longrightarrow> \<exists>u'. (m, u') \<in> set c \<and> foreigns u = foreigns u'" for m u
      using map_of_SomeD [OF t(1)] by (auto simp: c' split: if_splits)
    then have "\<not> referenced ''request'' d c'" if "d \<notin> column_names t" for d
      using catalog_wf_unreferenced [OF assms(1) t(1) that] by (fastforce simp: referenced_def list_ex_iff)
    then show ?thesis using added [OF t(2)] by simp
  qed
  ultimately show ?thesis by (simp add: down_origin_def REQUEST_TABLE_NAME_def)
qed



section \<open>Tables that exist already\<close>

text \<open>The tables the migration creates have the structure it asks of tables that exist.\<close>

lemma created_tables_verify:
  "case execute_all (createRequestTable REQUEST_TABLE_NAME @ createAnchorTable ANCHOR_TABLE_NAME) [] of
     Inr c \<Rightarrow> list_all (\<lambda>(n, expected). case map_of c n of
         None \<Rightarrow> False
       | Some t \<Rightarrow> verifyTableStructure expected (columnInfo t) = Promise True)
       [(REQUEST_TABLE_NAME, REQUEST_TABLE_COLUMN_INFO), (ANCHOR_TABLE_NAME, ANCHOR_TABLE_COLUMN_INFO)]
   | Inl e \<Rightarrow> False"
  by code_simp

definition foreign_tables :: catalog where
  "foreign_tables = [(''request'', empty_table), (''anchor'', empty_table)]"

lemma foreign_tables_fail_verification:
  "verifyTableStructure REQUEST_TABLE_COLUMN_INFO (columnInfo empty_table) = Promise False"
  "verifyTableStructure ANCHOR_TABLE_COLUMN_INFO (columnInfo empty_table) = Promise False"
  by code_simp+

text \<open>
  create_anchor_and_request: tables of any structure are accepted, because the promise of the
  verification is not awaited: the error for an unexpected structure is never raised.
\<close>

theorem existing_tables_accepted:
  assumes "map_of c REQUEST_TABLE_NAME = Some t" and "map_of c ANCHOR_TABLE_NAME = Some u"
  shows "up_create c = Inr c"
  using assms by (simp add: up_create_def create_or_verify_def truthy_promise_def)

theorem existing_tables_accepted_witness:
  "up_create foreign_tables = Inr foreign_tables"
  by (rule existing_tables_accepted [where t = empty_table and u = empty_table])
    (simp_all add: foreign_tables_def REQUEST_TABLE_NAME_def ANCHOR_TABLE_NAME_def)

end
