(* ===== verification/App_Config.thy ===== *)
theory App_Config
  imports Models "HOL-Library.Sublist"
begin

text \<open>
  \<open>src/src/normalize-config.util.ts\<close> and the choice of the database for lookups in
  \<open>src/src/db-connection.ts\<close>. The configuration is a tree of JavaScript values, most of which come from
  environment variables and are strings.
\<close>

section \<open>Configurations\<close>

datatype config =
    CNull | CBool bool
  | CNum "int option"                 \<comment> \<open>\<open>None\<close> is \<open>NaN\<close>\<close>
  | CStr string
  | CArr "config list"
  | CObj "(string \<times> config) list"

datatype key = Key string | Index nat

fun member_of :: "key \<Rightarrow> config \<Rightarrow> config option" where
  "member_of (Key k) (CObj ps) = map_of ps k"
| "member_of (Index i) (CArr xs) = (if i < length xs then Some (xs ! i) else None)"
| "member_of _ _ = None"

definition setting :: "string \<Rightarrow> config \<Rightarrow> config option" where
  "setting k c = member_of (Key k) c"

fun value_at :: "key list \<Rightarrow> config \<Rightarrow> config option" where
  "value_at [] c = Some c"
| "value_at (k # ks) c = Option.bind (member_of k c) (value_at ks)"

text \<open>\<open>Boolean(v)\<close>, where \<open>None\<close> is \<open>undefined\<close>.\<close>

fun holds :: "config option \<Rightarrow> bool" where
  "holds None = False"
| "holds (Some CNull) = False"
| "holds (Some (CBool b)) = b"
| "holds (Some (CNum n)) = (n \<noteq> None \<and> n \<noteq> Some 0)"
| "holds (Some (CStr s)) = (s \<noteq> [])"
| "holds (Some _) = True"

fun set_pair :: "string \<Rightarrow> config \<Rightarrow> (string \<times> config) list \<Rightarrow> (string \<times> config) list" where
  "set_pair k v [] = [(k, v)]"
| "set_pair k v ((k', v') # ps) = (if k' = k then (k, v) # ps else (k', v') # set_pair k v ps)"

fun set_member :: "string \<Rightarrow> config \<Rightarrow> config \<Rightarrow> config" where
  "set_member k v (CObj ps) = CObj (set_pair k v ps)"
| "set_member k v c = c"

section \<open>Normalization\<close>

text \<open>\<open>toLowerCase\<close> on ASCII.\<close>

definition lower_char :: "char \<Rightarrow> char" where
  "lower_char c = (let n = (of_char c :: nat) in if 65 \<le> n \<and> n \<le> 90 then char_of (n + 32) else c)"

definition js_lower :: "string \<Rightarrow> string" where
  "js_lower = map lower_char"

text \<open>\<open>replaceBools\<close>, on the value of a property; on an object it is applied to every member.\<close>

fun replaceBools :: "config \<Rightarrow> config" where
  "replaceBools (CStr s) = (if s = ''true'' \<or> s = ''false'' then CBool (s = ''true'') else CStr s)"
| "replaceBools (CArr xs) = CArr (map replaceBools xs)"
| "replaceBools (CObj ps) = CObj (map (\<lambda>(k, v). (k, replaceBools v)) ps)"
| "replaceBools c = c"

definition normalizeConfig :: "config \<Rightarrow> cas_error + config" where
  "normalizeConfig config =
     (case setting ''mode'' config of
        Some (CStr m) \<Rightarrow>
          (let c1 = set_member ''mode'' (CStr (js_lower (js_trim m))) config;
               c2 = (case setting ''merkleDepthLimit'' c1 of
                  Some (CStr s) \<Rightarrow> set_member ''merkleDepthLimit'' (CNum (parse_int10 s)) c1
                | _ \<Rightarrow> c1)
           in Inr (replaceBools c2))
      | _ \<Rightarrow> Inl TypeError)"

section \<open>What may be logged\<close>

text \<open>\<open>delete c?.k1?.k2\<close>\<close>

fun delete_at :: "string list \<Rightarrow> config \<Rightarrow> config" where
  "delete_at [k] (CObj ps) = CObj (filter (\<lambda>(k', v). k' \<noteq> k) ps)"
| "delete_at (k # l # ks) (CObj ps) =
     CObj (map (\<lambda>(k', v). (k', if k' = k then delete_at (l # ks) v else v)) ps)"
| "delete_at _ c = c"

definition private_key_path :: "string list" where
  "private_key_path = [''blockchain'', ''connectors'', ''ethereum'', ''account'', ''privateKey'']"

definition cleanupConfigForLogging :: "config \<Rightarrow> config" where
  "cleanupConfigForLogging config = delete_at [''anchorLauncherUrl''] (delete_at private_key_path config)"

section \<open>The database for lookups\<close>

text \<open>What is passed to \<open>knex\<close>: a connection string or the five parameters; and which database it is.\<close>

datatype db_target = ByString config | ByParameters "config option list"

datatype replica = Replica db_target | Main

definition createReplicaDbConnection :: "cas_error option \<Rightarrow> cas_error option \<Rightarrow> config \<Rightarrow> cas_error + replica" where
  "createReplicaDbConnection knex_failure main_failure replica_db =
     (case setting ''connection'' replica_db of
        None \<Rightarrow> Inl TypeError
      | Some CNull \<Rightarrow> Inl TypeError
      | Some c \<Rightarrow>
          (let fields = map (\<lambda>k. setting k c) [''host'', ''port'', ''user'', ''password'', ''database''];
               target = (if holds (setting ''connectionString'' c) then ByString (the (setting ''connectionString'' c))
                         else ByParameters fields)
           in if list_all holds fields \<and> knex_failure = None then Inr (Replica target)
              else case main_failure of Some e \<Rightarrow> Inl e | None \<Rightarrow> Inr Main))"

section \<open>Properties\<close>

lemma map_of_set_pair [simp]: "map_of (set_pair k v ps) = (map_of ps)(k \<mapsto> v)"
  by (induction ps) (auto simp: fun_eq_iff)

lemma member_replaceBools: "member_of k (replaceBools c) = map_option replaceBools (member_of k c)"
  by (cases k; cases c) (auto simp: map_of_map)

lemma at_replaceBools: "value_at p (replaceBools c) = map_option replaceBools (value_at p c)"
  by (induction p arbitrary: c) (auto simp: member_replaceBools map_option_bind split: bind_splits option.split)

lemma replaceBools_twice [simp]: "replaceBools (replaceBools c) = replaceBools c"
  by (induction c) auto

lemma replaceBools_str: "replaceBools c = CStr s \<longleftrightarrow> c = CStr s \<and> s \<noteq> ''true'' \<and> s \<noteq> ''false''"
  by (cases c) auto

lemma setting_set_member:
  "setting k (set_member k' v c) = (if k = k' \<and> (\<exists>ps. c = CObj ps) then Some v else setting k c)"
  by (cases c) (auto simp: setting_def)

lemma at_set_member: "k \<noteq> Key k' \<Longrightarrow> value_at (k # p) (set_member k' v c) = value_at (k # p) c"
  by (cases c; cases k) auto

lemma lower_lower [simp]: "lower_char (lower_char c) = lower_char c"
  by (simp add: lower_char_def Let_def of_char_of)

lemma is_space_lower [simp]: "is_space (lower_char c) = is_space c"
proof (cases "65 \<le> (of_char c :: nat) \<and> (of_char c :: nat) \<le> 90")
  case True
  have "\<not> is_space d" if "65 \<le> (of_char d :: nat)" for d
    using that by (auto simp: is_space_def)
  with True show ?thesis by (simp add: lower_char_def of_char_of)
next
  case False
  then show ?thesis by (auto simp: lower_char_def Let_def)
qed

lemma js_trim_lower: "js_trim (js_lower s) = js_lower (js_trim s)"
  by (simp add: js_trim_def js_lower_def dropWhile_map rev_map o_def)

lemma js_trim_fixed: "s = [] \<or> \<not> is_space (hd s) \<and> \<not> is_space (last s) \<Longrightarrow> js_trim s = s"
proof -
  assume s: "s = [] \<or> \<not> is_space (hd s) \<and> \<not> is_space (last s)"
  then have "dropWhile is_space s = s" by (cases s) auto
  moreover have "dropWhile is_space (rev s) = rev s" using s by (cases s rule: rev_cases) auto
  ultimately show ?thesis by (simp add: js_trim_def)
qed

lemma js_trim_twice [simp]: "js_trim (js_trim s) = js_trim s"
proof (rule js_trim_fixed)
  define u where "u = dropWhile is_space s"
  define t where "t = dropWhile is_space (rev u)"
  have trim: "js_trim s = rev t" by (simp add: js_trim_def t_def u_def)
  have "\<not> is_space (hd (rev t)) \<and> \<not> is_space (last (rev t))" if "t \<noteq> []"
  proof
    show "\<not> is_space (last (rev t))" using that hd_dropWhile [of is_space "rev u"] by (simp add: t_def last_rev)
    have "u \<noteq> []" using that by (auto simp: t_def)
    have "last t = last (rev u)"
      using that by (metis t_def last_appendR takeWhile_dropWhile_id)
    then show "\<not> is_space (hd (rev t))"
      using \<open>u \<noteq> []\<close> hd_dropWhile [of is_space s] by (simp add: u_def hd_rev last_rev)
  qed
  then show "js_trim s = [] \<or> \<not> is_space (hd (js_trim s)) \<and> \<not> is_space (last (js_trim s))"
    unfolding trim by (cases "t = []") simp_all
qed

lemma js_lower_twice [simp]: "js_lower (js_lower s) = js_lower s"
  by (simp add: js_lower_def)

lemma set_member_same: "setting k c = Some v \<Longrightarrow> set_member k v c = c"
proof (cases c)
  case (CObj ps)
  have "map_of ps k = Some v \<Longrightarrow> set_pair k v ps = ps"
    by (induction ps) (auto split: if_splits)
  with CObj show "setting k c = Some v \<Longrightarrow> set_member k v c = c" by (simp add: setting_def)
qed simp_all

lemma setting_replaceBools: "setting k (replaceBools c) = map_option replaceBools (setting k c)"
  by (simp add: setting_def member_replaceBools)

lemma normalizeConfig_parts:
  assumes "normalizeConfig c = Inr c'"
  shows "\<exists>m d. setting ''mode'' c = Some (CStr m) \<and> c' = replaceBools d
    \<and> setting ''mode'' d = Some (CStr (js_lower (js_trim m))) \<and> (\<forall>s. setting ''merkleDepthLimit'' d \<noteq> Some (CStr s))
    \<and> (\<forall>k p. k \<noteq> Key ''mode'' \<longrightarrow> k \<noteq> Key ''merkleDepthLimit'' \<longrightarrow> value_at (k # p) d = value_at (k # p) c)"
proof -
  obtain m where m: "setting ''mode'' c = Some (CStr m)"
    using assms by (auto simp: normalizeConfig_def split: option.splits config.splits)
  then obtain ps where obj: "c = CObj ps" by (cases c) (auto simp: setting_def)
  define c1 where "c1 = set_member ''mode'' (CStr (js_lower (js_trim m))) c"
  define d where "d = (case setting ''merkleDepthLimit'' c1 of
      Some (CStr s) \<Rightarrow> set_member ''merkleDepthLimit'' (CNum (parse_int10 s)) c1 | _ \<Rightarrow> c1)"
  have "c' = replaceBools d"
    unfolding d_def c1_def using assms m by (simp add: normalizeConfig_def Let_def)
  moreover have "\<exists>qs. c1 = CObj qs" by (simp add: c1_def obj)
  then have "setting ''mode'' d = Some (CStr (js_lower (js_trim m)))" "\<And>s. setting ''merkleDepthLimit'' d \<noteq> Some (CStr s)"
    by (auto simp: d_def c1_def obj setting_def split: option.split config.split)
  moreover have "value_at (k # p) d = value_at (k # p) c"
    if "k \<noteq> Key ''mode''" "k \<noteq> Key ''merkleDepthLimit''" for k p
    using that at_set_member by (auto simp: d_def c1_def simp del: value_at.simps split: option.split config.split)
  ultimately show ?thesis using m by blast
qed

text \<open>
  C39 (normalizeConfig): it needs a mode that is a string. In its result no string is a written boolean,
  the depth limit is no string, the mode has no outer white space and no capitals, and every other
  setting is the one given up to written booleans. Normalizing once more changes nothing, unless the
  mode was itself a written boolean.
\<close>

theorem normalizeConfig_typed:
  assumes "normalizeConfig c = Inr c'"
  shows "(\<forall>p s. value_at p c' = Some (CStr s) \<longrightarrow> s \<noteq> ''true'' \<and> s \<noteq> ''false'')
    \<and> (\<forall>s. setting ''merkleDepthLimit'' c' \<noteq> Some (CStr s))
    \<and> (\<exists>m m'. setting ''mode'' c = Some (CStr m) \<and> m' = js_lower (js_trim m)
         \<and> setting ''mode'' c' = Some (replaceBools (CStr m')) \<and> js_trim m' = m' \<and> js_lower m' = m')
    \<and> (\<forall>k p. k \<noteq> Key ''mode'' \<and> k \<noteq> Key ''merkleDepthLimit'' \<longrightarrow>
         value_at (k # p) c' = map_option replaceBools (value_at (k # p) c))
    \<and> ((\<exists>m. setting ''mode'' c' = Some (CStr m)) \<longrightarrow> normalizeConfig c' = Inr c')"
proof -
  obtain m d where d: "setting ''mode'' c = Some (CStr m)" "c' = replaceBools d"
    "setting ''mode'' d = Some (CStr (js_lower (js_trim m)))" "\<And>s. setting ''merkleDepthLimit'' d \<noteq> Some (CStr s)"
    "\<And>k p. k \<noteq> Key ''mode'' \<Longrightarrow> k \<noteq> Key ''merkleDepthLimit'' \<Longrightarrow> value_at (k # p) d = value_at (k # p) c"
    using normalizeConfig_parts [OF assms] by blast
  let ?m = "js_lower (js_trim m)"
  have trimmed: "js_trim ?m = ?m" by (simp add: js_trim_lower)
  have depth: "setting ''merkleDepthLimit'' c' \<noteq> Some (CStr s)" for s
    using d(4) by (auto simp: d(2) setting_replaceBools replaceBools_str)
  have "normalizeConfig c' = Inr c'" if "setting ''mode'' c' = Some (CStr m')" for m'
  proof -
    have "m' = ?m" using that d(2,3) by (auto simp: setting_replaceBools split: if_splits)
    then have "set_member ''mode'' (CStr (js_lower (js_trim m'))) c' = c'"
      using that trimmed by (simp add: set_member_same)
    moreover have "replaceBools c' = c'" by (simp add: d(2))
    ultimately show ?thesis using that depth
      by (auto simp: normalizeConfig_def split: option.split config.split)
  qed
  moreover have "value_at (k # p) c' = map_option replaceBools (value_at (k # p) c)"
    if "k \<noteq> Key ''mode''" "k \<noteq> Key ''merkleDepthLimit''" for k p
    using d(5) [OF that] by (simp only: d(2) at_replaceBools)
  ultimately show ?thesis
    using depth trimmed d(1,3) by (auto simp: d(2) at_replaceBools setting_replaceBools replaceBools_str simp del: value_at.simps)
qed

theorem normalizeConfig_typed_witness:
  "\<exists>c'. normalizeConfig (CObj [(''mode'', CStr '' Server''), (''merkleDepthLimit'', CStr ''10''),
       (''auth'', CObj [(''required'', CStr ''false'')])]) = Inr c'
     \<and> setting ''mode'' c' = Some (CStr ''server'') \<and> setting ''merkleDepthLimit'' c' = Some (CNum (Some 10))
     \<and> value_at [Key ''auth'', Key ''required''] c' = Some (CBool False)"
proof -
  let ?c = "CObj [(''mode'', CStr '' Server''), (''merkleDepthLimit'', CStr ''10''),
       (''auth'', CObj [(''required'', CStr ''false'')])]"
  let ?c' = "CObj [(''mode'', CStr ''server''), (''merkleDepthLimit'', CNum (Some 10)),
       (''auth'', CObj [(''required'', CBool False)])]"
  have run: "normalizeConfig ?c = Inr ?c'"
    by (simp add: normalizeConfig_def setting_def js_trim_def js_lower_def lower_char_def is_space_def parse_int10_def
        parse_digits_def is_digit_def digits_val_def digit_val_def Let_def char_of_def bit_0)
  have "value_at [Key ''auth'', Key ''required''] ?c' = map_option replaceBools (value_at [Key ''auth'', Key ''required''] ?c)"
    by (rule normalizeConfig_typed [OF run, THEN conjunct2, THEN conjunct2, THEN conjunct2, THEN conjunct1,
          rule_format]) simp
  then have "value_at [Key ''auth'', Key ''required''] ?c' = Some (CBool False)" by simp
  moreover have "setting ''mode'' ?c' = Some (CStr ''server'')" "setting ''merkleDepthLimit'' ?c' = Some (CNum (Some 10))"
    by (simp_all add: setting_def)
  ultimately show ?thesis using run by (intro exI conjI)
qed

lemma member_filter: "map_of (filter (\<lambda>(k', v). k' \<noteq> k) ps) x = (if x = k then None else map_of ps x)"
  by (induction ps) auto

lemma at_delete:
  assumes "ks \<noteq> []" and "\<And>xs. v \<noteq> CObj xs"
  shows "value_at q (delete_at ks c) = Some v \<longleftrightarrow> value_at q c = Some v \<and> \<not> prefix (map Key ks) q"
  using assms(1)
proof (induction ks arbitrary: c q)
  case (Cons k ks)
  show ?case
  proof (cases "(\<exists>ps. c = CObj ps) \<and> (\<exists>y r. q = Key y # r)")
    case True
    then obtain ps y r where c: "c = CObj ps" and q: "q = Key y # r" by blast
    show ?thesis
    proof (cases "ks = []")
      case True
      then show ?thesis by (simp add: c q member_filter)
    next
      case False
      then obtain l ls where ks: "ks = l # ls" by (cases ks) auto
      have "map_of (map (\<lambda>(k', v). (k', if k' = k then delete_at (l # ls) v else v)) ps) y
          = map_option (\<lambda>v. if y = k then delete_at (l # ls) v else v) (map_of ps y)"
        by (induction ps) auto
      then show ?thesis
        using Cons.IH [of r "the (map_of ps y)"] by (cases "map_of ps y") (simp_all add: c q ks)
    qed
  next
    case False
    have "delete_at (k # ks) c = c" if "\<nexists>ps. c = CObj ps" using that by (cases c; cases ks) simp_all
    moreover have "value_at q c \<noteq> Some v \<and> value_at q (delete_at (k # ks) c) \<noteq> Some v" if "c = CObj ps" for ps
      using that False assms(2) by (cases q; cases "hd q"; cases ks) auto
    moreover have "value_at q c \<noteq> Some v" if "\<nexists>ps. c = CObj ps" "prefix (map Key (k # ks)) q"
      using that by (cases c; cases q) auto
    ultimately show ?thesis by metis
  qed
qed simp

text \<open>
  cleanupConfigForLogging: of the values that are no objects exactly those under the private key
  and the launcher URL are gone, every other one is logged as it is: also the passwords and connection
  strings of both databases.
\<close>

theorem cleanupConfigForLogging_leaves:
  assumes "\<And>xs. v \<noteq> CObj xs"
  shows "value_at q (cleanupConfigForLogging config) = Some v \<longleftrightarrow>
    value_at q config = Some v \<and> \<not> prefix (map Key private_key_path) q \<and> \<not> prefix [Key ''anchorLauncherUrl''] q"
  using at_delete [of "[''anchorLauncherUrl'']" v q "delete_at private_key_path config"]
    at_delete [of private_key_path v q config] assms
  by (auto simp: cleanupConfigForLogging_def private_key_path_def)

theorem cleanupConfigForLogging_leaves_witness:
  "\<exists>c. c = CObj [(''db'', CObj [(''connection'', CObj [(''password'', CStr ''root'')])]),
      (''anchorLauncherUrl'', CStr ''http://localhost'')]
     \<and> value_at [Key ''db'', Key ''connection'', Key ''password''] (cleanupConfigForLogging c) = Some (CStr ''root'')
     \<and> value_at [Key ''anchorLauncherUrl''] (cleanupConfigForLogging c) \<noteq> Some (CStr ''http://localhost'')"
proof -
  let ?c = "CObj [(''db'', CObj [(''connection'', CObj [(''password'', CStr ''root'')])]),
      (''anchorLauncherUrl'', CStr ''http://localhost'')]"
  note leaves = cleanupConfigForLogging_leaves [of "CStr s" q ?c for s q]
  have "value_at [Key ''db'', Key ''connection'', Key ''password''] (cleanupConfigForLogging ?c) = Some (CStr ''root'')"
    by (subst leaves) (simp_all add: private_key_path_def)
  moreover have "value_at [Key ''anchorLauncherUrl''] (cleanupConfigForLogging ?c) \<noteq> Some (CStr ''http://localhost'')"
    by (subst leaves) simp_all
  ultimately show ?thesis by - (rule exI, rule conjI [OF refl], rule conjI)
qed

end
