(* ===== verification/Column_Names.thy ===== *)
theory Column_Names
  imports Migrations App_Config "HOL-Library.AList"
begin

text \<open>
  Names on both sides of the SQL client: \<open>src/src/db-connection.ts\<close> writes every identifier of a query in
  snake case and the keys of every result in camel case, and reads timestamps as UTC. The fields of the models
  (\<open>src/src/models/request.ts\<close>, \<open>src/src/models/anchor.ts\<close>) are proved to be the columns that the migrations
  leave behind, so that a row is read back as the object that was written.
\<close>

section \<open>Words\<close>

text \<open>A word of an identifier: at least two lower case letters.\<close>

definition lower_letter :: "char \<Rightarrow> bool" where
  "lower_letter c \<longleftrightarrow> 97 \<le> (of_char c :: nat) \<and> (of_char c :: nat) \<le> 122"

definition upper_letter :: "char \<Rightarrow> bool" where
  "upper_letter c \<longleftrightarrow> 65 \<le> (of_char c :: nat) \<and> (of_char c :: nat) \<le> 90"

definition upper_char :: "char \<Rightarrow> char" where
  "upper_char c = (if lower_letter c then char_of ((of_char c :: nat) - 32) else c)"

definition lower_word :: "string \<Rightarrow> bool" where
  "lower_word w \<longleftrightarrow> 2 \<le> length w \<and> list_all lower_letter w"

fun capitalize :: "string \<Rightarrow> string" where
  "capitalize [] = []"
| "capitalize (c # cs) = upper_char c # cs"

fun camel :: "string list \<Rightarrow> string" where
  "camel [] = []"
| "camel (w # ws) = w @ concat (map capitalize ws)"

fun snake :: "string list \<Rightarrow> string" where
  "snake [] = []"
| "snake [w] = w"
| "snake (w # ws) = w @ ''_'' @ snake ws"

text \<open>
  Packages \<open>lodash.snakecase\<close> and \<open>lodash.camelcase\<close>. Documented: both find the words of an identifier that
  is in either case, and spaces around it are none of them.
\<close>

record lodash =
  snakeCase :: "string \<Rightarrow> string"
  camelCase :: "string \<Rightarrow> string"

definition lawful_lodash :: "lodash \<Rightarrow> bool" where
  "lawful_lodash l \<longleftrightarrow> (\<forall>ws. list_all lower_word ws \<longrightarrow>
     snakeCase l (camel ws) = snake ws \<and> snakeCase l (snake ws) = snake ws \<and> snakeCase l (snake ws @ '' '') = snake ws
     \<and> camelCase l (camel ws) = camel ws \<and> camelCase l (snake ws) = camel ws \<and> camelCase l (snake ws @ '' '') = camel ws)"

section \<open>What the SQL client is given\<close>

text \<open>
  What a query results in: rows, an object, a string, or something else (a number, \<open>undefined\<close>). The members
  of an object are kept whatever they are.
\<close>

datatype 'v sql_result =
    ResultList "'v sql_result list"
  | ResultObject "(string \<times> 'v) list"
  | ResultNull
  | ResultString string
  | ResultOther 'v

text \<open>\<open>Object.fromEntries\<close>: a key that comes again keeps its place and gets the new value.\<close>

definition fromEntries :: "(string \<times> 'v) list \<Rightarrow> (string \<times> 'v) list" where
  "fromEntries kvs = fold (\<lambda>(k, v). AList.update k v) kvs []"

fun toCamelCase :: "lodash \<Rightarrow> 'v sql_result \<Rightarrow> cas_error + 'v sql_result"
  and toCamelCases :: "lodash \<Rightarrow> 'v sql_result list \<Rightarrow> cas_error + 'v sql_result list" where
  "toCamelCase l (ResultList vs) = bindE (toCamelCases l vs) (\<lambda>us. Inr (ResultList us))"
| "toCamelCase l (ResultObject kvs) = Inr (ResultObject (fromEntries (map (\<lambda>(k, v). (camelCase l k, v)) kvs)))"
| "toCamelCase l ResultNull = Inl TypeError"   \<comment> \<open>\<open>typeof null\<close> is \<open>'object'\<close>\<close>
| "toCamelCase l (ResultString s) = Inr (ResultString (camelCase l s))"
| "toCamelCase l (ResultOther v) = Inr (ResultOther v)"
| "toCamelCases l [] = Inr []"
| "toCamelCases l (v # vs) = bindE (toCamelCase l v) (\<lambda>u. bindE (toCamelCases l vs) (\<lambda>us. Inr (u # us)))"

definition wrapIdentifier :: "lodash \<Rightarrow> (string \<Rightarrow> string) \<Rightarrow> string \<Rightarrow> string" where
  "wrapIdentifier l origWrap v = origWrap (snakeCase l v)"

text \<open>
  The options for \<open>knex\<close>, and the connection: \<open>knex\<close> may throw, and the migrations may fail. The message of
  the error is kept.
\<close>

record knex_config =
  kc_client :: "config option"
  kc_connection :: "config option"
  kc_debug :: "config option"
  kc_migrations :: "config option"
  kc_pool :: "nat \<times> nat"

datatype connect_error = DatabaseConnectionFailed string | SchemaFailure schema_error | ConnectionTypeError

definition createDbConnection :: "string option \<Rightarrow> config \<Rightarrow> schema_state
    \<Rightarrow> (connect_error + knex_config) \<times> schema_state" where
  "createDbConnection knex_failure dbConfig s =
     (case setting ''connection'' dbConfig of
        None \<Rightarrow> (Inl ConnectionTypeError, s)
      | Some CNull \<Rightarrow> (Inl ConnectionTypeError, s)
      | Some c \<Rightarrow>
          (let knexConfig = \<lparr>kc_client = setting ''client'' dbConfig,
                 kc_connection = (let cs = setting ''connectionString'' c in if holds cs then cs else Some c),
                 kc_debug = setting ''debug'' dbConfig, kc_migrations = setting ''migrations'' dbConfig, kc_pool = (3, 30)\<rparr>
           in case knex_failure of
                Some e \<Rightarrow> (Inl (DatabaseConnectionFailed e), s)
              | None \<Rightarrow> (case migrate_on_connect s of
                    (Inl e, s') \<Rightarrow> (Inl (SchemaFailure e), s')
                  | (Inr _, s') \<Rightarrow> (Inr knexConfig, s'))))"

text \<open>
  Timestamps without time zone come as text, to which \<open>Z\<close> is appended for package \<open>postgres-date\<close>. The
  package reads a text without zone in the zone of the process, here an offset from UTC.
\<close>

record stamp_lib =
  stamp_text :: "date \<Rightarrow> string"
  postgresDate :: "int \<Rightarrow> string \<Rightarrow> date"

definition parse_timestamp :: "stamp_lib \<Rightarrow> int \<Rightarrow> string \<Rightarrow> date" where
  "parse_timestamp sl zone v = postgresDate sl zone (v @ ''Z'')"

definition lawful_stamps :: "stamp_lib \<Rightarrow> bool" where
  "lawful_stamps sl \<longleftrightarrow> (\<forall>zone t. postgresDate sl zone (stamp_text sl t @ ''Z'') = t
     \<and> postgresDate sl zone (stamp_text sl t) = t - zone)"

section \<open>Fields\<close>

definition DATABASE_FIELDS :: "string list" where
  "DATABASE_FIELDS = [''id'', ''status'', ''cid'', ''streamId'', ''message'', ''pinned'', ''timestamp'',
     ''createdAt'', ''updatedAt'', ''origin'']"

definition FreshAnchor_props :: "string list" where
  "FreshAnchor_props = [''requestId'', ''proofCid'', ''path'', ''cid'']"

definition StoredAnchor_props :: "string list" where
  "StoredAnchor_props = FreshAnchor_props @ [''id'', ''createdAt'', ''updatedAt'']"

text \<open>The entries of the object that \<open>toDB\<close> returns, and of an encoded anchor; \<open>None\<close> is \<open>undefined\<close>.\<close>

definition idb_entries :: "idb_request \<Rightarrow> (string \<times> sql_value option) list" where
  "idb_entries d =
     [(''id'', map_option Text (db_id d)), (''status'', map_option (\<lambda>s. Number (int (status_code s))) (db_status d)),
      (''cid'', Some (Text (db_cid d))), (''streamId'', Some (Text (db_streamId d))),
      (''message'', map_option Text (db_message d)), (''pinned'', map_option Boolean (db_pinned d)),
      (''createdAt'', map_option Time (db_createdAt d)), (''updatedAt'', map_option Time (db_updatedAt d)),
      (''timestamp'', map_option Time (db_timestamp d)), (''origin'', map_option Text (db_origin d))]"

definition anchor_entries :: "fresh_anchor \<Rightarrow> (string \<times> sql_value option) list" where
  "anchor_entries a = [(''requestId'', Some (Text (requestId a))), (''proofCid'', Some (Text (proofCid a))),
     (''path'', Some (Text (path a))), (''cid'', Some (Text (anchor_cid a)))]"

text \<open>An \<open>INSERT\<close> of an object: its keys are identifiers.\<close>

definition inserted_values :: "lodash \<Rightarrow> (string \<times> sql_value option) list \<Rightarrow> string \<Rightarrow> sql_value option" where
  "inserted_values l kvs c = Option.bind (map_of (map (\<lambda>(k, v). (wrapIdentifier l id k, v)) kvs) c) id"

text \<open>A row as the server sends it, and as the client makes an object of it before its keys are renamed.\<close>

datatype wire_cell = StampText string | WireValue sql_value

fun send_cell :: "stamp_lib \<Rightarrow> sql_value \<Rightarrow> wire_cell" where
  "send_cell sl (Time t) = StampText (stamp_text sl t)"
| "send_cell sl v = WireValue v"

fun read_cell :: "stamp_lib \<Rightarrow> int \<Rightarrow> wire_cell \<Rightarrow> sql_value" where
  "read_cell sl zone (StampText s) = Time (parse_timestamp sl zone s)"
| "read_cell sl zone (WireValue v) = v"

definition received_row :: "stamp_lib \<Rightarrow> int \<Rightarrow> sql_table \<Rightarrow> sql_row \<Rightarrow> sql_value sql_result" where
  "received_row sl zone t r =
     ResultObject (map (\<lambda>c. (col_name c, read_cell sl zone (send_cell sl (r (col_name c))))) (columns t))"

section \<open>Renaming\<close>

lemma name_of:
  assumes "lawful_lodash l" and "list_all lower_word ws"
  shows "snakeCase l (camel ws) = snake ws" and "snakeCase l (snake ws) = snake ws"
    and "camelCase l (snake ws) = camel ws" and "camelCase l (snake ws @ '' '') = camel ws"
  using assms by (simp_all add: lawful_lodash_def)

lemma one_word:
  assumes "lawful_lodash l" and "lower_word w"
  shows "snakeCase l w = w" and "camelCase l w = w"
  using name_of [of l "[w]"] assms by simp_all

lemma two_words:
  assumes "lawful_lodash l" and "lower_word v" and "lower_word w"
  shows "snakeCase l (v @ capitalize w) = v @ ''_'' @ w" and "camelCase l (v @ ''_'' @ w) = v @ capitalize w"
    and "camelCase l (v @ ''_'' @ w @ '' '') = v @ capitalize w"
  using name_of [of l "[v, w]"] assms by simp_all

lemma capitals:
  "upper_char CHR ''i'' = CHR ''I''" "upper_char CHR ''a'' = CHR ''A''" "upper_char CHR ''c'' = CHR ''C''"
  by code_simp+

lemma words:
  "lower_word ''id''" "lower_word ''status''" "lower_word ''cid''" "lower_word ''message''" "lower_word ''pinned''"
  "lower_word ''timestamp''" "lower_word ''origin''" "lower_word ''path''" "lower_word ''stream''" "lower_word ''created''"
  "lower_word ''updated''" "lower_word ''request''" "lower_word ''proof''" "lower_word ''at''"
  by code_simp+

lemma column_of:
  assumes "lawful_lodash l"
  shows "snakeCase l ''id'' = ''id''" "snakeCase l ''status'' = ''status''" "snakeCase l ''cid'' = ''cid''"
    "snakeCase l ''message'' = ''message''" "snakeCase l ''pinned'' = ''pinned''" "snakeCase l ''timestamp'' = ''timestamp''"
    "snakeCase l ''origin'' = ''origin''" "snakeCase l ''path'' = ''path''" "snakeCase l ''streamId'' = ''stream_id''"
    "snakeCase l ''createdAt'' = ''created_at''" "snakeCase l ''updatedAt'' = ''updated_at''"
    "snakeCase l ''requestId'' = ''request_id''" "snakeCase l ''proofCid'' = ''proof_cid''"
  using two_words(1) [OF assms words(9,1)] two_words(1) [OF assms words(10,14)] two_words(1) [OF assms words(11,14)]
    two_words(1) [OF assms words(12,1)] two_words(1) [OF assms words(13,3)]
  by (simp_all add: one_word [OF assms] words capitals)

lemma field_of:
  assumes "lawful_lodash l"
  shows "camelCase l ''id'' = ''id''" "camelCase l ''status'' = ''status''" "camelCase l ''cid'' = ''cid''"
    "camelCase l ''message'' = ''message''" "camelCase l ''pinned'' = ''pinned''" "camelCase l ''timestamp'' = ''timestamp''"
    "camelCase l ''origin'' = ''origin''" "camelCase l ''path'' = ''path''" "camelCase l ''stream_id'' = ''streamId''"
    "camelCase l ''created_at'' = ''createdAt''" "camelCase l ''updated_at'' = ''updatedAt''"
    "camelCase l ''request_id'' = ''requestId''" "camelCase l ''proof_cid'' = ''proofCid''"
    "camelCase l ''request_id '' = ''requestId''"
  using two_words(2) [OF assms words(9,1)] two_words(2) [OF assms words(10,14)] two_words(2) [OF assms words(11,14)]
    two_words(2) [OF assms words(12,1)] two_words(2) [OF assms words(13,3)] two_words(3) [OF assms words(12,1)]
  by (simp_all add: one_word [OF assms] words capitals)

lemma fromEntries_distinct: "distinct (map fst kvs) \<Longrightarrow> fromEntries kvs = kvs"
proof (induction kvs rule: rev_induct)
  case (snoc kv kvs)
  have fresh: "AList.update k v al = al @ [(k, v)]" if "k \<notin> fst ` set al" for k :: string and v :: 'a and al
    using that by (induction al) auto
  from snoc show ?case by (cases kv) (auto simp: fromEntries_def fresh)
qed (simp add: fromEntries_def)

lemma map_of_fromEntries: "map_of (fromEntries kvs) = map_of (rev kvs)"
proof (induction kvs rule: rev_induct)
  case (snoc kv kvs)
  then show ?case by (cases kv) (simp add: fromEntries_def update_conv')
qed (simp add: fromEntries_def)

lemma read_sent [simp]: "lawful_stamps sl \<Longrightarrow> read_cell sl zone (send_cell sl v) = v"
  by (cases v) (simp_all add: lawful_stamps_def parse_timestamp_def)

section \<open>Rows and objects\<close>

text \<open>What is read from a row has exactly the given fields, and those that were written have their values.\<close>

definition reads_back :: "lodash \<Rightarrow> stamp_lib \<Rightarrow> int \<Rightarrow> sql_table \<Rightarrow> sql_row \<Rightarrow> (string \<times> sql_value option) list
    \<Rightarrow> string list \<Rightarrow> bool" where
  "reads_back l sl zone t r written props \<longleftrightarrow>
     (case toCamelCase l (received_row sl zone t r) of
        Inr (ResultObject kvs) \<Rightarrow> distinct (map fst kvs) \<and> set (map fst kvs) = set props
          \<and> list_all (\<lambda>(f, v). v = None \<or> map_of kvs f = v) written
      | _ \<Rightarrow> False)"

lemma received_object:
  assumes "lawful_stamps sl" and "distinct (map (camelCase l \<circ> col_name) (columns t))"
  shows "toCamelCase l (received_row sl zone t r)
    = Inr (ResultObject (map (\<lambda>c. (camelCase l (col_name c), r (col_name c))) (columns t)))"
proof -
  let ?kvs = "map (\<lambda>c. (camelCase l (col_name c), r (col_name c))) (columns t)"
  have "distinct (map fst ?kvs)" using assms(2) by (simp add: comp_def)
  then show ?thesis using fromEntries_distinct [of ?kvs] assms(1) by (simp add: received_row_def comp_def)
qed

lemma inserted_request: "lawful_lodash l \<Longrightarrow> inserted_values l (idb_entries d) = given_values d"
  by (simp add: inserted_values_def idb_entries_def wrapIdentifier_def column_of given_values_def fun_eq_iff)

lemma connected_schema:
  assumes "run_pending (take k migrations) fresh_database = (Inr x, s)"
    and "createDbConnection failure dbConfig s = (Inr knexConfig, s')"
  shows "catalog s' = cas_schema"
  using assms(2) runMigrations_reaches_schema [OF assms(1)]
  by (auto simp: createDbConnection_def migrate_on_connect_def Let_def split: option.splits config.splits)

lemma request_fields:
  assumes "lawful_lodash l"
  shows "map (camelCase l \<circ> col_name) (columns request_table) = [''id'', ''status'', ''pinned'', ''createdAt'', ''updatedAt'',
    ''cid'', ''streamId'', ''message'', ''origin'', ''timestamp'']"
  by (simp add: request_table_def plain_def field_of [OF assms])

lemma anchor_fields:
  assumes "lawful_lodash l"
  shows "map (camelCase l \<circ> col_name) (columns anchor_table) = [''id'', ''createdAt'', ''updatedAt'', ''requestId'', ''path'',
    ''cid'', ''proofCid'']"
  by (simp add: anchor_table_def plain_def field_of [OF assms])

text \<open>
  C37 (db-connection.ts, models, migrations): on the tables of a connected database, whichever of the migrations
  it had when the process started, a row inserted from the fields of a request or an anchor stores every value in its declared column, and is read back, in whatever
  time zone the process runs, as an object with exactly the fields of the model and the values that were
  written; the columns that the insertions name as conflict targets are unique.
\<close>

theorem objects_read_back:
  assumes "lawful_lodash l" and "lawful_stamps sl"
    and "run_pending (take k migrations) fresh_database = (Inr x, s)"
    and "createDbConnection failure dbConfig s = (Inr knexConfig, s')"
    and "map_of (catalog s') ''request'' = Some t" and "map_of (catalog s') ''anchor'' = Some u"
    and "insert_row new_id now d = Inr r"
  shows "request_row r = declared_row t new_id now (inserted_values l (idb_entries d))
    \<and> reads_back l sl zone t (request_row r) (idb_entries d) DATABASE_FIELDS
    \<and> anchor_row (new_anchor i now f) = declared_row u i now (inserted_values l (anchor_entries f))
    \<and> reads_back l sl zone u (anchor_row (new_anchor i now f)) (anchor_entries f) StoredAnchor_props
    \<and> wrapIdentifier l id ''cid'' \<in> set (uniques t) \<and> wrapIdentifier l id ''requestId'' \<in> set (uniques u)"
proof (intro conjI)
  have tables: "t = request_table" "u = anchor_table"
    using connected_schema [OF assms(3,4)] assms(5,6) by (simp_all add: cas_schema_def)
  have row: "request_row r = declared_row request_table new_id now (given_values d)"
    using insert_row_request_table [of new_id now d] assms(7) by simp
  then show "request_row r = declared_row t new_id now (inserted_values l (idb_entries d))"
    by (simp add: tables inserted_request [OF assms(1)])
  have "distinct (map (camelCase l \<circ> col_name) (columns request_table))"
    unfolding request_fields [OF assms(1)] by simp
  note object = received_object [OF assms(2) this]
  show "reads_back l sl zone t (request_row r) (idb_entries d) DATABASE_FIELDS"
    unfolding tables reads_back_def object row
    by (simp add: request_table_def plain_def field_of [OF assms(1)] declared_row_def given_cells idb_entries_def
        DATABASE_FIELDS_def split: option.split) auto
  show "anchor_row (new_anchor i now f) = declared_row u i now (inserted_values l (anchor_entries f))"
    by (auto simp: tables fun_eq_iff anchor_row_def declared_row_def anchor_table_def plain_def inserted_values_def
        anchor_entries_def wrapIdentifier_def column_of [OF assms(1)] new_anchor_def)
  have "distinct (map (camelCase l \<circ> col_name) (columns anchor_table))"
    unfolding anchor_fields [OF assms(1)] by simp
  note object = received_object [OF assms(2) this]
  show "reads_back l sl zone u (anchor_row (new_anchor i now f)) (anchor_entries f) StoredAnchor_props"
    unfolding tables reads_back_def object
    by (simp add: anchor_table_def plain_def field_of [OF assms(1)] anchor_row_def anchor_entries_def
        StoredAnchor_props_def FreshAnchor_props_def) auto
  show "wrapIdentifier l id ''cid'' \<in> set (uniques t)" "wrapIdentifier l id ''requestId'' \<in> set (uniques u)"
    by (simp_all add: tables wrapIdentifier_def column_of [OF assms(1)] request_table_def anchor_table_def)
qed

section \<open>What is not renamed\<close>

text \<open>
  Rows inside the result of a raw query are members of an object and keep their names. A string in a list is
  renamed, although it is a value; and \<open>null\<close> can not be. Before the second migration the column of the
  anchors' requests is none that an insertion reaches, although it is read under its name.
\<close>

theorem names_kept_or_lost:
  assumes "lawful_lodash l"
  shows "distinct (map (camelCase l \<circ> fst) kvs) \<Longrightarrow> (''rows'', v) \<in> set kvs \<Longrightarrow>
      \<exists>kvs'. toCamelCase l (ResultObject kvs) = Inr (ResultObject kvs') \<and> map_of kvs' ''rows'' = Some v"
    and "list_all lower_word ws \<Longrightarrow> toCamelCase l (ResultList [ResultString (snake ws)]) = Inr (ResultList [ResultString (camel ws)])"
    and "toCamelCase l (ResultList (vs @ [ResultNull])) \<noteq> Inr res"
    and "execute_all (createAnchorTable ANCHOR_TABLE_NAME) [(REQUEST_TABLE_NAME, t)] = Inr c \<Longrightarrow>
      map_of c ANCHOR_TABLE_NAME = Some u \<Longrightarrow>
      \<not> has_column u (wrapIdentifier l id ''requestId'') \<and> ''requestId'' \<in> set (map (camelCase l \<circ> col_name) (columns u))"
proof -
  assume dist: "distinct (map (camelCase l \<circ> fst) kvs)" and row: "(''rows'', v) \<in> set kvs"
  let ?kvs = "map (\<lambda>(k, v). (camelCase l k, v)) kvs"
  have keys: "map fst ?kvs = map (camelCase l \<circ> fst) kvs" by (simp add: comp_def case_prod_unfold)
  have "lower_word ''rows''" by code_simp
  then have "camelCase l ''rows'' = ''rows''" by (rule one_word(2) [OF assms])
  then have "(''rows'', v) \<in> set ?kvs" using row by force
  moreover have dist': "distinct (map fst ?kvs)" using dist unfolding keys .
  ultimately have "map_of ?kvs ''rows'' = Some v" by (simp only: map_of_eq_Some_iff)
  then show "\<exists>kvs'. toCamelCase l (ResultObject kvs) = Inr (ResultObject kvs') \<and> map_of kvs' ''rows'' = Some v"
    using fromEntries_distinct [OF dist'] by simp
next
  assume "list_all lower_word ws"
  then show "toCamelCase l (ResultList [ResultString (snake ws)]) = Inr (ResultList [ResultString (camel ws)])"
    using name_of(3) [OF assms] by simp
next
  have "\<exists>e. toCamelCases l (vs @ [ResultNull]) = Inl e"
    by (induction vs) (auto split: sum.split simp: bindE_def)
  then show "toCamelCase l (ResultList (vs @ [ResultNull])) \<noteq> Inr res" by auto
next
  assume run: "execute_all (createAnchorTable ANCHOR_TABLE_NAME) [(REQUEST_TABLE_NAME, t)] = Inr c"
    and u: "map_of c ANCHOR_TABLE_NAME = Some u"
  have "map col_name (columns u) = [''id'', ''created_at'', ''updated_at'', ''request_id '', ''path'', ''cid'', ''proof_cid'']"
    using run u
    by (auto simp: createAnchorTable_def ANCHOR_TABLE_NAME_def REQUEST_TABLE_NAME_def id_spec_def stamp_def spec_def
        add_column_def has_column_def empty_table_def Let_def)
  then show "\<not> has_column u (wrapIdentifier l id ''requestId'') \<and> ''requestId'' \<in> set (map (camelCase l \<circ> col_name) (columns u))"
    unfolding has_column_def map_map [symmetric] by (simp add: wrapIdentifier_def column_of [OF assms] field_of [OF assms])
qed

section \<open>An implementation of the packages\<close>

text \<open>The words of an identifier: what is no letter separates, and so does a capital letter.\<close>

definition plus_word :: "string \<Rightarrow> string list \<Rightarrow> string list" where
  "plus_word w ws = (if w = [] then ws else w # ws)"

fun words_from :: "string \<Rightarrow> string \<Rightarrow> string list" where
  "words_from w [] = plus_word w []"
| "words_from w (c # cs) =
     (if lower_letter c then words_from (w @ [c]) cs
      else if upper_letter c then plus_word w (words_from [lower_char c] cs)
      else plus_word w (words_from [] cs))"

definition example_lodash :: lodash where
  "example_lodash = \<lparr>snakeCase = snake \<circ> words_from [], camelCase = camel \<circ> words_from []\<rparr>"

lemma upper_char_lower:
  assumes "lower_letter c"
  shows "upper_letter (upper_char c)" and "lower_char (upper_char c) = c" and "\<not> lower_letter (upper_char c)"
proof -
  have n: "97 \<le> (of_char c :: nat)" "(of_char c :: nat) \<le> 122" using assms by (simp_all add: lower_letter_def)
  then have code: "(of_char (upper_char c) :: nat) = of_char c - 32"
    using assms by (simp add: upper_char_def of_char_of)
  show "upper_letter (upper_char c)" "\<not> lower_letter (upper_char c)"
    unfolding upper_letter_def lower_letter_def code using n by auto
  show "lower_char (upper_char c) = c"
    unfolding lower_char_def code using n by (auto simp: Let_def)
qed

lemma words_from_word: "list_all lower_letter w \<Longrightarrow> words_from v (w @ s) = words_from (v @ w) s"
  by (induction w arbitrary: v) simp_all

lemma words_from_capital:
  "lower_word w \<Longrightarrow> words_from v (capitalize w @ s) = plus_word v (words_from w s)"
  by (cases w) (auto simp: lower_word_def upper_char_lower words_from_word)

lemma words_from_camel:
  "lower_word w \<Longrightarrow> list_all lower_word ws \<Longrightarrow> words_from w (concat (map capitalize ws)) = w # ws"
  by (induction ws arbitrary: w) (auto simp: words_from_capital plus_word_def lower_word_def)

lemma words_of_camel: "list_all lower_word ws \<Longrightarrow> words_from [] (camel ws) = ws"
  by (cases ws) (auto simp: plus_word_def words_from_camel words_from_word lower_word_def)

lemma separators: "\<not> lower_letter CHR ''_''" "\<not> upper_letter CHR ''_''" "\<not> lower_letter CHR '' ''" "\<not> upper_letter CHR '' ''"
  by code_simp+

lemma words_of_snake:
  "list_all lower_word ws \<Longrightarrow> words_from [] (snake ws) = ws \<and> words_from [] (snake ws @ '' '') = ws"
  by (induction ws rule: snake.induct)
    (auto simp: plus_word_def lower_word_def separators words_from_word words_from_word [where s = "[]", simplified])

lemma example_lodash_lawful: "lawful_lodash example_lodash"
  by (simp add: lawful_lodash_def example_lodash_def words_of_camel words_of_snake)

text \<open>A server that sends the number of milliseconds, and a package that reads it.\<close>

definition example_stamps :: stamp_lib where
  "example_stamps = \<lparr>stamp_text = int_to_string, postgresDate = (\<lambda>zone s.
     if s \<noteq> [] \<and> last s = CHR ''Z'' then (case parse_int10 (butlast s) of Some t \<Rightarrow> t | None \<Rightarrow> 0)
     else (case parse_int10 s of Some t \<Rightarrow> t - zone | None \<Rightarrow> 0))\<rparr>"

lemma parse_int_to_string: "parse_int10 (int_to_string t) = Some t"
proof (cases "t < 0")
  case True
  have "\<not> is_space CHR ''-''" by code_simp
  then show ?thesis using True by (simp add: int_to_string_def parse_int10_def parse_digits_nat_to_string)
next
  case False
  then show ?thesis by (simp add: int_to_string_def parse_int10_nat_to_string)
qed

lemma int_to_string_no_zone: "last (int_to_string t) \<noteq> CHR ''Z'' \<and> int_to_string t \<noteq> []"
proof -
  have "\<not> is_digit CHR ''Z''" by code_simp
  then have "last (nat_to_string n) \<noteq> CHR ''Z''" for n using nat_to_string_digits [of "last (nat_to_string n)" n] by auto
  then show ?thesis by (simp add: int_to_string_def)
qed

lemma example_stamps_lawful: "lawful_stamps example_stamps"
  by (simp add: lawful_stamps_def example_stamps_def parse_int_to_string int_to_string_no_zone)

definition example_idb :: idb_request where
  "example_idb = \<lparr>db_id = None, db_status = Some PENDING, db_cid = ''bafy'', db_streamId = ''k2t6'', db_message = Some ''new'',
     db_pinned = Some True, db_createdAt = None, db_updatedAt = None, db_timestamp = Some 7, db_origin = None\<rparr>"

definition example_db_config :: config where
  "example_db_config = CObj [(''client'', CStr ''pg''), (''connection'', CObj [(''connectionString'', CStr ''postgres://db'')])]"

lemma example_connection:
  "\<exists>knexConfig. createDbConnection None example_db_config fresh_database = (Inr knexConfig, snd (runMigrations fresh_database))
     \<and> kc_connection knexConfig = Some (CStr ''postgres://db'')"
  using runMigrations_reaches_schema [of 0] 
  by (simp add: createDbConnection_def example_db_config_def setting_def Let_def migrate_on_connect_def)

theorem objects_read_back_witness:
  "\<exists>r. insert_row ''uuid'' 9 example_idb = Inr r
     \<and> toCamelCase example_lodash (received_row example_stamps 3600000 request_table (request_row r)) \<noteq> Inl TypeError
     \<and> reads_back example_lodash example_stamps 3600000 request_table (request_row r) (idb_entries example_idb) DATABASE_FIELDS
     \<and> (''streamId'', Some (Text ''k2t6'')) \<in> set (idb_entries example_idb)"
proof -
  obtain r where r: "insert_row ''uuid'' 9 example_idb = Inr r"
    by (simp add: insert_row_def example_idb_def)
  obtain kc where kc: "createDbConnection None example_db_config fresh_database = (Inr kc, snd (runMigrations fresh_database))"
    using example_connection by blast
  have start: "run_pending (take 0 migrations) fresh_database = (Inr (), fresh_database)" by simp
  have tables: "map_of (catalog (snd (runMigrations fresh_database))) ''request'' = Some request_table"
    "map_of (catalog (snd (runMigrations fresh_database))) ''anchor'' = Some anchor_table"
    by (simp_all add: migrated_catalog cas_schema_def)
  have same: "reads_back example_lodash example_stamps 3600000 request_table (request_row r) (idb_entries example_idb) DATABASE_FIELDS"
    using objects_read_back [where zone = 3600000, OF example_lodash_lawful example_stamps_lawful start kc tables r] by blast
  then show ?thesis using r by (auto simp: reads_back_def idb_entries_def example_idb_def split: sum.splits)
qed

section \<open>Emptying the tables\<close>

text \<open>
  \<open>clearTables\<close>: within one transaction, with the triggers that check foreign keys disabled, the rows of
  every table of the schema but those of knex are deleted. The names come from a raw query, unrenamed; the
  identifiers of the deletions are renamed.
\<close>

definition KNEX_TABLES :: "string list" where
  "KNEX_TABLES = [''knex_migrations'', ''knex_migrations_lock'']"

definition delete_rows :: "string \<Rightarrow> (string \<times> 'r list) list \<Rightarrow> schema_error + (string \<times> 'r list) list" where
  "delete_rows n db =
     (if n \<in> set (map fst db) then Inr (map (\<lambda>(m, rs). (m, if m = n then [] else rs)) db) else Inl (NoRelation n))"

fun delete_all :: "lodash \<Rightarrow> string list \<Rightarrow> (string \<times> 'r list) list \<Rightarrow> schema_error + (string \<times> 'r list) list" where
  "delete_all l [] db = Inr db"
| "delete_all l (tableName # ns) db =
     (if tableName \<in> set KNEX_TABLES then delete_all l ns db
      else bindE (delete_rows (wrapIdentifier l id tableName) db) (delete_all l ns))"

definition clearTables :: "lodash \<Rightarrow> (string \<times> 'r list) list \<Rightarrow> schema_error + (string \<times> 'r list) list" where
  "clearTables l db = delete_all l (map fst db) db"

lemma delete_all_names:
  assumes "list_all (\<lambda>n. snakeCase l n = n) ns" and "set ns \<subseteq> set (map fst db)"
  shows "delete_all l ns db = Inr (map (\<lambda>(n, rs). (n, if n \<in> set ns - set KNEX_TABLES then [] else rs)) db)"
  using assms
proof (induction ns arbitrary: db)
  case (Cons n ns)
  let ?del = "map (\<lambda>(m, rs). (m, if m = n then [] else rs)) db"
  have "map fst ?del = map fst db" by auto
  then have "delete_all l ns ?del = Inr (map (\<lambda>(m, rs). (m, if m \<in> set ns - set KNEX_TABLES then [] else rs)) ?del)"
    using Cons.IH [of ?del] Cons.prems by simp
  moreover have "delete_all l ns db = Inr (map (\<lambda>(m, rs). (m, if m \<in> set ns - set KNEX_TABLES then [] else rs)) db)"
    using Cons.IH [of db] Cons.prems by simp
  ultimately show ?case
    using Cons.prems by (auto simp: delete_rows_def wrapIdentifier_def)
qed (simp add: case_prod_unfold)

text \<open>
  On the tables of the service nothing but the records of the migrations is left.
\<close>

theorem clearTables_of_schema:
  assumes "lawful_lodash l" and "map fst db = map fst cas_schema @ KNEX_TABLES"
  shows "\<exists>db'. clearTables l db = Inr db' \<and> map fst db' = map fst db
    \<and> (\<forall>(n, rs)\<in>set db'. if n \<in> set KNEX_TABLES then (n, rs) \<in> set db else rs = [])"
proof -
  have metadata: "lower_word ''metadata''" "lower_word ''anchor''" "lower_word ''knex''" "lower_word ''migrations''" "lower_word ''lock''"
    by code_simp+
  have "list_all (\<lambda>n. snakeCase l n = n) (map fst db)"
    using name_of(2) [OF assms(1), of "[''knex'', ''migrations'']"] name_of(2) [OF assms(1), of "[''knex'', ''migrations'', ''lock'']"]
    by (simp add: assms(2) cas_schema_def KNEX_TABLES_def one_word [OF assms(1)] metadata words)
  then have run: "clearTables l db = Inr (map (\<lambda>(n, rs). (n, if n \<in> set (map fst db) - set KNEX_TABLES then [] else rs)) db)"
    unfolding clearTables_def by (intro delete_all_names) simp_all
  show ?thesis by (intro exI conjI, rule run) (auto simp: rev_image_eqI)
qed

end
