(* ===== verification/Car_Stores.thy ===== *)
theory Car_Stores
  imports Witness_Service
begin

text \<open>
  Where CAR files are kept: \<open>src/src/services/merkle-car-service.ts\<close> (a map in memory, or S3
  behind an LRU cache) and the two witness stores of \<open>src/src/services/witness-service.ts\<close> (an
  LRU cache in memory, or DynamoDB). All four meet the contract \<open>car_store\<close>: a CAR found under
  a key was stored under that key. What the LRU cache evicts and whether AWS answers is given
  per call (\<open>outside\<close>); \<open>to_bytes\<close> and \<open>from_bytes\<close> are the serialisation of the CAR package.
\<close>

section \<open>The contract\<close>

locale car_store =
  fixes put :: "'env \<Rightarrow> cid \<Rightarrow> 'car \<Rightarrow> 's \<Rightarrow> cas_error option \<times> 's"
    and get :: "'env \<Rightarrow> cid \<Rightarrow> 's \<Rightarrow> 'car option"
    and holds :: "'s \<Rightarrow> cid \<Rightarrow> 'car \<Rightarrow> bool"
    and env_ok :: "'env \<Rightarrow> bool"
  assumes get_holds: "env_ok e \<Longrightarrow> get e c s = Some car \<Longrightarrow> holds s c car"
    and put_holds: "env_ok e \<Longrightarrow> holds (snd (put e c car s)) d x \<Longrightarrow> (d = c \<and> x = car) \<or> holds s d x"
begin

text \<open>A sequence of stores, each with what the outside does meanwhile.\<close>

fun put_all :: "('env \<times> cid \<times> 'car) list \<Rightarrow> 's \<Rightarrow> 's" where
  "put_all [] s = s"
| "put_all ((e, c, car) # ops) s = put_all ops (snd (put e c car s))"

lemma put_all_holds:
  assumes "\<forall>(e, c, car)\<in>set ops. env_ok e" and "holds (put_all ops s) d x"
  shows "(\<exists>e. (e, d, x) \<in> set ops) \<or> holds s d x"
  using assms
proof (induction ops s rule: put_all.induct)
  case (2 e c car ops s)
  then have "(\<exists>e. (e, d, x) \<in> set ops) \<or> holds (snd (put e c car s)) d x" by simp
  then show ?case using put_holds [of e c car s d x] 2(2) by auto
qed simp

text \<open>What every stored CAR satisfies, every CAR that is found satisfies.\<close>

lemma get_satisfies:
  assumes "\<forall>(e, c, car)\<in>set ops. env_ok e \<and> P c car" and "\<And>c x. \<not> holds s c x"
    and "env_ok e" and "get e c (put_all ops s) = Some car"
  shows "P c car"
proof -
  have "holds (put_all ops s) c car" by (rule get_holds [OF assms(3,4)])
  moreover have "\<forall>(e, c, car)\<in>set ops. env_ok e" using assms(1) by auto
  ultimately obtain e' where "(e', c, car) \<in> set ops" using put_all_holds assms(2) by blast
  with assms(1) show ?thesis by auto
qed

end

text \<open>A store that reports success only when the CAR can be read back.\<close>

locale durable_car_store = car_store +
  assumes put_get: "env_ok e \<Longrightarrow> put e c car s = (None, s') \<Longrightarrow> get e c s' = Some car"

section \<open>The Merkle CAR services\<close>

text \<open>\<open>InMemoryMerkleCarService\<close>\<close>

definition memory_storeCarFile :: "unit \<Rightarrow> cid \<Rightarrow> 'car \<Rightarrow> (cid \<rightharpoonup> 'car) \<Rightarrow> cas_error option \<times> (cid \<rightharpoonup> 'car)" where
  "memory_storeCarFile e anchorProofCID car cars = (None, cars(anchorProofCID \<mapsto> car))"

definition memory_retrieveCarFile :: "unit \<Rightarrow> cid \<Rightarrow> (cid \<rightharpoonup> 'car) \<Rightarrow> 'car option" where
  "memory_retrieveCarFile e anchorProofCID cars = cars anchorProofCID"

interpretation memory_cars: durable_car_store memory_storeCarFile memory_retrieveCarFile
  "\<lambda>cars c x. cars c = Some x" "\<lambda>_. True"
  by unfold_locales (auto simp: memory_storeCarFile_def memory_retrieveCarFile_def split: if_splits)

text \<open>
  \<open>S3MerkleCarService\<close>: the cache is set before the upload, so it keeps the CAR when the upload
  fails. \<open>evicted\<close> are the keys the cache drops to make room, never the one just set.
\<close>

record ('car, 'bytes) outside =
  evicted :: "cid list"
  write_failure :: "cas_error option"
  read_failure :: "cas_error option"
  to_bytes :: "'car \<Rightarrow> 'bytes"
  from_bytes :: "'bytes \<Rightarrow> cas_error + 'car"

definition faithful_bytes :: "('car, 'bytes) outside \<Rightarrow> bool" where
  "faithful_bytes e \<longleftrightarrow> (\<forall>car. from_bytes e (to_bytes e car) = Inr car)"

definition lru_set :: "cid list \<Rightarrow> cid \<Rightarrow> 'car \<Rightarrow> (cid \<rightharpoonup> 'car) \<Rightarrow> (cid \<rightharpoonup> 'car)" where
  "lru_set drop_keys key car cache = (\<lambda>k. if k \<in> set drop_keys then None else cache k)(key \<mapsto> car)"

record ('car, 'bytes) s3_state =
  s3_cache :: "cid \<rightharpoonup> 'car"
  s3_store :: "cid \<rightharpoonup> 'bytes"

definition s3_storeCarFile :: "('car, 'bytes) outside \<Rightarrow> cid \<Rightarrow> 'car \<Rightarrow> ('car, 'bytes) s3_state
    \<Rightarrow> cas_error option \<times> ('car, 'bytes) s3_state" where
  "s3_storeCarFile e anchorProofCID car s =
     (let s1 = s\<lparr>s3_cache := lru_set (evicted e) anchorProofCID car (s3_cache s)\<rparr>
      in case write_failure e of
           Some err \<Rightarrow> (Some err, s1)
         | None \<Rightarrow> (None, s1\<lparr>s3_store := (s3_store s)(anchorProofCID \<mapsto> to_bytes e car)\<rparr>))"

text \<open>An error of the download or of the decoding is logged, and the answer is null.\<close>

definition s3_retrieveCarFile :: "('car, 'bytes) outside \<Rightarrow> cid \<Rightarrow> ('car, 'bytes) s3_state \<Rightarrow> 'car option" where
  "s3_retrieveCarFile e anchorProofCID s =
     (case s3_cache s anchorProofCID of
        Some car \<Rightarrow> Some car
      | None \<Rightarrow>
          (if read_failure e \<noteq> None then None
           else case s3_store s anchorProofCID of
             None \<Rightarrow> None
           | Some bytes \<Rightarrow> (case from_bytes e bytes of Inl err \<Rightarrow> None | Inr car \<Rightarrow> Some car)))"

text \<open>All calls share one serialisation.\<close>

definition s3_holds :: "('bytes \<Rightarrow> cas_error + 'car) \<Rightarrow> ('car, 'bytes) s3_state \<Rightarrow> cid \<Rightarrow> 'car \<Rightarrow> bool" where
  "s3_holds decode s c car \<longleftrightarrow> s3_cache s c = Some car
     \<or> (\<exists>b. s3_store s c = Some b \<and> decode b = Inr car)"

interpretation s3_cars: durable_car_store s3_storeCarFile s3_retrieveCarFile "s3_holds decode"
  "\<lambda>e. faithful_bytes e \<and> from_bytes e = decode" for decode
  by unfold_locales
    (auto simp: s3_storeCarFile_def s3_retrieveCarFile_def s3_holds_def lru_set_def faithful_bytes_def Let_def
      split: option.splits if_splits sum.splits)

section \<open>The witness stores\<close>

text \<open>\<open>InMemoryWitnessService\<close>: an LRU cache and nothing behind it.\<close>

definition memory_witness_store :: "cid list \<Rightarrow> cid \<Rightarrow> 'car \<Rightarrow> (cid \<rightharpoonup> 'car)
    \<Rightarrow> cas_error option \<times> (cid \<rightharpoonup> 'car)" where
  "memory_witness_store drop_keys anchorCommitCID witnessCAR cache =
     (None, lru_set drop_keys anchorCommitCID witnessCAR cache)"

definition memory_witness_get :: "cid list \<Rightarrow> cid \<Rightarrow> (cid \<rightharpoonup> 'car) \<Rightarrow> 'car option" where
  "memory_witness_get drop_keys anchorCommitCID cache = cache anchorCommitCID"

interpretation memory_witnesses: durable_car_store memory_witness_store memory_witness_get
  "\<lambda>cache c x. cache c = Some x" "\<lambda>_. True"
  by unfold_locales (auto simp: memory_witness_store_def memory_witness_get_def lru_set_def split: if_splits)

text \<open>
  \<open>DynamoDbWitnessService\<close>: items hold the CAR's bytes and an expiry time in seconds; an item may be
  gone once it expired (\<open>evicted\<close>), and every error is logged and swallowed, also by \<open>store\<close>.
\<close>

definition expiry :: "date \<Rightarrow> int option \<Rightarrow> string" where
  "expiry now ttl = number_to_string (map_option (\<lambda>t. now div 1000 + t) ttl)"

definition dynamo_witness_store :: "date \<Rightarrow> string \<Rightarrow> ('car, 'bytes) outside \<Rightarrow> cid \<Rightarrow> 'car
    \<Rightarrow> (cid \<rightharpoonup> 'bytes \<times> string) \<Rightarrow> cas_error option \<times> (cid \<rightharpoonup> 'bytes \<times> string)" where
  "dynamo_witness_store now ttl e anchorCommitCID witnessCAR table =
     (case write_failure e of
        Some err \<Rightarrow> (None, table)
      | None \<Rightarrow> (None, table(anchorCommitCID \<mapsto> (to_bytes e witnessCAR, expiry now (parse_int10 ttl)))))"

definition dynamo_witness_get :: "('car, 'bytes) outside \<Rightarrow> cid \<Rightarrow> (cid \<rightharpoonup> 'bytes \<times> string) \<Rightarrow> 'car option" where
  "dynamo_witness_get e anchorCommitCID table =
     (if read_failure e \<noteq> None \<or> anchorCommitCID \<in> set (evicted e) then None
      else case table anchorCommitCID of
             None \<Rightarrow> None
           | Some item \<Rightarrow> (case from_bytes e (fst item) of Inl err \<Rightarrow> None | Inr car \<Rightarrow> Some car))"

interpretation dynamo_witnesses: car_store "dynamo_witness_store now ttl" dynamo_witness_get
  "\<lambda>table c x. \<exists>item. table c = Some item \<and> decode (fst item) = Inr x"
  "\<lambda>e. faithful_bytes e \<and> from_bytes e = decode" for now ttl decode
  by unfold_locales
    (auto simp: dynamo_witness_store_def dynamo_witness_get_def faithful_bytes_def
      split: option.splits if_splits sum.splits)

section \<open>Creating the witness table\<close>

text \<open>
  \<open>createTable\<close>: each try describes the table and creates it when that fails. The retry is
  started in a callback that nobody waits for, so \<open>init\<close> returns before it is made and cannot
  report how it ends. \<open>tries\<close> are the answers of the tries to come: whether the table exists, and
  how creating it ends.
\<close>

record table_try =
  table_exists :: bool
  creation_failure :: "cas_error option"

datatype table_result = TableReady | CreationFailed | RetryLater "table_try list" int

fun createTable :: "table_try list \<Rightarrow> int \<Rightarrow> table_result option" where
  "createTable [] retries = None"
| "createTable (t # tries) retries =
     (if table_exists t \<or> creation_failure t = None then Some TableReady
      else let retries' = retries - 1
           in if retries' \<le> 0 then Some CreationFailed else Some (RetryLater tries retries'))"

text \<open>What the caller of \<open>init\<close> sees: a try that will be made later counts as success.\<close>

definition init_witness_table :: "table_try list \<Rightarrow> bool option" where
  "init_witness_table tries =
     (case createTable tries 3 of
        None \<Rightarrow> None
      | Some CreationFailed \<Rightarrow> Some False
      | Some _ \<Rightarrow> Some True)"

text \<open>
  DynamoDbWitnessService.init: \<open>init\<close> succeeds after its first try, whatever that try did: with
  three retries configured, the first failure only schedules a retry in the background.
\<close>

theorem init_witness_table_never_fails: "init_witness_table (t # tries) = Some True"
  by (simp add: init_witness_table_def Let_def)

end
