(* ===== verification/Auth_Middleware.thy ===== *)
theory Auth_Middleware
  imports Car
begin

text \<open>
  \<open>src/src/auth/auth.middleware.ts\<close> and \<open>src/src/ancillary/anchor-request-params-parser.ts\<close>: the
  check of a request's origin and body digest, and the decoding of the parameters of an anchor
  request from JSON or from a CAR file. Both look at the header \<open>Content-Type\<close>, in different ways.
\<close>

section \<open>HTTP requests\<close>

text \<open>
  A request as the handlers see it: headers by case-insensitive name (Express), the address of
  the peer, and the body the parsers of \<open>server.ts\<close> left; \<open>None\<close> is a falsy body.
\<close>

record 'b http_request =
  header :: "string \<Rightarrow> string option"
  ip :: string
  body :: "'b option"

text \<open>
  What the handlers call outside the repository: \<open>Object.keys\<close> of a body, the CAR decoder, JSON
  and SHA-256 (as base 16), and the verification of a JWS.
\<close>

record jws_result =
  jws_did :: "string option"
  jws_payload :: js_value

record ('b, 'car) http_lib =
  own_keys :: "'b \<Rightarrow> string list"
  car_of :: "'b \<Rightarrow> cas_error + 'car"
  stringify :: "'b \<Rightarrow> string"
  sha256_base16 :: "string \<Rightarrow> string"
  verify_jws :: "string \<Rightarrow> cas_error + jws_result"

definition CAR_TYPE :: string where
  "CAR_TYPE = ''application/vnd.ipld.car''"

text \<open>A string that counts in a condition: present and not empty.\<close>

definition given :: "string option \<Rightarrow> string option" where
  "given v = (case v of None \<Rightarrow> None | Some s \<Rightarrow> if s = [] then None else Some s)"

lemma given_Some [simp]: "given v = Some s \<longleftrightarrow> v = Some s \<and> s \<noteq> []"
  by (auto simp: given_def split: option.splits)

lemma given_simps [simp]: "given None = None" "given (Some s) = (if s = [] then None else Some s)"
  by (simp_all add: given_def)

section \<open>The middleware\<close>

record auth_opts =
  allowedDIDs :: "string list"
  isRelaxed :: bool

definition parseAllowedDIDs :: "string option \<Rightarrow> string list" where
  "parseAllowedDIDs dids = (case given dids of Some s \<Rightarrow> js_unique (js_split (CHR '','') s) | None \<Rightarrow> [])"

datatype disallow_reason =
    InvalidDigest
  | DidAllowlistNoHeader
  | DidAllowlistNoDid
  | DidAllowlistNoFields
  | DidAllowlistRejected

datatype auth_decision =
    Next
  | Disallow disallow_reason     \<comment> \<open>403\<close>
  | AuthError                    \<comment> \<open>500\<close>

definition isAllowedDID :: "string \<Rightarrow> auth_opts \<Rightarrow> bool" where
  "isAllowedDID did opts = (if isRelaxed opts then True else did \<in> set (allowedDIDs opts))"

text \<open>The first group of the first match of \<open>/Bearer (.*)/\<close>; a dot matches no line terminator.\<close>

fun bearer_token :: "string \<Rightarrow> string option" where
  "bearer_token [] = None"
| "bearer_token (c # cs) =
     (if js_starts_with (c # cs) ''Bearer ''
      then Some (takeWhile (\<lambda>x. x \<noteq> CHR 0x0A \<and> x \<noteq> CHR 0x0D) (drop 7 (c # cs)))
      else bearer_token cs)"

definition buildBodyDigest :: "('b, 'car) http_lib \<Rightarrow> ('car, 'block) car_lib \<Rightarrow> string option \<Rightarrow> 'b option
    \<Rightarrow> string option" where
  "buildBodyDigest http lib contentType b =
     (case b of
        None \<Rightarrow> None
      | Some v \<Rightarrow>
          (let digest = ''0x'' @ sha256_base16 http (stringify http v)
           in case given contentType of
                None \<Rightarrow> Some digest
              | Some t \<Rightarrow>
                  (if js_includes t CAR_TYPE
                   then (case car_of http v of
                           Inl e \<Rightarrow> None
                         | Inr car \<Rightarrow> (case car_roots lib car of [] \<Rightarrow> None | root # _ \<Rightarrow> Some root))
                   else Some digest)))"

definition hasBody :: "('b, 'car) http_lib \<Rightarrow> 'b http_request \<Rightarrow> bool" where
  "hasBody http req = (case body req of None \<Rightarrow> False | Some v \<Rightarrow> own_keys http v \<noteq> [])"

text \<open>\<open>v?.[name]\<close>\<close>

definition opt_prop :: "js_value \<Rightarrow> string \<Rightarrow> js_value" where
  "opt_prop v name = (case v of Some (IMap fs) \<Rightarrow> map_of fs name | _ \<Rightarrow> None)"

definition check_jws :: "auth_opts \<Rightarrow> string option \<Rightarrow> jws_result \<Rightarrow> auth_decision" where
  "check_jws opts expected res =
     (case given (jws_did res) of
        None \<Rightarrow> Disallow DidAllowlistNoDid
      | Some did \<Rightarrow>
          (let nonce = opt_prop (jws_payload res) ''nonce''; digest = opt_prop (jws_payload res) ''digest''
           in if \<not> truthy nonce \<or> \<not> truthy digest then Disallow DidAllowlistNoFields
              else if digest \<noteq> map_option IString expected then Disallow InvalidDigest
              else if \<not> isAllowedDID did opts then Disallow DidAllowlistRejected
              else Next))"

definition auth :: "auth_opts \<Rightarrow> ('b, 'car) http_lib \<Rightarrow> ('car, 'block) car_lib \<Rightarrow> 'b http_request \<Rightarrow> auth_decision" where
  "auth opts http lib req =
     (let digest = buildBodyDigest http lib (header req ''Content-Type'') (body req)
      in if given (header req ''did'') \<noteq> None \<and> hasBody http req
         then (if header req ''digest'' = digest then Next else Disallow InvalidDigest)
         else if allowedDIDs opts \<noteq> [] \<and> hasBody http req
         then (case Option.bind (bearer_token (case header req ''Authorization'' of Some a \<Rightarrow> a | None \<Rightarrow> []))
                      (\<lambda>t. given (Some t)) of
                 None \<Rightarrow> Disallow DidAllowlistNoHeader
               | Some jws \<Rightarrow>
                   (case verify_jws http jws of
                      Inl e \<Rightarrow> AuthError
                    | Inr res \<Rightarrow> check_jws opts digest res))
         else Next)"

section \<open>Request parameters\<close>

record anchor_params =
  ap_cid :: cid
  ap_streamId :: stream_id
  ap_timestamp :: "date option"

datatype parse_error =
    CodecErrors string
  | NoRootCid
  | NoRootRecord cid
  | UndecodableCar cas_error

text \<open>The codecs of package \<open>codeco\<close> for the two versions of the parameters.\<close>

record 'b param_codecs =
  decode_v3 :: "'b option \<Rightarrow> string + anchor_params"
  decode_v2_root :: "ipld \<Rightarrow> string + anchor_params"

definition decode_car_file :: "'b param_codecs \<Rightarrow> ('b, 'car) http_lib \<Rightarrow> ('car, 'block) car_lib \<Rightarrow> 'b option
    \<Rightarrow> parse_error + anchor_params" where
  "decode_car_file codecs http lib b =
     (case b of
        None \<Rightarrow> Inl (UndecodableCar TypeError)
      | Some v \<Rightarrow>
          (case car_of http v of
             Inl e \<Rightarrow> Inl (UndecodableCar e)
           | Inr car \<Rightarrow>
               (case car_roots lib car of
                  [] \<Rightarrow> Inl NoRootCid
                | rootCid # _ \<Rightarrow>
                    (case car_get lib car rootCid of
                       Inl e \<Rightarrow> Inl (UndecodableCar e)
                     | Inr rootRecord \<Rightarrow>
                         (if \<not> truthy rootRecord then Inl (NoRootRecord rootCid)
                          else case decode_v2_root codecs (the rootRecord) of
                                 Inl err \<Rightarrow> Inl (CodecErrors err)
                               | Inr params \<Rightarrow> Inr params)))))"

definition parse_params :: "'b param_codecs \<Rightarrow> ('b, 'car) http_lib \<Rightarrow> ('car, 'block) car_lib \<Rightarrow> 'b http_request
    \<Rightarrow> parse_error + anchor_params" where
  "parse_params codecs http lib req =
     (if header req ''Content-Type'' \<noteq> Some CAR_TYPE
      then (case decode_v3 codecs (body req) of Inl err \<Rightarrow> Inl (CodecErrors err) | Inr params \<Rightarrow> Inr params)
      else decode_car_file codecs http lib (body req))"

section \<open>What the middleware guarantees\<close>

lemma bearer_token_split: "bearer_token s = Some t \<Longrightarrow> \<exists>a b. s = a @ ''Bearer '' @ t @ b"
proof (induction s rule: bearer_token.induct)
  case (2 c cs)
  show ?case
  proof (cases "js_starts_with (c # cs) ''Bearer ''")
    case True
    let ?p = "\<lambda>x. x \<noteq> CHR 0x0A \<and> x \<noteq> CHR 0x0D"
    obtain u where u: "c # cs = ''Bearer '' @ u" using True by (auto simp: js_starts_with_iff)
    then have "t = takeWhile ?p u" using 2(2) True by simp
    then have "u = t @ dropWhile ?p u" by simp
    with u show ?thesis by (metis append_Nil)
  next
    case False
    with 2 obtain a b where "cs = a @ ''Bearer '' @ t @ b" by auto
    then show ?thesis by (metis append_Cons)
  qed
qed simp

lemma check_jws_Next:
  "check_jws opts expected res = Next \<longleftrightarrow>
     (\<exists>did digest. jws_did res = Some did \<and> did \<noteq> [] \<and> isAllowedDID did opts
        \<and> opt_prop (jws_payload res) ''digest'' = Some (IString digest) \<and> digest \<noteq> []
        \<and> truthy (opt_prop (jws_payload res) ''nonce'') \<and> expected = Some digest)"
  by (cases expected; cases "given (jws_did res)") (auto simp: check_jws_def Let_def)

text \<open>The case of a request that brings no \<open>did\<close> header, while a list of DIDs is configured.\<close>

lemma auth_list_Next:
  assumes "allowedDIDs opts \<noteq> []" and "given (header req ''did'') = None" and "hasBody http req"
    and "auth opts http lib req = Next"
  obtains jws res where "header req ''Authorization'' \<noteq> None"
    and "bearer_token (the (header req ''Authorization'')) = Some jws" and "verify_jws http jws = Inr res"
    and "check_jws opts (buildBodyDigest http lib (header req ''Content-Type'') (body req)) res = Next"
  using assms
  by (auto simp: auth_def Let_def split: option.splits sum.splits if_splits bind_splits)

text \<open>
  auth: with a list of DIDs that is not relaxed, a request with a body and without a \<open>did\<close>
  header gets through only with a bearer token that is a JWS of a listed DID over the digest
  of this very body; and the same token lets no body with another digest through.
\<close>

theorem auth_signed_body:
  assumes "allowedDIDs opts \<noteq> []" and "\<not> isRelaxed opts"
    and "given (header req ''did'') = None" and "hasBody http req" and "auth opts http lib req = Next"
  shows "\<exists>a jws b res did digest. header req ''Authorization'' = Some (a @ ''Bearer '' @ jws @ b)
    \<and> verify_jws http jws = Inr res \<and> jws_did res = Some did \<and> did \<in> set (allowedDIDs opts)
    \<and> opt_prop (jws_payload res) ''digest'' = Some (IString digest)
    \<and> buildBodyDigest http lib (header req ''Content-Type'') (body req) = Some digest
    \<and> (\<forall>req2. header req2 ''Authorization'' = header req ''Authorization'' \<longrightarrow> given (header req2 ''did'') = None
         \<longrightarrow> hasBody http req2 \<longrightarrow> auth opts http lib req2 = Next
         \<longrightarrow> buildBodyDigest http lib (header req2 ''Content-Type'') (body req2) = Some digest)"
proof -
  obtain jws res where token: "header req ''Authorization'' \<noteq> None"
    "bearer_token (the (header req ''Authorization'')) = Some jws" "verify_jws http jws = Inr res"
    "check_jws opts (buildBodyDigest http lib (header req ''Content-Type'') (body req)) res = Next"
    using auth_list_Next [OF assms(1,3-5)] .
  obtain did digest where ok: "jws_did res = Some did" "isAllowedDID did opts"
    "opt_prop (jws_payload res) ''digest'' = Some (IString digest)"
    "buildBodyDigest http lib (header req ''Content-Type'') (body req) = Some digest"
    using token(4) by (auto simp: check_jws_Next)
  have "buildBodyDigest http lib (header req2 ''Content-Type'') (body req2) = Some digest"
    if "header req2 ''Authorization'' = header req ''Authorization''" "given (header req2 ''did'') = None"
      "hasBody http req2" "auth opts http lib req2 = Next" for req2
    by (rule auth_list_Next [OF assms(1) that(2-4)]) (use that(1) token(2,3) ok(3) in \<open>auto simp: check_jws_Next\<close>)
  moreover obtain a b where "the (header req ''Authorization'') = a @ ''Bearer '' @ jws @ b"
    using bearer_token_split [OF token(2)] by blast
  moreover have "did \<in> set (allowedDIDs opts)" using ok(2) assms(2) by (simp add: isAllowedDID_def)
  ultimately show ?thesis using token(1,3) ok(1,3,4) by (metis option.collapse)
qed

text \<open>
  auth, AnchorRequestParamsParser.parse: the digest check can be passed by. The middleware
  looks for the CAR type anywhere in \<open>Content-Type\<close>, the parser compares it exactly: with a type
  that only contains it and a body that is no CAR, the computed digest is \<open>undefined\<close> and
  equals the missing header, and the body is accepted as JSON parameters.
\<close>

theorem auth_digest_bypass:
  assumes "header req ''Content-Type'' = Some t" and "js_includes t CAR_TYPE" and "t \<noteq> CAR_TYPE"
    and "header req ''did'' = Some did" and "did \<noteq> []" and "header req ''digest'' = None"
    and "body req = Some b" and "own_keys http b \<noteq> []"
    and "car_of http b = Inl err" and "decode_v3 codecs (Some b) = Inr params"
  shows "auth opts http lib req = Next \<and> parse_params codecs http lib req = Inr params
    \<and> auth opts http lib (req\<lparr>header := (header req)(''Content-Type'' \<mapsto> ''application/json'')\<rparr>)
        = Disallow InvalidDigest"
proof -
  have "t \<noteq> []" using assms(2) by (auto simp: CAR_TYPE_def)
  then have none: "buildBodyDigest http lib (Some t) (Some b) = None"
    using assms(2,9) by (simp add: buildBodyDigest_def Let_def)
  have "\<not> js_includes ''application/json'' CAR_TYPE" by code_simp
  then have json: "buildBodyDigest http lib (Some ''application/json'') (Some b) \<noteq> None"
    by (simp add: buildBodyDigest_def Let_def given_def)
  have did: "given (Some did) \<noteq> None" using assms(5) by (simp add: given_def)
  have has: "hasBody http (req\<lparr>header := h\<rparr>) \<and> hasBody http req" for h
    using assms(7,8) by (simp add: hasBody_def)
  show ?thesis
    using assms(1,3-7,10) none json did has
    by (simp add: auth_def parse_params_def del: not_None_eq)
qed

text \<open>A body of the examples: its JSON text, with a hash that is the text itself.\<close>

definition example_http :: "(string, assoc_car) http_lib" where
  "example_http = \<lparr>own_keys = (\<lambda>b. [b]), car_of = (\<lambda>b. Inl (LibraryError ''not a CAR'')), stringify = (\<lambda>b. b),
     sha256_base16 = (\<lambda>t. t),
     verify_jws = (\<lambda>t. if t = ''jws'' then Inr \<lparr>jws_did = Some ''did:a'',
        jws_payload = Some (IMap [(''nonce'', IString ''n''), (''digest'', IString ''0x{}'')])\<rparr>
      else Inl (LibraryError ''invalid signature''))\<rparr>"

definition example_post :: "(string \<times> string) list \<Rightarrow> string http_request" where
  "example_post hs = \<lparr>header = map_of hs, ip = ''10.0.0.1'', body = Some ''{}''\<rparr>"

definition example_json_params :: anchor_params where
  "example_json_params = \<lparr>ap_cid = ''new'', ap_streamId = ''s1'', ap_timestamp = Some 40\<rparr>"

definition example_codecs :: "string param_codecs" where
  "example_codecs = \<lparr>decode_v3 = (\<lambda>b. if b = None then Inl ''invalid'' else Inr example_json_params),
     decode_v2_root = (\<lambda>v. Inl ''invalid'')\<rparr>"

theorem auth_signed_body_witness:
  "\<exists>a jws b res did digest. header (example_post [(''Authorization'', ''Bearer jws'')]) ''Authorization''
        = Some (a @ ''Bearer '' @ jws @ b)
    \<and> verify_jws example_http jws = Inr res \<and> jws_did res = Some did \<and> did \<in> set [''did:a'']
    \<and> opt_prop (jws_payload res) ''digest'' = Some (IString digest)
    \<and> buildBodyDigest example_http assoc_lib None (Some ''{}'') = Some digest"
proof -
  let ?req = "example_post [(''Authorization'', ''Bearer jws'')]" and ?opts = "\<lparr>allowedDIDs = [''did:a''], isRelaxed = False\<rparr>"
  have ok: "auth ?opts example_http assoc_lib ?req = Next" by code_simp
  have "hasBody example_http ?req" by code_simp
  from auth_signed_body [OF _ _ _ this ok] show ?thesis
    by (simp add: example_post_def) blast
qed

theorem auth_digest_bypass_witness:
  "\<exists>req. auth \<lparr>allowedDIDs = [], isRelaxed = False\<rparr> example_http assoc_lib req = Next
    \<and> parse_params example_codecs example_http assoc_lib req = Inr example_json_params"
proof -
  let ?req = "example_post [(''Content-Type'', ''application/json; p=application/vnd.ipld.car''), (''did'', ''did:x'')]"
  have "auth \<lparr>allowedDIDs = [], isRelaxed = False\<rparr> example_http assoc_lib ?req = Next
    \<and> parse_params example_codecs example_http assoc_lib ?req = Inr example_json_params
    \<and> auth \<lparr>allowedDIDs = [], isRelaxed = False\<rparr> example_http assoc_lib
        (?req\<lparr>header := (header ?req)(''Content-Type'' \<mapsto> ''application/json'')\<rparr>) = Disallow InvalidDigest"
  proof (rule auth_digest_bypass [where did = "''did:x''" and b = "''{}''"])
    show "js_includes ''application/json; p=application/vnd.ipld.car'' CAR_TYPE" by code_simp
  qed (simp_all add: example_post_def example_http_def example_codecs_def CAR_TYPE_def)
  then show ?thesis by blast
qed

end
