(* ===== verification/Request_Service.thy ===== *)
theory Request_Service
  imports Car_Stores Request_Laws Anchor_Repository Candidate Effects Auth_Middleware
begin

text \<open>
  \<open>src/src/services/request-service.ts\<close> and \<open>src/src/services/request-presentation-service.ts\<close>:
  creating a request, reading its status through the read replica, and rendering it together
  with the anchor and its witness CAR.
\<close>

section \<open>Presentation\<close>

datatype status_name = PENDING_NAME | PROCESSING_NAME | COMPLETED_NAME | FAILED_NAME | READY_NAME | REPLACED_NAME

fun name_from_status :: "request_status \<Rightarrow> status_name" where
  "name_from_status REPLACED = REPLACED_NAME"
| "name_from_status FAILED = FAILED_NAME"
| "name_from_status PENDING = PENDING_NAME"
| "name_from_status PROCESSING = PROCESSING_NAME"
| "name_from_status READY = READY_NAME"
| "name_from_status COMPLETED = READY_NAME"

record 'car cas_response =
  rp_id :: string
  rp_status :: status_name
  rp_cid :: cid
  rp_streamId :: stream_id
  rp_message :: "string option"
  rp_createdAt :: date
  rp_updatedAt :: date
  rp_anchorCommit :: "cid option"
  rp_witnessCar :: "'car option"

text \<open>
  The two stores as the service sees them: a witness that may be cached, the Merkle CAR by proof
  CID, and what storing a new witness does to the state.
\<close>

record ('car, 's) car_stores =
  cs_witness :: "cid \<Rightarrow> 's \<Rightarrow> 'car option"
  cs_merkle :: "cid \<Rightarrow> 's \<Rightarrow> 'car option"
  cs_put_witness :: "cid \<Rightarrow> 'car \<Rightarrow> 's \<Rightarrow> cas_error option \<times> 's"

definition witnessCAR :: "('car, 'block) car_lib \<Rightarrow> ('car, 's) car_stores \<Rightarrow> 'a stored_anchor_scheme option
    \<Rightarrow> ('s, 'car option) prog" where
  "witnessCAR lib stores anchor s =
     (case anchor of
        None \<Rightarrow> returnP None s
      | Some a \<Rightarrow>
          (case cs_witness stores (anchor_cid a) s of
             Some car \<Rightarrow> returnP (Some car) s
           | None \<Rightarrow>
               (case cs_merkle stores (proofCid a) s of
                  None \<Rightarrow> returnP None s
                | Some merkleCAR \<Rightarrow>
                    (case build_witness lib (anchor_cid a) merkleCAR of
                       Inl e \<Rightarrow> throwP e s
                     | Inr built \<Rightarrow>
                         (case cs_put_witness stores (anchor_cid a) built s of
                            (Some e, s') \<Rightarrow> throwP e s'
                          | (None, s') \<Rightarrow> returnP (Some built) s')))))"

definition notCompleted :: "id_parsers \<Rightarrow> request \<Rightarrow> cas_error + 'car cas_response" where
  "notCompleted ids r =
     bindE (parse_cid ids (req_cid r)) (\<lambda>c.
     bindE (parse_stream_id ids (streamId r)) (\<lambda>sid.
     Inr \<lparr>rp_id = req_id r, rp_status = name_from_status (status r), rp_cid = c, rp_streamId = sid,
          rp_message = message r, rp_createdAt = createdAt r, rp_updatedAt = updatedAt r,
          rp_anchorCommit = None, rp_witnessCar = None\<rparr>))"

text \<open>The rendering of a completed request; without an anchor, the request's own CID stands in.\<close>

definition completed_response :: "id_parsers \<Rightarrow> request \<Rightarrow> 'a stored_anchor_scheme option \<Rightarrow> 'car option
    \<Rightarrow> cas_error + 'car cas_response" where
  "completed_response ids r anchor witness =
     bindE (case anchor of Some a \<Rightarrow> Inr (anchor_cid a) | None \<Rightarrow> parse_cid ids (req_cid r)) (\<lambda>commit.
     bindE (parse_cid ids (req_cid r)) (\<lambda>c.
     bindE (parse_stream_id ids (streamId r)) (\<lambda>sid.
     Inr \<lparr>rp_id = req_id r, rp_status = COMPLETED_NAME, rp_cid = c, rp_streamId = sid,
          rp_message = message r, rp_createdAt = createdAt r, rp_updatedAt = updatedAt r,
          rp_anchorCommit = Some commit, rp_witnessCar = witness\<rparr>)))"

definition present :: "('car, 'block) car_lib \<Rightarrow> id_parsers \<Rightarrow> ('car, 's) car_stores \<Rightarrow> stored_anchor list
    \<Rightarrow> request \<Rightarrow> ('s, 'car cas_response) prog" where
  "present lib ids stores anchor_table r =
     (if status r = COMPLETED then
        let anchor = findByRequest r anchor_table
        in bindP (witnessCAR lib stores anchor) (\<lambda>witness. liftP (completed_response ids r anchor witness))
      else liftP (notCompleted ids r))"

section \<open>The request service\<close>

text \<open>
  The databases of one call: the main one, and what the read replica answers to a lookup by CID
  (an error, or a row that may be stale or missing).
\<close>

definition find_request :: "cas_error + request option \<Rightarrow> request option \<Rightarrow> cid \<Rightarrow> cas_error + request" where
  "find_request replica main c =
     (case (case replica of Inl e \<Rightarrow> None | Inr found \<Rightarrow> found) of
        Some r \<Rightarrow> Inr r
      | None \<Rightarrow> need (RequestDoesNotExist c) main)"

definition getStatusForCid :: "('car, 'block) car_lib \<Rightarrow> id_parsers \<Rightarrow> ('car, 's) car_stores \<Rightarrow> database
    \<Rightarrow> cas_error + request option \<Rightarrow> cid \<Rightarrow> ('s, 'car cas_response) prog" where
  "getStatusForCid lib ids stores db replica c =
     bindP (liftP (find_request replica (findByCid c (requests db)) c)) (\<lambda>r.
       present lib ids stores (anchors db) r)"

text \<open>The state of \<open>create\<close>: the database, the validation queue, and the car stores.\<close>

record 's request_world =
  rw_db :: database
  rw_queue :: "request_message list"
  rw_stores :: 's

definition new_request :: "anchor_params \<Rightarrow> string \<Rightarrow> date \<Rightarrow> partial_request" where
  "new_request params source now = empty_request\<lparr>p_cid := Some (ap_cid params), p_origin := Some source,
     p_streamId := Some (ap_streamId params), p_status := Some PENDING,
     p_message := Some ''Request is pending.'', p_pinned := Some True,
     p_timestamp := Some (case ap_timestamp params of Some t \<Rightarrow> t | None \<Rightarrow> now)\<rparr>"

definition queue_message_of :: "request \<Rightarrow> string \<Rightarrow> request_message" where
  "queue_message_of r source = \<lparr>q_rid = req_id r, q_cid = req_cid r, q_sid = streamId r, q_ts = timestamp r,
     q_org = source, q_crt = createdAt r\<rparr>"

definition createRequest :: "db_engine \<Rightarrow> bool \<Rightarrow> id_parsers \<Rightarrow> string \<Rightarrow> date \<Rightarrow> cas_error option
    \<Rightarrow> anchor_params \<Rightarrow> string \<Rightarrow> ('s request_world, 'car cas_response option) prog" where
  "createRequest e publishToQueue ids new_id now send_failure params source w =
     (case create new_id now (new_request params source now) (requests (rw_db w)) of
        Inl err \<Rightarrow> throwP err w
      | Inr (tbl, None) \<Rightarrow> returnP None w
      | Inr (tbl, Some stored) \<Rightarrow>
          (let w1 = w\<lparr>rw_db := (rw_db w)\<lparr>requests := tbl\<rparr>\<rparr>
           in if publishToQueue
              then bindP (callP send_failure (\<lambda>w. w\<lparr>rw_queue := rw_queue w @ [queue_message_of stored source]\<rparr>))
                     (\<lambda>_. liftP (bindE (notCompleted ids stored) (\<lambda>r. Inr (Some r)))) w1
              else bindP (modifyP (\<lambda>w. w\<lparr>rw_db := (rw_db w)\<lparr>requests := fst (markReplaced e stored (requests (rw_db w)))\<rparr>\<rparr>))
                     (\<lambda>_. liftP (bindE (notCompleted ids stored) (\<lambda>r. Inr (Some r)))) w1))"

section \<open>Presentation properties\<close>

text \<open>
  A presented witness comes from one of the stores or is built from a stored Merkle CAR, so it
  verifies when everything in the stores does.
\<close>

lemma witnessCAR_verifies:
  assumes "lawful_car lib" and "witnessCAR lib stores (Some a) s = Some (Inr (Some car), s')"
    and "\<And>w. cs_witness stores (anchor_cid a) s = Some w \<Longrightarrow> verify lib w = Inr (anchor_cid a)"
    and "\<And>m. cs_merkle stores (proofCid a) s = Some m \<Longrightarrow> \<exists>prev p r line x.
           proves_anchor lib m (anchor_cid a) prev p r line \<and> car_get lib m prev = Inr x"
  shows "verify lib car = Inr (anchor_cid a)"
proof (cases "cs_witness stores (anchor_cid a) s")
  case (Some w)
  then show ?thesis using assms(2,3) by (simp add: witnessCAR_def)
next
  case None
  then obtain m where m: "cs_merkle stores (proofCid a) s = Some m"
    "build_witness lib (anchor_cid a) m = Inr car"
    using assms(2) by (auto simp: witnessCAR_def split: option.splits sum.splits prod.splits)
  obtain prev p r line x where "proves_anchor lib m (anchor_cid a) prev p r line" "car_get lib m prev = Inr x"
    using assms(4) [OF m(1)] by blast
  then show ?thesis using built_witness [OF assms(1)] m(2) by fastforce
qed

text \<open>The stores of a deployment: DynamoDB for witnesses, S3 behind its cache for Merkle CARs.\<close>

definition aws_stores :: "('car, 'b) outside \<Rightarrow> ('car, 'b) outside \<Rightarrow> date \<Rightarrow> string
    \<Rightarrow> ('car, (cid \<rightharpoonup> 'b \<times> string) \<times> ('car, 'b) s3_state) car_stores" where
  "aws_stores ew em now ttl = \<lparr>cs_witness = (\<lambda>c s. dynamo_witness_get ew c (fst s)),
     cs_merkle = (\<lambda>c s. s3_retrieveCarFile em c (snd s)),
     cs_put_witness = (\<lambda>c car s. case dynamo_witness_store now ttl ew c car (fst s) of (r, t) \<Rightarrow> (r, (t, snd s)))\<rparr>"

definition empty_s3 :: "('car, 'b) s3_state" where
  "empty_s3 = \<lparr>s3_cache = (\<lambda>_. None), s3_store = (\<lambda>_. None)\<rparr>"


definition plain_outside :: "(assoc_car, assoc_car) outside" where
  "plain_outside = \<lparr>evicted = [''other''], write_failure = None, read_failure = None,
     to_bytes = (\<lambda>car. car), from_bytes = Inr\<rparr>"

definition example_anchor :: stored_anchor where
  "example_anchor = new_anchor ''x'' 5 \<lparr>requestId = ''1'', proofCid = ''proof'', path = ''1'', anchor_cid = ''commit''\<rparr>"

definition example_built :: assoc_car where
  "example_built = (case build_witness assoc_lib ''commit'' example_merkle_car of Inr w \<Rightarrow> w | Inl e \<Rightarrow> ([], []))"

lemma example_merkle_proves:
  "\<exists>prev r line x. proves_anchor assoc_lib example_merkle_car ''commit'' prev ''proof'' r line
    \<and> car_get assoc_lib example_merkle_car prev = Inr x"
proof (intro exI conjI)
  show "proves_anchor assoc_lib example_merkle_car ''commit'' ''leaf1'' ''proof'' ''root'' [R]"
    by (simp add: proves_anchor_def leads_Cons assoc_lib_def example_merkle_car_def list_get_def encode_path_def)
  show "car_get assoc_lib example_merkle_car ''leaf1'' = Inr None"
    by (simp add: assoc_lib_def example_merkle_car_def)
qed


section \<open>Creating a request\<close>

lemma new_request_stored:
  assumes "request_table_wf tbl" and "new_id \<notin> set (map req_id tbl)"
  shows "case findByCid (ap_cid params) tbl of
      Some r \<Rightarrow> create new_id now (new_request params source now) tbl = Inr (tbl, None)
    | None \<Rightarrow> \<exists>stored. create new_id now (new_request params source now) tbl = Inr (tbl @ [stored], Some stored)
        \<and> status stored = PENDING \<and> origin stored = Some source \<and> req_cid stored = ap_cid params
        \<and> streamId stored = ap_streamId params \<and> req_id stored = new_id"
  using assms
  by (auto simp: create_def new_request_def toDB_def insert_row_def empty_request_def findByCid_def
      find_none_iff image_iff split: option.splits dest: find_some_mem)


text \<open>
  RequestService.create: if the message of a new request cannot be sent, the client sees the
  error, but the request exists, so repeating the call, whatever the queue does then, is
  answered as for an existing request and the message is never sent.
\<close>

theorem createRequest_lost_message:
  assumes "request_table_wf (requests (rw_db w))" and "new_id \<notin> set (map req_id (requests (rw_db w)))"
    and "findByCid (ap_cid params) (requests (rw_db w)) = None"
  shows "\<exists>w'. createRequest e True ids new_id now (Some err) params source w = Some (Inl err :: cas_error + 'r cas_response option, w')
    \<and> rw_queue w' = rw_queue w
    \<and> (\<forall>id2 now2 failure2 from2. id2 \<notin> set (map req_id (requests (rw_db w'))) \<longrightarrow>
         createRequest e True ids id2 now2 failure2 params from2 w' = Some (Inr None :: cas_error + 'r cas_response option, w'))"
proof -
  obtain stored where stored:
    "create new_id now (new_request params source now) (requests (rw_db w)) = Inr (requests (rw_db w) @ [stored], Some stored)"
    "req_cid stored = ap_cid params" "req_id stored = new_id"
    using new_request_stored [OF assms(1,2), where params = params and now = now and source = source] assms(3) by auto
  define w' where "w' = w\<lparr>rw_db := (rw_db w)\<lparr>requests := requests (rw_db w) @ [stored]\<rparr>\<rparr>"
  have first: "createRequest e True ids new_id now (Some err) params source w = Some (Inl err :: cas_error + 'r cas_response option, w')"
    using stored(1) by (simp add: createRequest_def w'_def bindP_def callP_def)
  have wf: "request_table_wf (requests (rw_db w'))"
    using assms stored(2,3)
    by (auto simp: w'_def request_table_wf_def findByCid_def find_none_iff)
  have "findByCid (ap_cid params) (requests (rw_db w')) \<noteq> None"
    using stored(2) by (auto simp: w'_def findByCid_def find_none_iff)
  then have "createRequest e True ids id2 now2 failure2 params from2 w' = Some (Inr None :: cas_error + 'r cas_response option, w')"
    if "id2 \<notin> set (map req_id (requests (rw_db w')))" for id2 now2 failure2 from2
    using new_request_stored [OF wf that, where params = params and now = now2 and source = from2] by (auto simp: createRequest_def)
  with first show ?thesis by (intro exI [of _ w']) (simp add: w'_def)
qed

text \<open>The database of the examples, and a request for a new CID.\<close>

definition example_request_world :: "unit request_world" where
  "example_request_world = \<lparr>rw_db = example_db, rw_queue = [], rw_stores = ()\<rparr>"

definition example_anchor_params :: anchor_params where
  "example_anchor_params = \<lparr>ap_cid = ''new'', ap_streamId = ''s1'', ap_timestamp = Some 40\<rparr>"

definition example_create :: "((cas_error + unit cas_response option) \<times> unit request_world)" where
  "example_create = (case createRequest stable_engine True example_ids ''77'' 50 None example_anchor_params ''did:a''
     example_request_world of Some x \<Rightarrow> x | None \<Rightarrow> (Inr None, example_request_world))"


theorem createRequest_lost_message_witness:
  "\<exists>w'. createRequest stable_engine True example_ids ''77'' 50 (Some (LibraryError ''SQS'')) example_anchor_params
        ''did:a'' example_request_world = Some (Inl (LibraryError ''SQS'') :: cas_error + unit cas_response option, w')
    \<and> rw_queue w' = rw_queue example_request_world
    \<and> (\<forall>id2 now2 failure2 from2. id2 \<notin> set (map req_id (requests (rw_db w'))) \<longrightarrow>
         createRequest stable_engine True example_ids id2 now2 failure2 example_anchor_params from2 w'
           = Some (Inr None :: cas_error + unit cas_response option, w'))"
  by (rule createRequest_lost_message) code_simp+

end
