(* ===== verification/Http_Api.thy ===== *)
theory Http_Api
  imports Complex_Main Request_Service Ethereum
begin

text \<open>
  The HTTP interface: \<open>src/src/controllers\<close> (requests, health check, service information,
  anchoring on demand) and \<open>src/src/services/healthcheck-service.ts\<close>. A response is its status
  with what its body carries; the wording of error messages is left out.
\<close>

section \<open>The origin of a request\<close>

definition parseOriginIP :: "'b http_request \<Rightarrow> string" where
  "parseOriginIP req =
     (case given (header req ''sourceIp'') of
        Some sourceIp \<Rightarrow> sourceIp
      | None \<Rightarrow>
          (let addresses = (case given (header req ''X-Forwarded-For'') of Some x \<Rightarrow> x | None \<Rightarrow> ip req)
           in js_trim (hd (js_split (CHR '','') addresses))))"

definition parseOriginDID :: "'b http_request \<Rightarrow> string option" where
  "parseOriginDID req = header req ''did''"

definition parseOrigin :: "'b http_request \<Rightarrow> string" where
  "parseOrigin req = (case given (parseOriginDID req) of Some did \<Rightarrow> did | None \<Rightarrow> parseOriginIP req)"

section \<open>Responses\<close>

datatype api_error =
    MalformedCid
  | InvalidParams parse_error
  | StatusFailed cas_error
  | CreationFailed cas_error

datatype 'r http_response =
    OK 'r
  | CREATED 'r
  | ACCEPTED 'r
  | NOT_FOUND
  | BAD_REQUEST api_error
  | SERVER_ERROR
  | UNAVAILABLE

text \<open>The parts of a deployment the request controller is wired to.\<close>

record ('b, 'car, 'block, 's) api =
  api_http :: "('b, 'car) http_lib"
  api_lib :: "('car, 'block) car_lib"
  api_ids :: id_parsers
  api_codecs :: "'b param_codecs"
  api_stores :: "('car, 's) car_stores"
  api_engine :: db_engine
  api_publishToQueue :: bool

text \<open>
  What the outside answers during one call: the clock and the id of a new row, whether the queue
  accepts a message, and the table of the read replica, if it answers.
\<close>

record call_answers =
  ca_id :: string
  ca_now :: date
  ca_queue_failure :: "cas_error option"
  ca_replica :: "cas_error + request list"

section \<open>The request controller\<close>

definition on_stores :: "('s, 'a) prog \<Rightarrow> ('s request_world, 'a) prog" where
  "on_stores m w = (case m (rw_stores w) of None \<Rightarrow> None | Some (r, s) \<Rightarrow> Some (r, w\<lparr>rw_stores := s\<rparr>))"

text \<open>\<open>ReplicationRequestRepository.findByCid\<close>\<close>

definition replica_findByCid :: "cid \<Rightarrow> cas_error + request list \<Rightarrow> cas_error + request option" where
  "replica_findByCid c replica = map_sum id (find (\<lambda>r. req_cid r = c)) replica"

text \<open>\<open>RequestService.findByCid\<close>, the same code as its \<open>getStatusForCid\<close>.\<close>

definition service_lookup :: "('b, 'car, 'block, 's) api \<Rightarrow> call_answers \<Rightarrow> cid
    \<Rightarrow> ('s request_world, 'car cas_response) prog" where
  "service_lookup api answers c w =
     on_stores (getStatusForCid (api_lib api) (api_ids api) (api_stores api) (rw_db w)
       (replica_findByCid c (ca_replica answers)) c) w"

definition get_status :: "('b, 'car, 'block, 's) api \<Rightarrow> call_answers \<Rightarrow> string
    \<Rightarrow> ('s request_world, 'car cas_response http_response) prog" where
  "get_status api answers cid_param =
     (case parse_cid (api_ids api) cid_param of
        Inl _ \<Rightarrow> returnP (BAD_REQUEST MalformedCid)
      | Inr c \<Rightarrow>
          catchP (bindP (service_lookup api answers c) (\<lambda>response. returnP (OK response)))
            (\<lambda>err. returnP (case err of RequestDoesNotExist _ \<Rightarrow> NOT_FOUND | _ \<Rightarrow> BAD_REQUEST (StatusFailed err))))"

definition post_request :: "('b, 'car, 'block, 's) api \<Rightarrow> call_answers \<Rightarrow> 'b http_request
    \<Rightarrow> ('s request_world, 'car cas_response http_response) prog" where
  "post_request api answers req =
     (let source = parseOrigin req
      in case parse_params (api_codecs api) (api_http api) (api_lib api) req of
           Inl err \<Rightarrow> returnP (BAD_REQUEST (InvalidParams err))
         | Inr params \<Rightarrow>
             catchP
               (bindP (createRequest (api_engine api) (api_publishToQueue api) (api_ids api) (ca_id answers)
                         (ca_now answers) (ca_queue_failure answers) params source) (\<lambda>created.
                  case created of
                    Some response \<Rightarrow> returnP (CREATED response)
                  | None \<Rightarrow>
                      bindP (service_lookup api answers (ap_cid params)) (\<lambda>found. returnP (ACCEPTED found))))
               (\<lambda>err. returnP (BAD_REQUEST (CreationFailed err))))"

section \<open>Health check, service information, anchoring on demand\<close>

text \<open>
  \<open>HealthcheckService.isOK\<close> on the free shares of processor and memory; an error counts as not
  healthy.
\<close>

definition isOK :: "cas_error + rat \<times> rat \<Rightarrow> bool" where
  "isOK free = (case free of Inl err \<Rightarrow> False | Inr (cpu, mem) \<Rightarrow> \<not> (cpu < 1 / 20 \<or> mem < 1 / 5))"

definition get_health :: "cas_error + rat \<times> rat \<Rightarrow> unit http_response" where
  "get_health free = (if isOK free then OK () else UNAVAILABLE)"

text \<open>
  \<open>GET /supported_chains\<close>. The handler of the error calls \<open>err.message()\<close>, a string, which throws:
  the promise of the handler is rejected and no response is sent by it.
\<close>

definition getSupportedChains :: "eth_config \<Rightarrow> cas_error + string list http_response" where
  "getSupportedChains cfg = (case chain_id cfg of Inr c \<Rightarrow> Inr (OK [caipChainId c]) | Inl err \<Rightarrow> Inl TypeError)"

text \<open>The answer to \<open>POST /anchors\<close>, on the outcome of \<open>anchorRequests\<close>.\<close>

definition post_anchor :: "('s, 'a) prog \<Rightarrow> ('s, unit http_response) prog" where
  "post_anchor anchor = catchP (bindP anchor (\<lambda>_. returnP (OK ()))) (\<lambda>err. returnP SERVER_ERROR)"

section \<open>Repeating a request\<close>

lemma notCompleted_identity:
  assumes "notCompleted ids stored = Inr r" and "row_identity row = row_identity stored"
  shows "notCompleted ids row = Inr (r\<lparr>rp_status := name_from_status (status row), rp_message := message row,
      rp_updatedAt := updatedAt row\<rparr>)"
  using assms by (auto simp: notCompleted_def row_identity_def bindE_Inr_iff)

lemma post_created:
  assumes "post_request api answers req w = Some (Inr (CREATED r), w')"
  obtains params where "parse_params (api_codecs api) (api_http api) (api_lib api) req = Inr params"
    and "createRequest (api_engine api) (api_publishToQueue api) (api_ids api) (ca_id answers) (ca_now answers)
      (ca_queue_failure answers) params (parseOrigin req) w = Some (Inr (Some r), w')"
  using assms
  by (auto simp: post_request_def Let_def catchP_Inr_iff bindP_Inr_iff split: sum.splits option.splits)

lemma createRequest_created:
  assumes "request_table_wf (requests (rw_db w))" and "new_id \<notin> set (map req_id (requests (rw_db w)))"
    and "createRequest e q ids new_id now failure params source w = Some (Inr (Some r), w')"
  obtains stored where "req_cid stored = ap_cid params" and "notCompleted ids stored = Inr r"
    and "row_identity stored \<in> row_identity ` set (requests (rw_db w'))"
proof -
  have "findByCid (ap_cid params) (requests (rw_db w)) = None"
    using new_request_stored [OF assms(1,2), where params = params and now = now and source = source] assms(3)
    by (auto simp: createRequest_def split: option.splits)
  then obtain stored where stored:
    "create new_id now (new_request params source now) (requests (rw_db w)) = Inr (requests (rw_db w) @ [stored], Some stored)"
    "req_cid stored = ap_cid params"
    using new_request_stored [OF assms(1,2), where params = params and now = now and source = source] by auto
  have "notCompleted ids stored = Inr r \<and> (requests (rw_db w') = requests (rw_db w) @ [stored]
      \<or> requests (rw_db w') = fst (markReplaced e stored (requests (rw_db w) @ [stored])))"
    using assms(3) stored(1)
    by (auto simp: createRequest_def Let_def bindP_Inr_iff callP_Inr_iff bindE_Inr_iff split: if_splits)
  moreover from this have "row_identity stored \<in> row_identity ` set (requests (rw_db w'))"
    using repl.identity_kept [of e stored "requests (rw_db w) @ [stored]"]
    by (metis image_eqI in_set_conv_decomp list.set_map)
  ultimately show ?thesis using that stored(2) by blast
qed

lemma lookup_stored:
  assumes "request_table_wf (requests (rw_db w))" and "row \<in> set (requests (rw_db w))" and "status row \<noteq> COMPLETED"
    and "\<forall>rows. ca_replica answers = Inr rows \<longrightarrow> findByCid c rows \<in> {None, Some row}"
    and "notCompleted (api_ids api) row = Inr r" and "req_cid row = c"
  shows "service_lookup api answers c w = Some (Inr r, w)"
proof -
  have "findByCid c (requests (rw_db w)) = Some row"
    using assms(1,2,6) find_unique_key [of req_cid "requests (rw_db w)" row]
    by (simp add: findByCid_def request_table_wf_def)
  then have "find_request (replica_findByCid c (ca_replica answers)) (findByCid c (requests (rw_db w))) c = Inr row"
    using assms(4) by (cases "ca_replica answers")
      (auto simp: find_request_def need_def replica_findByCid_def findByCid_def)
  then show ?thesis
    using assms(3,5) by (simp add: service_lookup_def on_stores_def getStatusForCid_def bindP_def present_def)
qed

text \<open>
  What a client sees of a request that is stored as \<open>stored\<close> and was answered with \<open>r\<close>: as long as
  the row is there and not completed, and the read replica is down, behind, or up to date, the same
  POST is accepted, a GET succeeds, both show the row's current state and neither changes anything.
\<close>

definition answered_again :: "('b, 'car, 'block, 's) api \<Rightarrow> 'b http_request \<Rightarrow> cid \<Rightarrow> request \<Rightarrow> 'car cas_response \<Rightarrow> bool" where
  "answered_again api req c stored r \<longleftrightarrow>
     (\<forall>w row answers. request_table_wf (requests (rw_db w)) \<and> row \<in> set (requests (rw_db w))
         \<and> row_identity row = row_identity stored \<and> status row \<noteq> COMPLETED
         \<and> (\<forall>rows. ca_replica answers = Inr rows \<longrightarrow> findByCid c rows \<in> {None, Some row}) \<longrightarrow>
       (let r2 = r\<lparr>rp_status := name_from_status (status row), rp_message := message row, rp_updatedAt := updatedAt row\<rparr>
        in post_request api answers req w = Some (Inr (ACCEPTED r2), w)
         \<and> (\<forall>cid_param. parse_cid (api_ids api) cid_param = Inr c \<longrightarrow>
              get_status api answers cid_param w = Some (Inr (OK r2), w))))"

text \<open>
  RequestController: after a request was created, in every later state in which its row is
  still there and not completed, whatever the read replica knows, posting it again stores and
  sends nothing and is accepted with the row's current state, which is also what asking for its
  status gives.
\<close>

theorem post_repeated:
  fixes api :: "('b, 'car, 'block, 's) api"
  assumes "request_table_wf (requests (rw_db w))" and "ca_id answers \<notin> set (map req_id (requests (rw_db w)))"
    and "post_request api answers req w = Some (Inr (CREATED r), w')"
  shows "\<exists>stored params. parse_params (api_codecs api) (api_http api) (api_lib api) req = Inr params
    \<and> req_cid stored = ap_cid params \<and> row_identity stored \<in> row_identity ` set (requests (rw_db w'))
    \<and> answered_again api req (ap_cid params) stored r"
proof -
  obtain params where params: "parse_params (api_codecs api) (api_http api) (api_lib api) req = Inr params"
    "createRequest (api_engine api) (api_publishToQueue api) (api_ids api) (ca_id answers) (ca_now answers)
      (ca_queue_failure answers) params (parseOrigin req) w = Some (Inr (Some r), w')"
    using post_created [OF assms(3)] .
  obtain stored where stored: "req_cid stored = ap_cid params" "notCompleted (api_ids api) stored = Inr r"
    "row_identity stored \<in> row_identity ` set (requests (rw_db w'))"
    using createRequest_created [OF assms(1,2) params(2)] .
  have "post_request api answers2 req w2 = Some (Inr (ACCEPTED r2), w2)
      \<and> (\<forall>cid_param. parse_cid (api_ids api) cid_param = Inr (ap_cid params) \<longrightarrow>
           get_status api answers2 cid_param w2 = Some (Inr (OK r2), w2))"
    if r2: "r2 = r\<lparr>rp_status := name_from_status (status row), rp_message := message row, rp_updatedAt := updatedAt row\<rparr>"
      and row: "request_table_wf (requests (rw_db w2))" "row \<in> set (requests (rw_db w2))"
        "row_identity row = row_identity stored" "status row \<noteq> COMPLETED"
        "\<forall>rows. ca_replica answers2 = Inr rows \<longrightarrow> findByCid (ap_cid params) rows \<in> {None, Some row}"
    for w2 row answers2 r2
  proof -
    have c: "req_cid row = ap_cid params" using row(3) stored(1) by (simp add: row_identity_def)
    have found: "service_lookup api answers2 (ap_cid params) w2 = Some (Inr r2, w2)"
      using lookup_stored [OF row(1,2,4,5) _ c] notCompleted_identity [OF stored(2) row(3)] r2 by simp
    have known: "ap_cid params \<in> set (map req_cid (requests (rw_db w2)))"
      using row(2) c by (metis image_eqI list.set_map)
    then have "createRequest (api_engine api) (api_publishToQueue api) (api_ids api) (ca_id answers2)
        (ca_now answers2) (ca_queue_failure answers2) params (parseOrigin req) w2
        = Some (Inr (None :: 'car cas_response option), w2)"
      by (simp add: createRequest_def create_def new_request_def empty_request_def toDB_def insert_row_def)
    then show ?thesis using found params(1)
      by (simp add: post_request_def get_status_def catchP_def bindP_def)
  qed
  then have "answered_again api req (ap_cid params) stored r"
    by (simp add: answered_again_def Let_def)
  with params(1) stored(1,3) show ?thesis by blast
qed

text \<open>The deployment of the examples: JSON parameters, a queue, no car stores.\<close>

definition example_api :: "(string, assoc_car, cid \<times> ipld, unit) api" where
  "example_api = \<lparr>api_http = example_http, api_lib = assoc_lib, api_ids = example_ids, api_codecs = example_codecs,
     api_stores = \<lparr>cs_witness = (\<lambda>_ _. None), cs_merkle = (\<lambda>_ _. None), cs_put_witness = (\<lambda>_ _ s. (None, s))\<rparr>,
     api_engine = stable_engine, api_publishToQueue = True\<rparr>"

definition example_call :: call_answers where
  "example_call = \<lparr>ca_id = ''77'', ca_now = 50, ca_queue_failure = None, ca_replica = Inl (DbError ''down'')\<rparr>"

definition example_posted :: "(cas_error + assoc_car cas_response http_response) \<times> unit request_world" where
  "example_posted = (case post_request example_api example_call (example_post []) example_request_world of
     Some x \<Rightarrow> x | None \<Rightarrow> (Inl TypeError, example_request_world))"

lemma example_posted_created:
  "\<exists>r. post_request example_api example_call (example_post []) example_request_world
     = Some (Inr (CREATED r), snd example_posted)"
proof -
  have "case fst example_posted of Inr (CREATED r) \<Rightarrow> True | _ \<Rightarrow> False" by code_simp
  then show ?thesis
    by (auto simp: example_posted_def split: option.splits sum.splits http_response.splits)
qed

theorem post_repeated_witness:
  "\<exists>r r2. post_request example_api example_call (example_post []) example_request_world
        = Some (Inr (CREATED r), snd example_posted)
    \<and> post_request example_api example_call (example_post []) (snd example_posted)
        = Some (Inr (ACCEPTED r2), snd example_posted)
    \<and> get_status example_api example_call ''new'' (snd example_posted) = Some (Inr (OK r2), snd example_posted)"
proof -
  obtain r where run: "post_request example_api example_call (example_post []) example_request_world
      = Some (Inr (CREATED r), snd example_posted)" using example_posted_created by blast
  have wf: "request_table_wf (requests (rw_db example_request_world))" "request_table_wf (requests (rw_db (snd example_posted)))"
    and fresh: "ca_id example_call \<notin> set (map req_id (requests (rw_db example_request_world)))"
    and live: "\<forall>row\<in>set (requests (rw_db (snd example_posted))). req_cid row = ''new'' \<longrightarrow> status row \<noteq> COMPLETED"
    by code_simp+
  have params: "parse_params (api_codecs example_api) (api_http example_api) (api_lib example_api) (example_post [])
      = Inr example_json_params" by code_simp
  obtain stored where stored: "req_cid stored = ''new''"
    "row_identity stored \<in> row_identity ` set (requests (rw_db (snd example_posted)))"
    and again: "answered_again example_api (example_post []) ''new'' stored r"
    using post_repeated [OF wf(1) fresh run] params by (auto simp: example_json_params_def)
  obtain row where row: "row \<in> set (requests (rw_db (snd example_posted)))" "row_identity row = row_identity stored"
    using stored(2) by auto
  have "req_cid row = ''new''" using row(2) stored(1) by (simp add: row_identity_def)
  then have "status row \<noteq> COMPLETED" using live row(1) by simp
  moreover have "\<forall>rows. ca_replica example_call \<noteq> Inr rows" "parse_cid (api_ids example_api) ''new'' = Inr ''new''"
    by (simp_all add: example_call_def example_api_def example_ids_def)
  ultimately show ?thesis
    using again row wf(2) run unfolding answered_again_def Let_def by blast
qed

end
