(* ===== verification/Multiprocess.thy ===== *)
theory Multiprocess
  imports CAS_Prelude Complex_Main
begin

text \<open>
  \<open>src/src/ancillary/multiprocess.ts\<close>: how many worker processes the HTTP server is spread over, the
  loop that forks them, and what the primary process does when workers end. Numbers are those of
  JavaScript as far as they occur here: rationals, because a CPU quota is a quotient, the infinities,
  and \<open>NaN\<close>. On quotients of integers below 2 to the power 53 subtracting one is exact.
\<close>

section \<open>Numbers\<close>

datatype js_number = Finite rat | Infinite bool | NaN     \<comment> \<open>\<open>Infinite True\<close> is positive\<close>

fun js_div :: "js_number \<Rightarrow> js_number \<Rightarrow> js_number" where
  "js_div (Finite a) (Finite b) =
     (if b \<noteq> 0 then Finite (a / b) else if a = 0 then NaN else Infinite (0 < a))"
| "js_div (Infinite p) (Finite b) = Infinite (if b < 0 then \<not> p else p)"
| "js_div (Finite a) (Infinite p) = Finite 0"
| "js_div _ _ = NaN"

fun js_positive :: "js_number \<Rightarrow> bool" where
  "js_positive (Finite a) = (0 < a)"
| "js_positive (Infinite p) = p"
| "js_positive NaN = False"

fun js_pred :: "js_number \<Rightarrow> js_number" where
  "js_pred (Finite a) = Finite (a - 1)"
| "js_pred (Infinite p) = Infinite p"
| "js_pred NaN = NaN"

fun js_falsy :: "js_number \<Rightarrow> bool" where
  "js_falsy (Finite a) = (a = 0)"
| "js_falsy (Infinite p) = False"
| "js_falsy NaN = True"

text \<open>\<open>a || b\<close>, where \<open>None\<close> is \<open>undefined\<close>.\<close>

definition js_or :: "js_number option \<Rightarrow> js_number \<Rightarrow> js_number" where
  "js_or a b = (case a of Some v \<Rightarrow> if js_falsy v then b else v | None \<Rightarrow> b)"

section \<open>How many processes\<close>

text \<open>
  The machine: the numbers in the two files of the control group (\<open>None\<close>: reading fails), the CPUs
  the operating system reports, and the variable \<open>MULTIPROCESS_SIZE\<close>.
\<close>

record machine =
  cfs_quota_us :: "js_number option"
  cfs_period_us :: "js_number option"
  cpu_count :: nat
  MULTIPROCESS_SIZE :: "string option"

definition readCPULimits :: "machine \<Rightarrow> js_number" where
  "readCPULimits m =
     (case (cfs_quota_us m, cfs_period_us m) of
        (Some quota, Some period) \<Rightarrow> js_div quota period
      | _ \<Rightarrow> Finite (- 1))"

definition cpuSize :: "machine \<Rightarrow> js_number" where
  "cpuSize m =
     (let maybeResult = readCPULimits m
      in if js_positive maybeResult then maybeResult else Finite (of_nat (cpu_count m)))"

definition workersFromEnv :: "machine \<Rightarrow> js_number option" where
  "workersFromEnv m =
     (case MULTIPROCESS_SIZE m of
        None \<Rightarrow> None
      | Some [] \<Rightarrow> None
      | Some s \<Rightarrow> Some (case parse_int10 s of None \<Rightarrow> NaN | Some i \<Rightarrow> Finite (of_int i)))"

definition process_count :: "js_number option \<Rightarrow> machine \<Rightarrow> js_number" where
  "process_count workers m = js_or workers (js_or (workersFromEnv m) (cpuSize m))"

section \<open>Forking\<close>

text \<open>\<open>while (processes) { processes -= 1; cluster.fork() }\<close>: how often it forks, if it ends.\<close>

partial_function (option) fork_loop :: "js_number \<Rightarrow> nat option" where
  "fork_loop processes =
     (if js_falsy processes then Some 0
      else Option.bind (fork_loop (js_pred processes)) (\<lambda>n. Some (Suc n)))"

lemma fork_loop_nat: "fork_loop (Finite (of_nat n)) = Some n"
proof (induction n)
  case (Suc n)
  have "js_pred (Finite (of_nat (Suc n))) = Finite (of_nat n)" by simp
  then show ?case using Suc
    by (subst fork_loop.simps) (simp del: js_pred.simps add: of_nat_neq_0)
qed (simp add: fork_loop.simps)

lemma fork_loop_ends:
  assumes "fork_loop p = Some n"
  shows "p = NaN \<and> n = 0 \<or> p = Finite (of_nat n)"
proof (rule fork_loop.raw_induct [OF _ assms])
  fix loop p n
  assume IH: "\<And>p n. loop p = Some n \<Longrightarrow> p = NaN \<and> n = 0 \<or> p = Finite (of_nat n)"
    and run: "(if js_falsy p then Some 0
      else Option.bind (loop (js_pred p)) (\<lambda>n. Some (Suc n))) = Some n"
  show "p = NaN \<and> n = 0 \<or> p = Finite (of_nat n)"
  proof (cases "js_falsy p")
    case True
    with run show ?thesis by (cases p) auto
  next
    case False
    with run obtain k where k: "loop (js_pred p) = Some k" "n = Suc k"
      by (auto simp: bind_eq_Some_conv)
    with IH [OF k(1)] False show ?thesis by (cases p) (auto simp: algebra_simps)
  qed
qed

lemma fork_loop_iff: "fork_loop p = Some n \<longleftrightarrow> p = NaN \<and> n = 0 \<or> p = Finite (of_nat n)"
proof
  show "fork_loop p = Some n" if "p = NaN \<and> n = 0 \<or> p = Finite (of_nat n)"
  proof (cases "p = NaN")
    case True
    then show ?thesis using that by (subst fork_loop.simps) simp
  next
    case False
    then show ?thesis using that fork_loop_nat by simp
  qed
qed (rule fork_loop_ends)

section \<open>Starting\<close>

text \<open>A field of the options: absent, present with the value \<open>undefined\<close>, or given.\<close>

datatype 'a field = Absent | Undefined | Given 'a

text \<open>\<open>{ ...DEFAULT_OPTIONS, ...options }\<close>: a field that is present counts, even with \<open>undefined\<close>.\<close>

fun spread :: "'a \<Rightarrow> 'a field \<Rightarrow> 'a option" where
  "spread d Absent = Some d"
| "spread d Undefined = None"
| "spread d (Given v) = Some v"

record options =
  opt_keepAlive :: "bool field"
  opt_autostart :: "bool field"
  opt_workers :: "js_number option"

text \<open>The primary process: the workers that are alive, and what it did.\<close>

record cluster =
  keepAlive :: bool
  live :: "nat set"         \<comment> \<open>ids of the workers that have not ended\<close>
  killed :: "nat set"
  forked :: nat             \<comment> \<open>\<open>cluster.fork()\<close> calls; the next id\<close>
  exits :: nat              \<comment> \<open>\<open>exit\<close> events\<close>
  working :: bool           \<comment> \<open>\<open>work\<close> runs in this process\<close>
  offline :: nat            \<comment> \<open>\<open>offline\<close> events\<close>

definition cluster_fork :: "cluster \<Rightarrow> cluster" where
  "cluster_fork s = s\<lparr>live := insert (forked s) (live s), forked := Suc (forked s)\<rparr>"

definition multiprocess_start :: "js_number option \<Rightarrow> machine \<Rightarrow> cluster \<Rightarrow> cluster option" where
  "multiprocess_start workers m s =
     (if workers = Some (Finite 0) then Some (s\<lparr>working := True\<rparr>)
      else map_option (\<lambda>n. (cluster_fork ^^ n) s) (fork_loop (process_count workers m)))"

definition multiprocess :: "bool \<Rightarrow> options \<Rightarrow> machine \<Rightarrow> cluster option" where
  "multiprocess isWorker opts m =
     (let keep = (case spread True (opt_keepAlive opts) of None \<Rightarrow> True | Some b \<Rightarrow> b);
          s = \<lparr>keepAlive = keep, live = {}, killed = {}, forked = 0, exits = 0, working = False, offline = 0\<rparr>
      in if spread True (opt_autostart opts) \<noteq> Some True then Some s
         else if isWorker then Some (s\<lparr>working := True\<rparr>)
         else multiprocess_start (opt_workers opts) m s)"

definition fork :: "cluster \<Rightarrow> cluster" where
  "fork s = (if keepAlive s then cluster_fork s else s)"

text \<open>\<open>stop\<close> in the primary; the killed workers end later.\<close>

definition stop :: "cluster \<Rightarrow> cluster" where
  "stop s = s\<lparr>keepAlive := False, killed := killed s \<union> live s, working := False, offline := Suc (offline s)\<rparr>"

text \<open>The options \<open>CeramicAnchorServer.start\<close> passes; \<open>JEST_WORKER_ID\<close> is set by a test runner.\<close>

definition server_options :: "bool \<Rightarrow> options" where
  "server_options jest = \<lparr>opt_keepAlive = Given False, opt_autostart = Absent,
     opt_workers = (if jest then Some (Finite 0) else None)\<rparr>"

inductive cluster_step :: "cluster \<Rightarrow> cluster \<Rightarrow> bool" where
  worker_exit: "w \<in> live s \<Longrightarrow>
    cluster_step s (fork (s\<lparr>live := live s - {w}, exits := Suc (exits s)\<rparr>))"
| signal: "cluster_step s (stop s)"

lemma forks: "(cluster_fork ^^ n) s = s\<lparr>live := live s \<union> {forked s..<forked s + n}, forked := forked s + n\<rparr>"
  by (induction n) (auto simp: cluster_fork_def atLeastLessThanSuc)

lemma multiprocess_starts:
  assumes "spread True (opt_autostart opts) = Some True" and "opt_workers opts \<noteq> Some (Finite 0)"
    and "process_count (opt_workers opts) m \<noteq> NaN"
  shows "multiprocess False opts m = Some s \<longleftrightarrow> (\<exists>n. process_count (opt_workers opts) m = Finite (of_nat n)
     \<and> s = \<lparr>keepAlive = (case spread True (opt_keepAlive opts) of None \<Rightarrow> True | Some b \<Rightarrow> b),
          live = {..<n}, killed = {}, forked = n, exits = 0, working = False, offline = 0\<rparr>)"
proof (cases "fork_loop (process_count (opt_workers opts) m)")
  case None
  then have "process_count (opt_workers opts) m \<noteq> Finite (of_nat n)" for n
    using fork_loop_nat [of n] by auto
  then show ?thesis
    using None assms(1,2) by (simp add: multiprocess_def multiprocess_start_def Let_def)
next
  case (Some n)
  then have count: "process_count (opt_workers opts) m = Finite (of_nat n)"
    using fork_loop_ends assms(3) by blast
  have "multiprocess False opts m = Some \<lparr>keepAlive = (case spread True (opt_keepAlive opts) of None \<Rightarrow> True | Some b \<Rightarrow> b),
          live = {..<n}, killed = {}, forked = n, exits = 0, working = False, offline = 0\<rparr>"
    using Some assms(1,2) by (simp add: multiprocess_def multiprocess_start_def Let_def forks lessThan_atLeast0)
  then show ?thesis by (simp add: count eq_commute)
qed

lemma process_count_number: "process_count None m \<noteq> NaN"
proof -
  have "\<not> js_positive NaN" by simp
  then have "cpuSize m \<noteq> NaN" unfolding cpuSize_def Let_def by (metis js_number.distinct(3))
  then show ?thesis by (auto simp: process_count_def js_or_def split: option.splits)
qed

lemma server_starts:
  "multiprocess False (server_options False) m = Some s \<longleftrightarrow> (\<exists>n. process_count None m = Finite (of_nat n)
     \<and> s = \<lparr>keepAlive = False, live = {..<n}, killed = {}, forked = n, exits = 0, working = False, offline = 0\<rparr>)"
proof -
  have opts: "spread True (opt_autostart (server_options False)) = Some True" "opt_workers (server_options False) = None"
    "(case spread True (opt_keepAlive (server_options False)) of None \<Rightarrow> True | Some b \<Rightarrow> b) = False"
    by (simp_all add: server_options_def)
  then have "opt_workers (server_options False) \<noteq> Some (Finite 0)" by simp
  moreover have "process_count (opt_workers (server_options False)) m \<noteq> NaN"
    unfolding opts(2) by (rule process_count_number)
  ultimately show ?thesis
    using multiprocess_starts [OF opts(1), of m s] unfolding opts(2,3) by simp
qed

text \<open>
  C15 (CeramicAnchorServer.start, Multiprocess.start): outside tests the server starts exactly if the
  number of processes is a natural number, and then with as many workers. Otherwise the loop that
  forks them does not end: so it is for every CPU quota that is no multiple of its period, such as
  one and a half CPUs, when \<open>MULTIPROCESS_SIZE\<close> is not set.
\<close>

theorem server_start_ends_iff:
  "(multiprocess False (server_options False) m = Some s \<longleftrightarrow>
      (\<exists>n. process_count None m = Finite (of_nat n)
         \<and> s = \<lparr>keepAlive = False, live = {..<n}, killed = {}, forked = n, exits = 0, working = False, offline = 0\<rparr>))
   \<and> (workersFromEnv m = None \<and> cfs_quota_us m = Some (Finite q) \<and> cfs_period_us m = Some (Finite p)
        \<and> 0 < q \<and> 0 < p \<and> (\<nexists>n. q = of_nat n * p) \<longrightarrow> multiprocess False (server_options False) m = None)"
proof
  show iff: "multiprocess False (server_options False) m = Some s \<longleftrightarrow>
      (\<exists>n. process_count None m = Finite (of_nat n)
         \<and> s = \<lparr>keepAlive = False, live = {..<n}, killed = {}, forked = n, exits = 0, working = False, offline = 0\<rparr>)"
    for s
    by (rule server_starts)
  show "workersFromEnv m = None \<and> cfs_quota_us m = Some (Finite q) \<and> cfs_period_us m = Some (Finite p)
        \<and> 0 < q \<and> 0 < p \<and> (\<nexists>n. q = of_nat n * p) \<longrightarrow> multiprocess False (server_options False) m = None"
  proof
    assume *: "workersFromEnv m = None \<and> cfs_quota_us m = Some (Finite q) \<and> cfs_period_us m = Some (Finite p)
        \<and> 0 < q \<and> 0 < p \<and> (\<nexists>n. q = of_nat n * p)"
    then have "process_count None m = Finite (q / p)"
      by (simp add: process_count_def js_or_def cpuSize_def readCPULimits_def)
    moreover have "q / p \<noteq> of_nat n" for n using * by (auto simp: divide_eq_eq)
    ultimately have "multiprocess False (server_options False) m \<noteq> Some s" for s
      using iff [of s] by simp
    then show "multiprocess False (server_options False) m = None" by (cases "multiprocess False (server_options False) m") auto
  qed
qed

theorem server_start_ends_iff_witness:
  "multiprocess False (server_options False) \<lparr>cfs_quota_us = Some (Finite 150000), cfs_period_us = Some (Finite 100000),
     cpu_count = 8, MULTIPROCESS_SIZE = None\<rparr> = None"
proof -
  have "\<nexists>n. (150000 :: rat) = of_nat n * 100000"
  proof
    assume "\<exists>n. (150000 :: rat) = of_nat n * 100000"
    then obtain n where "(150000 :: rat) = of_nat n * 100000" ..
    then have "rat_of_nat 150000 = rat_of_nat (n * 100000)" by (simp only: of_nat_mult of_nat_numeral)
    then have "150000 = n * 100000" by (simp only: of_nat_eq_iff)
    moreover have "n \<le> 1 \<or> 2 \<le> n" by arith
    ultimately show False by linarith
  qed
  then show ?thesis
    using server_start_ends_iff [of "\<lparr>cfs_quota_us = Some (Finite 150000), cfs_period_us = Some (Finite 100000),
     cpu_count = 8, MULTIPROCESS_SIZE = None\<rparr>" undefined 150000 100000] by (simp add: workersFromEnv_def)
qed

section \<open>Workers that end\<close>

text \<open>Bookkeeping of the primary: ids are not used twice, and every worker is alive or has ended.\<close>

definition cluster_ok :: "nat \<Rightarrow> cluster \<Rightarrow> bool" where
  "cluster_ok n s \<longleftrightarrow> live s \<subseteq> {..<forked s} \<and> card (live s) + exits s = forked s
     \<and> (keepAlive s \<longrightarrow> card (live s) = n \<and> offline s = 0)
     \<and> (0 < offline s \<longrightarrow> live s \<subseteq> killed s)"

lemma cluster_step_ok:
  assumes "cluster_step s t" and "cluster_ok n s"
  shows "cluster_ok n t"
  using assms(1)
proof cases
  case (worker_exit w)
  have fin: "finite (live s)" using assms(2) finite_subset by (auto simp: cluster_ok_def)
  have pos: "0 < card (live s)" using worker_exit(2) fin by (auto simp: card_gt_0_iff)
  have "forked s \<notin> live s" using assms(2) by (auto simp: cluster_ok_def)
  then show ?thesis
    using worker_exit assms(2) fin pos by (auto simp: cluster_ok_def fork_def cluster_fork_def)
next
  case signal
  then show ?thesis using assms(2) by (auto simp: cluster_ok_def stop_def)
qed

text \<open>
  Multiprocess: while nothing stopped it, a primary that keeps its workers alive has as many as
  it started; one that does not, as the server's, never forks again, so that a worker that ended is
  missing for good. After \<open>stop\<close> no worker is forked and every worker that is left has been killed.
\<close>

theorem cluster_workers:
  assumes "multiprocess False opts m = Some s0" and "cluster_step\<^sup>*\<^sup>* s0 s"
  shows "card (live s) + exits s = forked s
     \<and> (keepAlive s \<longrightarrow> card (live s) = forked s0)
     \<and> (\<not> keepAlive s0 \<longrightarrow> forked s = forked s0)
     \<and> (0 < offline s \<longrightarrow> live s \<subseteq> killed s \<and> (\<forall>t. cluster_step\<^sup>*\<^sup>* s t \<longrightarrow> forked t = forked s))"
proof -
  have s0: "cluster_ok (forked s0) s0"
  proof -
    have "\<exists>k n w. s0 = \<lparr>keepAlive = k, live = {0..<n}, killed = {}, forked = n, exits = 0, working = w, offline = 0\<rparr>"
      using assms(1) by (auto simp: multiprocess_def multiprocess_start_def Let_def forks split: if_splits)
    then show ?thesis by (auto simp: cluster_ok_def)
  qed
  have ok: "cluster_ok (forked s0) s"
    using assms(2) s0 by (induction rule: rtranclp_induct) (auto intro: cluster_step_ok)
  have step: "\<not> keepAlive b \<and> forked b = forked a" if "cluster_step a b" "\<not> keepAlive a" for a b
    using that by cases (simp_all add: fork_def stop_def)
  have frozen: "\<not> keepAlive b \<and> forked b = forked a" if "cluster_step\<^sup>*\<^sup>* a b" "\<not> keepAlive a" for a b
    using that by (induction rule: rtranclp_induct) (auto dest: step)
  have "\<not> keepAlive s" if "0 < offline s" using ok that by (auto simp: cluster_ok_def)
  then have "0 < offline s \<Longrightarrow> cluster_step\<^sup>*\<^sup>* s t \<Longrightarrow> forked t = forked s" for t
    using frozen by blast
  moreover have "\<not> keepAlive s0 \<Longrightarrow> forked s = forked s0" using frozen [OF assms(2)] by blast
  ultimately show ?thesis using ok unfolding cluster_ok_def by blast
qed

theorem cluster_workers_witness:
  "\<exists>s. cluster_step\<^sup>*\<^sup>* \<lparr>keepAlive = False, live = {..<2}, killed = {}, forked = 2, exits = 0, working = False, offline = 0\<rparr> s
     \<and> card (live s) = 1 \<and> card (live s) + exits s = 2"
proof -
  let ?m = "\<lparr>cfs_quota_us = None, cfs_period_us = None, cpu_count = 2, MULTIPROCESS_SIZE = None\<rparr>"
    and ?started = "\<lparr>keepAlive = False, live = {..<2}, killed = {}, forked = 2, exits = 0, working = False, offline = 0\<rparr>"
    and ?after = "\<lparr>keepAlive = False, live = {..<2} - {0}, killed = {}, forked = 2, exits = 1, working = False, offline = 0\<rparr>"
  have count: "process_count None ?m = Finite 2"
    by (simp add: process_count_def js_or_def cpuSize_def readCPULimits_def workersFromEnv_def)
  have "(2 :: rat) = of_nat n \<longleftrightarrow> n = 2" for n
    by (metis of_nat_eq_iff of_nat_numeral)
  with count have run0: "multiprocess False (server_options False) ?m = Some ?started"
    unfolding server_starts by simp
  have "cluster_step ?started ?after" using worker_exit [of 0 ?started] by (simp add: fork_def)
  then have run: "cluster_step\<^sup>*\<^sup>* ?started ?after" by simp
  have "card (live ?after) + exits ?after = forked ?after" using cluster_workers [OF run0 run] by blast
  with run show ?thesis by (intro exI [of _ ?after]) simp
qed

end
