(* ===== verification/Task_Scheduler.thy ===== *)
theory Task_Scheduler
  imports Effects
begin

text \<open>
  \<open>src/src/services/task-scheduler-service.ts\<close> (repeating a task until it is aborted, fails, or has
  nothing to do). It is an RxJS pipeline; the model is what its subscriber sees, on the outcomes of
  the successive runs of the task.
\<close>

section \<open>The scheduler\<close>

text \<open>
  One round: whether the scheduler was stopped when the round began, what the task returned
  (\<open>None\<close>: \<open>undefined\<close>) or threw, and whether it was stopped when the task ended.
\<close>

record round =
  stopped_before :: bool
  result :: "cas_error + bool option"
  stopped_after :: bool

text \<open>How the pipeline ends: it completes, calling back if a callback is set, or the process exits.\<close>

datatype ending = Completed bool | ProcessExit cas_error

text \<open>\<open>result === undefined || result\<close>\<close>

definition successful :: "bool option \<Rightarrow> bool" where
  "successful r = (case r of None \<Rightarrow> True | Some b \<Rightarrow> b)"

text \<open>
  The ending, if the given rounds reach one, and how often the task ran. A round that begins after
  a stop emits \<open>false\<close> without running the task, and is the last one.
\<close>

fun schedule :: "bool \<Rightarrow> round list \<Rightarrow> ending option \<times> nat" where
  "schedule cb [] = (None, 0)"
| "schedule cb (r # rs) =
     (if stopped_before r then (Some (Completed cb), 0)
      else case result r of
        Inl err \<Rightarrow> (Some (if stopped_after r then Completed cb else ProcessExit err), 1)
      | Inr v \<Rightarrow>
          (if stopped_after r then (Some (Completed cb), 1)
           else if cb \<and> \<not> successful v then (Some (Completed cb), 1)
           else (case schedule cb rs of (e, n) \<Rightarrow> (e, Suc n))))"

record scheduler =
  scheduled :: bool
  subscribed :: bool
  aborted :: bool

definition start :: "scheduler \<Rightarrow> cas_error + scheduler" where
  "start s = (if scheduled s then Inl (LibraryError ''Task already scheduled'')
     else Inr (s\<lparr>scheduled := True, subscribed := True\<rparr>))"

text \<open>\<open>stop\<close>, up to the promise that is resolved when the running round has completed.\<close>

definition stop :: "scheduler \<Rightarrow> scheduler" where
  "stop s = (if \<not> scheduled s then s
     else if \<not> subscribed s then s
     else s\<lparr>aborted := True, scheduled := False\<rparr>)"

text \<open>A round after which the scheduler goes on.\<close>

definition goes_on :: "bool \<Rightarrow> round \<Rightarrow> bool" where
  "goes_on cb r \<longleftrightarrow> \<not> stopped_before r \<and> \<not> stopped_after r
     \<and> (case result r of Inl _ \<Rightarrow> False | Inr v \<Rightarrow> cb \<longrightarrow> successful v)"

lemma schedule_go: "goes_on cb r \<Longrightarrow> schedule cb (r # rs) = (fst (schedule cb rs), Suc (snd (schedule cb rs)))"
  by (auto simp: goes_on_def split: sum.splits prod.splits)

lemma schedule_end: "\<not> goes_on cb r \<Longrightarrow> schedule cb (r # rs) = schedule cb [r]"
  by (auto simp: goes_on_def split: sum.splits)

lemma schedule_split:
  "schedule cb rs = (case dropWhile (goes_on cb) rs of
      [] \<Rightarrow> (None, length rs)
    | r # _ \<Rightarrow> (fst (schedule cb [r]), length (takeWhile (goes_on cb) rs) + snd (schedule cb [r])))"
proof (induction rs)
  case (Cons r rs)
  show ?case
  proof (cases "goes_on cb r")
    case True
    then show ?thesis using Cons schedule_go [OF True, of rs]
      by (cases "dropWhile (goes_on cb) rs") (simp_all del: schedule.simps dropWhile_eq_Nil_conv)
  next
    case False
    then show ?thesis using schedule_end [OF False, of rs] by (simp del: schedule.simps)
  qed
qed simp

text \<open>
  TaskSchedulerService.start: the task is run again as long as the scheduler is not stopped, the
  task does not throw, and, with a callback, it did something: for ever, if that is always so. It ends
  after the first other round; then the process exits exactly if the task threw without being stopped,
  and in every other case the callback is called, if there is one.
\<close>

theorem schedule_ending:
  "(list_all (goes_on cb) rs \<longrightarrow> schedule cb rs = (None, length rs))
   \<and> (\<forall>rs1 r rs2. rs = rs1 @ r # rs2 \<and> list_all (goes_on cb) rs1 \<and> \<not> goes_on cb r \<longrightarrow>
        snd (schedule cb rs) = (if stopped_before r then length rs1 else Suc (length rs1))
        \<and> (\<exists>e. fst (schedule cb rs) = Some e
             \<and> (\<forall>err. e = ProcessExit err \<longleftrightarrow> result r = Inl err \<and> \<not> stopped_before r \<and> \<not> stopped_after r)
             \<and> (\<forall>b. e = Completed b \<longrightarrow> b = cb)))"
proof (intro conjI impI allI)
  show "schedule cb rs = (None, length rs)" if "list_all (goes_on cb) rs"
    using that by (simp add: schedule_split [of cb rs] list_all_iff dropWhile_eq_Nil_conv [THEN iffD2])
next
  fix rs1 r rs2
  assume *: "rs = rs1 @ r # rs2 \<and> list_all (goes_on cb) rs1 \<and> \<not> goes_on cb r"
  then have "dropWhile (goes_on cb) rs = r # rs2" "takeWhile (goes_on cb) rs = rs1"
    by (simp_all add: list_all_iff dropWhile_append2 takeWhile_append2)
  then have split: "schedule cb rs = (fst (schedule cb [r]), length rs1 + snd (schedule cb [r]))"
    by (subst schedule_split) simp
  show "snd (schedule cb rs) = (if stopped_before r then length rs1 else Suc (length rs1))"
    using * unfolding split by (auto simp: goes_on_def split: sum.splits)
  show "\<exists>e. fst (schedule cb rs) = Some e
             \<and> (\<forall>err. e = ProcessExit err \<longleftrightarrow> result r = Inl err \<and> \<not> stopped_before r \<and> \<not> stopped_after r)
             \<and> (\<forall>b. e = Completed b \<longrightarrow> b = cb)"
    using * unfolding split by (auto simp: goes_on_def split: sum.splits)
qed

theorem schedule_ending_witness:
  "\<exists>n. schedule True [\<lparr>stopped_before = False, result = Inr None, stopped_after = False\<rparr>,
      \<lparr>stopped_before = False, result = Inr (Some False), stopped_after = False\<rparr>] = (Some (Completed True), n) \<and> n = 2"
proof -
  let ?r = "\<lparr>stopped_before = False, result = Inr (Some False), stopped_after = False\<rparr>"
    and ?rs = "[\<lparr>stopped_before = False, result = Inr None, stopped_after = False\<rparr>]"
  have "snd (schedule True (?rs @ [?r])) = (if stopped_before ?r then length ?rs else Suc (length ?rs))"
    using schedule_ending [of True "?rs @ [?r]"] by (auto simp: goes_on_def successful_def)
  then show ?thesis by (simp add: successful_def)
qed

end
