(* ===== verification/Application.thy ===== *)
theory Application
  imports App_Config Multiprocess Task_Scheduler Anchoring Request_Batching
begin

text \<open>
  The process: \<open>src/src/main.ts\<close>, \<open>src/src/app.ts\<close> and \<open>src/src/server.ts\<close>. Which services a mode needs
  before it starts, what it starts, how the process ends; and the two modes that run the anchor service
  through the task scheduler, on the models of both.
\<close>

section \<open>Starting\<close>

datatype app_mode = SERVER | ANCHOR | BUNDLED | SCHEDULER | CONTINUAL_ANCHORING | PUBSUB_RESPONDER

definition mode_name :: "app_mode \<Rightarrow> string" where
  "mode_name m = (case m of SERVER \<Rightarrow> ''server'' | ANCHOR \<Rightarrow> ''anchor'' | BUNDLED \<Rightarrow> ''bundled''
     | SCHEDULER \<Rightarrow> ''scheduler'' | CONTINUAL_ANCHORING \<Rightarrow> ''continual-anchoring''
     | PUBSUB_RESPONDER \<Rightarrow> ''pubsub-responder'')"

text \<open>The case of the \<open>switch\<close> that a configured mode selects; \<open>None\<close> is the default case.\<close>

definition app_mode :: "config \<Rightarrow> app_mode option" where
  "app_mode c = find (\<lambda>m. setting ''mode'' c = Some (CStr (mode_name m)))
     [SERVER, ANCHOR, BUNDLED, SCHEDULER, CONTINUAL_ANCHORING, PUBSUB_RESPONDER]"

datatype controller = Healthcheck | ServiceInfo | Requests | Anchors

datatype action =
    ConnectBlockchain | InitIpfs | InitWitness
  | StartServer "controller list"
  | RunAnchoring
  | StartMarkReady            \<comment> \<open>scheduler: \<open>emitAnchorEventIfReady\<close> periodically\<close>
  | StartPeriodicAnchoring    \<comment> \<open>bundled: \<open>anchorRequests\<close> periodically\<close>
  | StartContinual bool       \<comment> \<open>continual anchoring, with a callback for an idle run or not\<close>
  | HandleSignals

datatype fate = Running | Exited nat

text \<open>What the services answer, in the process that starts.\<close>

record start_answers =
  db_failure :: "cas_error option"
  replica_knex_failure :: "cas_error option"
  db_again_failure :: "cas_error option"       \<comment> \<open>connecting to the main database once more\<close>
  connect_failure :: "cas_error option"
  ipfs_failure :: "cas_error option"
  witness_failure :: "cas_error option"
  listen_failure :: "cas_error option"
  anchoring :: "cas_error + bool"
  is_worker :: bool
  host_machine :: machine

definition usesIpfs :: "config \<Rightarrow> bool" where
  "usesIpfs c \<longleftrightarrow> app_mode c = Some ANCHOR \<or> app_mode c = Some BUNDLED \<or> app_mode c = Some CONTINUAL_ANCHORING
     \<or> app_mode c = Some PUBSUB_RESPONDER \<or> holds (setting ''anchorControllerEnabled'' c)"

definition controllers :: "config \<Rightarrow> controller list" where
  "controllers c = [Healthcheck, ServiceInfo, Requests]
     @ (if holds (setting ''anchorControllerEnabled'' c) then [Anchors] else [])"

text \<open>Services are initialized in turn, until one fails.\<close>

fun run_steps :: "(action \<times> cas_error option) list \<Rightarrow> action list \<times> cas_error option" where
  "run_steps [] = ([], None)"
| "run_steps ((a, Some e) # steps) = ([], Some e)"
| "run_steps ((a, None) # steps) = (case run_steps steps of (done, r) \<Rightarrow> (a # done, r))"

text \<open>
  \<open>_startServer\<close>: the listener runs in a worker, and its error rejects the promise; in the primary the
  promise stays pending. \<open>None\<close>: the loop that forks the workers does not end.
\<close>

definition startServer :: "start_answers \<Rightarrow> fate option" where
  "startServer ans = map_option (\<lambda>s. if working s \<and> listen_failure ans \<noteq> None then Exited 1 else Running)
     (multiprocess (is_worker ans) (server_options False) (host_machine ans))"

definition startAnchor :: "cas_error + bool \<Rightarrow> fate" where
  "startAnchor outcome = (case outcome of Inl err \<Rightarrow> Exited 1 | Inr _ \<Rightarrow> Exited 0)"

text \<open>
  \<open>_startBundled\<close> starts the periodic anchoring before the server, and leaves it running if the server does
  not come up; \<open>_startScheduler\<close> hands \<open>emitAnchorEventIfReady\<close> to the scheduler.
\<close>

definition startBundled :: "config \<Rightarrow> start_answers \<Rightarrow> (action list \<times> fate) option" where
  [simp]: "startBundled c ans = map_option (\<lambda>f. ([StartPeriodicAnchoring, StartServer (controllers c)], f)) (startServer ans)"

definition startScheduler :: "action list \<times> fate" where
  [simp]: "startScheduler = ([StartMarkReady], Running)"

text \<open>\<open>start\<close>; an error it throws ends the process with status 1, in \<open>main.ts\<close>.\<close>

definition start_app :: "config \<Rightarrow> start_answers \<Rightarrow> (action list \<times> fate) option" where
  "start_app c ans =
     (case run_steps ([(ConnectBlockchain, connect_failure ans)]
          @ (if usesIpfs c then [(InitIpfs, ipfs_failure ans)] else [])
          @ [(InitWitness, witness_failure ans)]) of
        (done, Some e) \<Rightarrow> Some (done, Exited 1)
      | (done, None) \<Rightarrow>
          (case app_mode c of
             None \<Rightarrow> Some (done, Exited 1)
           | Some SERVER \<Rightarrow> map_option (\<lambda>f. (done @ [StartServer (controllers c)], f)) (startServer ans)
           | Some ANCHOR \<Rightarrow> Some (done @ [RunAnchoring], startAnchor (anchoring ans))
           | Some BUNDLED \<Rightarrow> map_option (\<lambda>(acts, f). (done @ acts, f)) (startBundled c ans)
           | Some SCHEDULER \<Rightarrow> Some (done @ fst startScheduler, snd startScheduler)
           | Some CONTINUAL_ANCHORING \<Rightarrow>
               Some (done @ [HandleSignals, StartContinual (holds (setting ''schedulerStopAfterNoOp'' c))], Running)
           | Some PUBSUB_RESPONDER \<Rightarrow> Some (done @ [HandleSignals], Running)))"

text \<open>\<open>startApp\<close>: databases first, then the constructor, which normalizes the configuration.\<close>

definition startApp :: "config \<Rightarrow> start_answers \<Rightarrow> (action list \<times> fate) option" where
  "startApp config ans =
     (if db_failure ans \<noteq> None then Some ([], Exited 1)
      else case (case setting ''replica_db'' config of None \<Rightarrow> Inl TypeError
          | Some r \<Rightarrow> createReplicaDbConnection (replica_knex_failure ans) (db_again_failure ans) r) of
        Inl e \<Rightarrow> Some ([], Exited 1)
      | Inr database \<Rightarrow>
          (case normalizeConfig config of
             Inl e \<Rightarrow> Some ([], Exited 1)
           | Inr c \<Rightarrow> start_app c ans))"

lemma app_mode_iff: "app_mode c = Some m \<longleftrightarrow> setting ''mode'' c = Some (CStr (mode_name m))"
proof -
  have "mode_name m = mode_name m' \<longleftrightarrow> m = m'" for m m'
    by (cases m; cases m') (simp_all add: mode_name_def)
  then show ?thesis
    by (cases m) (auto simp: app_mode_def)
qed

lemma run_steps_done: "snd (run_steps steps) = None \<longleftrightarrow> (\<forall>(a, f)\<in>set steps. f = None)"
  "set (fst (run_steps steps)) \<subseteq> fst ` set steps"
  by (induction steps rule: run_steps.induct) (auto split: prod.splits)

lemma holds_replaceBools: "holds (map_option replaceBools v) \<longleftrightarrow> holds v \<and> v \<noteq> Some (CStr ''false'')"
  by (cases v; cases "the v") auto

lemma normalized_switch:
  assumes "normalizeConfig config = Inr c" and "k \<noteq> ''mode''" and "k \<noteq> ''merkleDepthLimit''"
  shows "holds (setting k c) \<longleftrightarrow> holds (setting k config) \<and> setting k config \<noteq> Some (CStr ''false'')"
proof -
  obtain d where d: "c = replaceBools d" "value_at [Key k] d = value_at [Key k] config"
    using normalizeConfig_parts [OF assms(1)] assms(2,3) by (metis key.inject(1))
  have "setting k x = value_at [Key k] x" for x by (cases "setting k x") (simp_all add: setting_def)
  with d show ?thesis by (simp only: at_replaceBools holds_replaceBools)
qed

text \<open>What an application that got past its services did, and whether it had what it needs.\<close>

definition work :: "action \<Rightarrow> bool" where
  "work a \<longleftrightarrow> a \<notin> {ConnectBlockchain, InitIpfs, InitWitness}"

lemma start_app_cases:
  assumes "start_app c ans = Some (acts, f)"
  shows "(f = Exited 0 \<longleftrightarrow> RunAnchoring \<in> set acts \<and> (\<exists>b. anchoring ans = Inr b))
    \<and> ((\<exists>a\<in>set acts. work a) \<longrightarrow> connect_failure ans = None \<and> witness_failure ans = None \<and> app_mode c \<noteq> None
         \<and> (InitIpfs \<in> set acts \<longleftrightarrow> usesIpfs c))
    \<and> (\<forall>cs. StartServer cs \<in> set acts \<longrightarrow> cs = controllers c)
    \<and> ((\<exists>b. {RunAnchoring, StartPeriodicAnchoring, StartContinual b} \<inter> set acts \<noteq> {}) \<longrightarrow> InitIpfs \<in> set acts)"
proof (cases "connect_failure ans = None \<and> witness_failure ans = None \<and> (usesIpfs c \<longrightarrow> ipfs_failure ans = None)")
  case True
  define inits where "inits = [ConnectBlockchain] @ (if usesIpfs c then [InitIpfs] else []) @ [InitWitness]"
  have steps: "run_steps ([(ConnectBlockchain, connect_failure ans)]
      @ (if usesIpfs c then [(InitIpfs, ipfs_failure ans)] else []) @ [(InitWitness, witness_failure ans)]) = (inits, None)"
    using True by (simp add: inits_def)
  note run = assms [unfolded start_app_def steps prod.case option.case]
  have server: "startServer ans = Some f \<Longrightarrow> f \<noteq> Exited 0" for f by (auto simp: startServer_def split: if_splits)
  have uses: "app_mode c = Some m \<Longrightarrow> m \<in> {ANCHOR, BUNDLED, CONTINUAL_ANCHORING} \<Longrightarrow> usesIpfs c" for m
    by (auto simp: usesIpfs_def)
  show ?thesis
  proof (cases "app_mode c")
    case None
    with run True show ?thesis by (auto simp: inits_def work_def)
  next
    case (Some m)
    then show ?thesis
      using run True server uses [OF Some]
      by (cases m) (auto simp: inits_def work_def startAnchor_def split: sum.splits)
  qed
next
  case False
  define steps where "steps = [(ConnectBlockchain, connect_failure ans)]
      @ (if usesIpfs c then [(InitIpfs, ipfs_failure ans)] else []) @ [(InitWitness, witness_failure ans)]"
  have "snd (run_steps steps) \<noteq> None" using False by (auto simp: run_steps_done(1) steps_def)
  then obtain d e where d: "run_steps steps = (d, Some e)" by (cases "run_steps steps") auto
  have "f = Exited 1 \<and> acts = fst (run_steps steps)"
    using assms unfolding start_app_def steps_def [symmetric] d by simp
  moreover have "fst ` set steps \<subseteq> {ConnectBlockchain, InitIpfs, InitWitness}" by (auto simp: steps_def)
  ultimately have "f = Exited 1 \<and> set acts \<subseteq> {ConnectBlockchain, InitIpfs, InitWitness}"
    using run_steps_done(2) [of steps] by auto
  then show ?thesis by (auto simp: work_def)
qed



section \<open>Continual anchoring\<close>

text \<open>
  One run of the task of \<open>_startContinualAnchoring\<close>: the answers to \<open>anchorRequests\<close>, and whether a
  signal had stopped the scheduler when the run began and when it ended.
\<close>

record continual_round =
  cr_before :: bool
  cr_answers :: answers
  cr_queue :: queue_answers
  cr_tries :: "request list attempt list"
  cr_after :: bool

text \<open>
  The runs, threaded through the state: how the scheduler ended, if it did, how many runs there were,
  and the state then. \<open>None\<close>: a run is waiting for an answer.
\<close>

fun continual :: "('car, 'block) platform \<Rightarrow> service_config \<Rightarrow> bool \<Rightarrow> continual_round list \<Rightarrow> 'car world
    \<Rightarrow> (ending option \<times> nat \<times> 'car world) option" where
  "continual P cfg stopAfterNoOp [] w = Some (None, 0, w)"
| "continual P cfg stopAfterNoOp (r # rs) w =
     (if cr_before r then Some (Some (Completed stopAfterNoOp), 0, w)
      else case anchorRequests P cfg (cr_answers r) (cr_queue r) (cr_tries r) w of
        None \<Rightarrow> None
      | Some (success, w1) \<Rightarrow>
          (case fst (schedule stopAfterNoOp
              [\<lparr>stopped_before = False, result = map_sum id Some success, stopped_after = cr_after r\<rparr>]) of
             Some e \<Rightarrow> Some (Some e, 1, w1)
           | None \<Rightarrow> map_option (\<lambda>(e, n, w2). (e, Suc n, w2)) (continual P cfg stopAfterNoOp rs w1)))"

text \<open>
  The status the process exits with: an error of a run ends it with 1, the callback for an idle run with
  0; without a callback only the handler of the signal is left, which waits for \<open>stop\<close>.
\<close>

definition exit_status :: "cas_error option \<Rightarrow> ending \<Rightarrow> nat" where
  "exit_status stop_failure e =
     (case e of ProcessExit err \<Rightarrow> 1 | Completed True \<Rightarrow> 0
      | Completed False \<Rightarrow> (if stop_failure = None then 0 else 1))"

definition undisturbed :: "continual_round list \<Rightarrow> bool" where
  "undisturbed rs \<longleftrightarrow> (\<forall>r\<in>set rs. \<not> cr_before r \<and> \<not> cr_after r \<and> \<not> aborted_before (cr_queue r))"

lemma anchorNextQueuedBatch_result:
  assumes "anchorNextQueuedBatch P cfg ans q w = Some (Inr b, w')" and "\<not> aborted_before q" and "useQueueBatches cfg"
  shows "received q = Inr None \<and> \<not> b \<and> w' = w
    \<or> (\<exists>m. received q = Inr (Some m) \<and> b \<and> queue_view w' = (w_acked w @ [bid m], w_nacked w))"
proof -
  obtain msg where msg: "received q = Inr msg"
    using assms by (auto simp: anchorNextQueuedBatch_def err_simps)
  show ?thesis using anchorNextQueuedBatch_ack [OF assms msg] msg by (auto split: option.splits)
qed

lemma continual_queue_drained:
  assumes "continual P cfg True rs w = Some (Some e, n, w')" and "useQueueBatches cfg" and "undisturbed rs"
    and "exit_status stop_failure e = 0"
  shows "\<exists>k ms. n = Suc k \<and> k < length rs \<and> received (cr_queue (rs ! k)) = Inr None
    \<and> list_all2 (\<lambda>r m. received (cr_queue r) = Inr (Some m)) (take k rs) ms
    \<and> queue_view w' = (w_acked w @ map bid ms, w_nacked w)"
  using assms(1,3)
proof (induction rs arbitrary: n w)
  case (Cons r rs)
  then have quiet: "\<not> cr_before r" "\<not> cr_after r" "\<not> aborted_before (cr_queue r)" and rest: "undisturbed rs"
    by (simp_all add: undisturbed_def)
  obtain success w1 where step: "anchorNextQueuedBatch P cfg (cr_answers r) (cr_queue r) w = Some (success, w1)"
    using Cons.prems(1) quiet assms(2) by (auto simp: anchorRequests_def split: option.splits)
  then have run: "anchorRequests P cfg (cr_answers r) (cr_queue r) (cr_tries r) w = Some (success, w1)"
    using assms(2) by (simp add: anchorRequests_def)
  show ?case
  proof (cases success)
    case (Inl err)
    then have "e = ProcessExit err" using Cons.prems(1) quiet by (simp add: run)
    then show ?thesis using assms(4) by (simp add: exit_status_def)
  next
    case (Inr b)
    from anchorNextQueuedBatch_result [OF step [unfolded Inr] quiet(3) assms(2)] show ?thesis
    proof (elim disjE exE conjE)
      assume "received (cr_queue r) = Inr None" "\<not> b" "w1 = w"
      then show ?thesis
        using Cons.prems(1) quiet
        by (intro exI [of _ 0] exI [of _ "[]"]) (auto simp: run Inr successful_def queue_view_def)
    next
      fix m
      assume m: "received (cr_queue r) = Inr (Some m)" "b" "queue_view w1 = (w_acked w @ [bid m], w_nacked w)"
      then obtain n' where n': "continual P cfg True rs w1 = Some (Some e, n', w')" "n = Suc n'"
        using Cons.prems(1) quiet by (auto simp: run Inr successful_def)
      from Cons.IH [OF n'(1) rest] obtain k ms where k: "n' = Suc k" "k < length rs"
        "received (cr_queue (rs ! k)) = Inr None"
        "list_all2 (\<lambda>r m. received (cr_queue r) = Inr (Some m)) (take k rs) ms"
        "queue_view w' = (w_acked w1 @ map bid ms, w_nacked w1)" by blast
      show ?thesis
        using k m n'(2) by (intro exI [of _ "Suc k"] exI [of _ "m # ms"]) (simp add: queue_view_def)
    qed
  qed
qed simp

lemma continual_database_goes_on:
  assumes "continual P cfg True rs w = Some (Some e, n, w')" and "\<not> useQueueBatches cfg" and "undisturbed rs"
  shows "\<exists>err. e = ProcessExit err"
  using assms(1,3)
proof (induction rs arbitrary: n w)
  case (Cons r rs)
  then have quiet: "\<not> cr_before r" "\<not> cr_after r" and rest: "undisturbed rs"
    by (simp_all add: undisturbed_def)
  obtain success w1 where run: "anchorRequests P cfg (cr_answers r) (cr_queue r) (cr_tries r) w = Some (success, w1)"
    using Cons.prems(1) quiet by (auto split: option.splits)
  show ?case
  proof (cases success)
    case (Inl err)
    then show ?thesis using Cons.prems(1) quiet by (auto simp: run)
  next
    case (Inr b)
    then have b using run assms(2) by (auto simp: anchorRequests_def err_simps)
    then show ?thesis
      using Cons.prems(1) quiet Cons.IH [OF _ rest] by (auto simp: run Inr successful_def)
  qed
qed simp

text \<open>
  C13 (_startContinualAnchoring, TaskSchedulerService): with the callback for an idle run, a process that
  no signal stopped ends with status 0 only when it takes its batches from the queue and the queue has no
  message; then every message received before was acknowledged, in order, and none returned. Without the
  queue \<open>anchorRequests\<close> never reports an idle run, so the setting is without effect.
\<close>

theorem continual_drains_queue:
  assumes "continual P cfg True rs w = Some (Some e, n, w')" and "undisturbed rs"
    and "exit_status stop_failure e = 0"
  shows "useQueueBatches cfg \<and> (\<exists>k ms. n = Suc k \<and> k < length rs \<and> received (cr_queue (rs ! k)) = Inr None
    \<and> list_all2 (\<lambda>r m. received (cr_queue r) = Inr (Some m)) (take k rs) ms
    \<and> queue_view w' = (w_acked w @ map bid ms, w_nacked w))"
proof (cases "useQueueBatches cfg")
  case True
  then show ?thesis using continual_queue_drained [OF assms(1) True assms(2,3)] by blast
next
  case False
  then have "exit_status stop_failure e = 1"
    using continual_database_goes_on [OF assms(1) _ assms(2)] by (auto simp: exit_status_def)
  then show ?thesis using assms(3) by simp
qed

definition example_round :: "(cas_error + anchor_batch_message option) \<Rightarrow> continual_round" where
  "example_round msg = \<lparr>cr_before = False, cr_answers = example_answers,
     cr_queue = example_queue\<lparr>received := msg\<rparr>, cr_tries = [], cr_after = False\<rparr>"

definition drained :: "(ending option \<times> nat \<times> 'car world) option \<Rightarrow> bool" where
  "drained r \<longleftrightarrow> map_option (\<lambda>(e, n, w). (e, n)) r = Some (Some (Completed True), 2)"

lemma drainedE: "drained r \<Longrightarrow> (\<And>w. r = Some (Some (Completed True), 2, w) \<Longrightarrow> thesis) \<Longrightarrow> thesis"
  by (auto simp: drained_def)

lemma example_continual:
  "drained (continual example_platform (example_config True) True
     [example_round (received example_queue), example_round (Inr None)] example_world)"
  by code_simp

theorem continual_drains_queue_witness:
  "\<exists>w'. continual example_platform (example_config True) True
      [example_round (received example_queue), example_round (Inr None)] example_world = Some (Some (Completed True), 2, w')
    \<and> queue_view w' = ([''b7''], [])"
proof -
  let ?rs = "[example_round (received example_queue), example_round (Inr None)]"
  obtain w' where run: "continual example_platform (example_config True) True ?rs example_world
      = Some (Some (Completed True), 2, w')"
    using example_continual by (rule drainedE)
  have "\<exists>k ms. 2 = Suc k \<and> k < length ?rs \<and> received (cr_queue (?rs ! k)) = Inr None
    \<and> list_all2 (\<lambda>r m. received (cr_queue r) = Inr (Some m)) (take k ?rs) ms
    \<and> queue_view w' = (w_acked example_world @ map bid ms, w_nacked example_world)"
    by (rule continual_drains_queue [OF run, THEN conjunct2])
      (simp_all add: undisturbed_def example_round_def example_queue_def exit_status_def)
  then have "queue_view w' = ([''b7''], [])"
    by (auto simp: list_all2_Cons1 example_round_def example_queue_def example_world_def numeral_2_eq_2)
  with run show ?thesis by blast
qed

section \<open>Marking batches periodically\<close>

lemma positive_count: "positive (countByStatus s tbl) \<longleftrightarrow> (\<exists>r\<in>set tbl. status r = s)"
  by (auto simp: countByStatus_counts positive_def filter_empty_conv)

lemma on_requests_Inr:
  "on_requests m w = Some (Inr r, w') \<longleftrightarrow> (\<exists>tbl. m = Some (Inr (tbl, r)) \<and> w' = w\<lparr>w_db := (w_db w)\<lparr>requests := tbl\<rparr>\<rparr>)"
  by (auto simp: on_requests_def split: option.splits sum.splits)

lemma emit_call:
  "catchP (callP failure (\<lambda>w. w\<lparr>w_events := Suc (w_events w)\<rparr>)) (\<lambda>err. returnP ()) w
     = Some (Inr (), if failure = None then w\<lparr>w_events := Suc (w_events w)\<rparr> else w)"
  by (cases failure) (simp_all add: catchP_def callP_def)

lemma marked_then_emitted:
  assumes "bindP (on_requests m) (\<lambda>x. if x = none then returnP ()
      else catchP (callP failure (\<lambda>w. w\<lparr>w_events := Suc (w_events w)\<rparr>)) (\<lambda>err. returnP ())) w = Some (Inr (), w')"
  obtains x where "m = Some (Inr (requests (w_db w'), x))"
    and "w_events w' = w_events w + (if x \<noteq> none \<and> failure = None then 1 else 0)"
proof -
  obtain x w1 where 1: "on_requests m w = Some (Inr x, w1)"
    and 2: "(if x = none then returnP () else catchP (callP failure (\<lambda>w. w\<lparr>w_events := Suc (w_events w)\<rparr>))
       (\<lambda>err. returnP ())) w1 = Some (Inr (), w')"
    using assms unfolding bindP_Inr_iff by blast
  from 1 obtain tbl where tbl: "m = Some (Inr (tbl, x))" "w1 = w\<lparr>w_db := (w_db w)\<lparr>requests := tbl\<rparr>\<rparr>"
    unfolding on_requests_Inr by blast
  from 2 have "w' = (if x \<noteq> none \<and> failure = None then w1\<lparr>w_events := Suc (w_events w1)\<rparr> else w1)"
    by (cases "x = none") (auto simp: emit_call)
  then show ?thesis using that tbl by (cases "x \<noteq> none \<and> failure = None") auto
qed



end
