(* ===== verification/Server.thy ===== *)
theory Server
  imports Http_Api Application
begin

text \<open>
  The server: \<open>CeramicAnchorServer\<close> of \<open>src/src/server.ts\<close> with the routes its controllers declare. A
  request passes the body parsers, the authorization if the configuration asks for it, and the router, and
  what a handler does is its model in the theories of the controllers and of the anchor service, on one
  database.
\<close>

section \<open>Requests on the wire\<close>

datatype http_method = GET | HEAD | POST | OPTIONS | OtherMethod string

text \<open>The path is given as its decoded segments; \<open>payload\<close> is absent if the request announces no body.\<close>

record wire_request =
  http_method :: http_method
  segments :: "string list"
  wire_header :: "string \<Rightarrow> string option"
  wire_ip :: string
  payload :: "string option"

text \<open>
  Package \<open>body-parser\<close>: whether a content type is of a given type, decompression, what the three readers
  make of the bytes, and the body of a request they leave alone.
\<close>

record 'b body_lib =
  type_is :: "string option \<Rightarrow> string \<Rightarrow> bool"
  inflated :: "string \<Rightarrow> cas_error + string"
  read_raw :: "string \<Rightarrow> cas_error + 'b"
  read_json :: "string \<Rightarrow> cas_error + 'b"
  read_urlencoded :: "string \<Rightarrow> cas_error + 'b"
  empty_body :: 'b

datatype body_failure = TooLarge | Unreadable cas_error

section \<open>Reading the body\<close>

text \<open>One parser: the body so far, and whether a parser has read it.\<close>

definition body_parser :: "'b body_lib \<Rightarrow> string \<Rightarrow> nat \<Rightarrow> (string \<Rightarrow> cas_error + 'b) \<Rightarrow> wire_request
    \<Rightarrow> 'b \<times> bool \<Rightarrow> body_failure + 'b \<times> bool" where
  "body_parser bl type limit read req st =
     (case payload req of
        None \<Rightarrow> Inr st
      | Some p \<Rightarrow>
          (if snd st \<or> \<not> type_is bl (wire_header req ''Content-Type'') type then Inr st
           else case inflated bl p of
                  Inl e \<Rightarrow> Inl (Unreadable e)
                | Inr bytes \<Rightarrow>
                    (if limit < length bytes then Inl TooLarge
                     else case read bytes of Inl e \<Rightarrow> Inl (Unreadable e) | Inr b \<Rightarrow> Inr (b, True))))"

definition raw_limit :: nat where "raw_limit = 1024 * 1024"
definition default_limit :: nat where "default_limit = 100 * 1024"

definition parse_body :: "'b body_lib \<Rightarrow> wire_request \<Rightarrow> body_failure + 'b" where
  "parse_body bl req =
     bindE (body_parser bl ''application/vnd.ipld.car'' raw_limit (read_raw bl) req (empty_body bl, False)) (\<lambda>st.
     bindE (body_parser bl ''application/json'' default_limit (read_json bl) req st) (\<lambda>st.
     bindE (body_parser bl ''application/x-www-form-urlencoded'' default_limit (read_urlencoded bl) req st) (\<lambda>st.
     Inr (fst st))))"

definition with_body :: "wire_request \<Rightarrow> 'b \<Rightarrow> 'b http_request" where
  "with_body req b = \<lparr>header = wire_header req, ip = wire_ip req, body = Some b\<rparr>"

section \<open>Authorization\<close>

text \<open>
  The part of the constructor that reads the configuration: \<open>None\<close> if no authorization is required. What is
  no string has no \<open>split\<close>.
\<close>

definition server_auth :: "config \<Rightarrow> cas_error + auth_opts option" where
  "server_auth config =
     (case setting ''auth'' config of
        None \<Rightarrow> Inl TypeError
      | Some CNull \<Rightarrow> Inl TypeError
      | Some a \<Rightarrow>
          (if \<not> holds (setting ''required'' a) then Inr None
           else bindE (case setting ''dids'' a of
                     Some (CStr s) \<Rightarrow> Inr (Some s)
                   | v \<Rightarrow> if holds v then Inl TypeError else Inr None) (\<lambda>dids.
                Inr (Some \<lparr>allowedDIDs = parseAllowedDIDs dids, isRelaxed = holds (setting ''relaxed'' a)\<rparr>))))"

definition server_decision :: "auth_opts option \<Rightarrow> ('b, 'car) http_lib \<Rightarrow> ('car, 'block) car_lib \<Rightarrow> 'b http_request
    \<Rightarrow> auth_decision" where
  "server_decision opts http cars req = (case opts of None \<Rightarrow> auth_decision.Next | Some required \<Rightarrow> auth required http cars req)"

section \<open>Routes\<close>

datatype endpoint = GetHealth | GetChains | GetStatus string | PostRequest | PostAnchor | CorsPreflight

fun mount :: "controller \<Rightarrow> string list" where
  "mount Healthcheck = [''api'', ''v0'', ''healthcheck'']"
| "mount ServiceInfo = [''api'', ''v0'', ''service-info'']"
| "mount Requests = [''api'', ''v0'', ''requests'']"
| "mount Anchors = [''api'', ''v0'', ''anchors'']"

text \<open>What a controller answers below its mount; \<open>cors\<close> answers every preflight request there.\<close>

definition endpoint_of :: "controller \<Rightarrow> http_method \<Rightarrow> string list \<Rightarrow> endpoint option" where
  "endpoint_of c m rest =
     (if m = OPTIONS then Some CorsPreflight
      else case c of
        Healthcheck \<Rightarrow> if m \<in> {GET, HEAD} \<and> rest = [] then Some GetHealth else None
      | ServiceInfo \<Rightarrow> if m \<in> {GET, HEAD} \<and> map js_lower rest = [''supported_chains''] then Some GetChains else None
      | Requests \<Rightarrow>
          (case rest of
             [] \<Rightarrow> if m = POST then Some PostRequest else None
           | [cid] \<Rightarrow> if m \<in> {GET, HEAD} then Some (GetStatus cid) else None
           | _ \<Rightarrow> None)
      | Anchors \<Rightarrow> if m = POST \<and> rest = [] then Some PostAnchor else None)"

fun route :: "controller list \<Rightarrow> http_method \<Rightarrow> string list \<Rightarrow> endpoint option" where
  "route [] m segs = None"
| "route (c # cs) m segs =
     (case (if map js_lower (take 3 segs) = mount c then endpoint_of c m (drop 3 segs) else None) of
        Some e \<Rightarrow> Some e
      | None \<Rightarrow> route cs m segs)"

section \<open>The server\<close>

text \<open>What the process serves with: its configuration, and the services injected into the controllers.\<close>

record ('b, 'car, 'block, 's) deployment =
  dp_config :: config
  dp_bodies :: "'b body_lib"
  dp_api :: "('b, 'car, 'block, 's) api"
  dp_platform :: "('car, 'block) platform"
  dp_service :: service_config
  dp_ethereum :: eth_config

record server_answers =
  sa_call :: call_answers
  sa_free :: "cas_error + rat \<times> rat"
  sa_anchor :: answers
  sa_queue :: queue_answers
  sa_tries :: "request list attempt list"

text \<open>The state: what requests are stored and sent with, and what anchoring works on, with one database.\<close>

record ('s, 'car) served =
  sv_requests :: "'s request_world"
  sv_anchoring :: "'car world"

datatype 'car answer_body = NoContent | SupportedChains "string list" | Status "'car cas_response"

datatype 'car server_response =
    Handled "'car answer_body http_response"
  | BodyError body_failure              \<comment> \<open>413 or 400, from the default error handler\<close>
  | Unauthorized disallow_reason        \<comment> \<open>403\<close>
  | AuthorizationError                  \<comment> \<open>500\<close>
  | NoRoute                             \<comment> \<open>404\<close>
  | Preflight                           \<comment> \<open>204\<close>

definition on_request_part :: "('s request_world, 'a) prog \<Rightarrow> (('s, 'car) served, 'a) prog" where
  "on_request_part m sv =
     (case m (sv_requests sv) of
        None \<Rightarrow> None
      | Some (r, w) \<Rightarrow> Some (r, sv\<lparr>sv_requests := w, sv_anchoring := (sv_anchoring sv)\<lparr>w_db := rw_db w\<rparr>\<rparr>))"

definition on_anchoring_part :: "('car world, 'a) prog \<Rightarrow> (('s, 'car) served, 'a) prog" where
  "on_anchoring_part m sv =
     (case m ((sv_anchoring sv)\<lparr>w_db := rw_db (sv_requests sv)\<rparr>) of
        None \<Rightarrow> None
      | Some (r, w) \<Rightarrow> Some (r, sv\<lparr>sv_anchoring := w, sv_requests := (sv_requests sv)\<lparr>rw_db := w_db w\<rparr>\<rparr>))"

definition answered :: "('x \<Rightarrow> 'car answer_body) \<Rightarrow> ('s, 'x http_response) prog \<Rightarrow> ('s, 'car server_response) prog" where
  "answered f m = bindP m (\<lambda>r. returnP (Handled (map_http_response f r)))"

definition run_endpoint :: "('b, 'car, 'block, 's) deployment \<Rightarrow> server_answers \<Rightarrow> endpoint \<Rightarrow> 'b http_request
    \<Rightarrow> (('s, 'car) served, 'car server_response) prog" where
  "run_endpoint dp ans e req =
     (case e of
        GetHealth \<Rightarrow> answered (\<lambda>_. NoContent) (returnP (get_health (sa_free ans)))
      | GetChains \<Rightarrow> answered SupportedChains (liftP (getSupportedChains (dp_ethereum dp)))
      | GetStatus cid \<Rightarrow> answered Status (on_request_part (get_status (dp_api dp) (sa_call ans) cid))
      | PostRequest \<Rightarrow> answered Status (on_request_part (post_request (dp_api dp) (sa_call ans) req))
      | PostAnchor \<Rightarrow> answered (\<lambda>_. NoContent) (on_anchoring_part (post_anchor
          (anchorRequests (dp_platform dp) (dp_service dp) (sa_anchor ans) (sa_queue ans) (sa_tries ans))))
      | CorsPreflight \<Rightarrow> returnP Preflight)"

text \<open>
  A request to a server that was constructed: the parsers, the authorization, the router, and a handler. An
  error is a handler's rejected promise, on which no response is sent.
\<close>

definition serve :: "('b, 'car, 'block, 's) deployment \<Rightarrow> auth_opts option \<Rightarrow> server_answers \<Rightarrow> wire_request
    \<Rightarrow> (('s, 'car) served, 'car server_response) prog" where
  "serve dp opts ans w =
     (case parse_body (dp_bodies dp) w of
        Inl f \<Rightarrow> returnP (BodyError f)
      | Inr b \<Rightarrow>
          (case server_decision opts (api_http (dp_api dp)) (api_lib (dp_api dp)) (with_body w b) of
             Disallow reason \<Rightarrow> returnP (Unauthorized reason)
           | AuthError \<Rightarrow> returnP AuthorizationError
           | auth_decision.Next \<Rightarrow>
               (case route (controllers (dp_config dp)) (http_method w) (segments w) of
                  None \<Rightarrow> returnP NoRoute
                | Some e \<Rightarrow> run_endpoint dp ans e (with_body w b))))"

section \<open>What changes the requests\<close>

definition stored_part :: "('s, 'car) served \<Rightarrow> database \<times> request_message list" where
  "stored_part sv = (rw_db (sv_requests sv), rw_queue (sv_requests sv))"

lemma service_lookup_keeps: "keepsP (\<lambda>w. (rw_db w, rw_queue w)) (service_lookup api answers c)"
  by (auto simp: keepsP_def service_lookup_def on_stores_def split: option.splits)

lemma get_status_keeps: "keepsP (\<lambda>w. (rw_db w, rw_queue w)) (get_status api answers c)"
  unfolding get_status_def
  by (cases "parse_cid (api_ids api) c") (auto intro!: keepsP_catch keepsP_bind service_lookup_keeps)

lemma answered_run: "answered f m s = Some (r, t) \<Longrightarrow> \<exists>r'. m s = Some (r', t)"
  by (auto simp: answered_def bindP_def split: option.splits sum.splits)

lemma run_endpoint_stored:
  assumes "run_endpoint dp ans e req sv = Some (r, sv')" and "stored_part sv' \<noteq> stored_part sv"
  shows "e = PostAnchor \<or> e = PostRequest
    \<and> (\<exists>params. parse_params (api_codecs (dp_api dp)) (api_http (dp_api dp)) (api_lib (dp_api dp)) req = Inr params)"
proof (cases e)
  case (GetStatus cid)
  then obtain r' where "on_request_part (get_status (dp_api dp) (sa_call ans) cid) sv = Some (r', sv')"
    using assms(1) answered_run by (fastforce simp: run_endpoint_def)
  then have "stored_part sv' = stored_part sv"
    using keepsPD [OF get_status_keeps, of "dp_api dp" "sa_call ans" cid "sv_requests sv"]
    by (auto simp: on_request_part_def stored_part_def split: option.splits)
  then show ?thesis using assms(2) by simp
next
  case PostRequest
  then obtain r' where "on_request_part (post_request (dp_api dp) (sa_call ans) req) sv = Some (r', sv')"
    using assms(1) answered_run by (fastforce simp: run_endpoint_def)
  then show ?thesis using assms(2) PostRequest
    by (auto simp: on_request_part_def stored_part_def post_request_def Let_def split: option.splits sum.splits)
qed (use assms in \<open>auto simp: run_endpoint_def dest!: answered_run\<close>)

lemma route_Some:
  "route cs m segs = Some e \<Longrightarrow> \<exists>c\<in>set cs. map js_lower (take 3 segs) = mount c \<and> endpoint_of c m (drop 3 segs) = Some e"
  by (induction cs m segs rule: route.induct) (auto split: option.splits if_splits)

lemma endpoint_of_posts:
  "endpoint_of c m rest = Some PostRequest \<longleftrightarrow> c = Requests \<and> m = POST \<and> rest = []"
  "endpoint_of c m rest = Some PostAnchor \<longleftrightarrow> c = Anchors \<and> m = POST \<and> rest = []"
  by (auto simp: endpoint_of_def split: controller.splits list.splits if_splits)

text \<open>
  What the libraries promise of a body without keys, such as the one of a request that has none: it is
  neither the parameters of a request nor the bytes of a CAR file.
\<close>

definition empty_rejected :: "'b param_codecs \<Rightarrow> ('b, 'car) http_lib \<Rightarrow> bool" where
  "empty_rejected codecs http \<longleftrightarrow> (\<forall>b. own_keys http b = [] \<longrightarrow>
     (\<exists>e. decode_v3 codecs (Some b) = Inl e) \<and> (\<exists>e. car_of http b = Inl e))"

lemma parse_params_hasBody:
  assumes "empty_rejected codecs http" and "body req = Some b" and "parse_params codecs http cars req = Inr params"
  shows "hasBody http req"
proof (rule ccontr)
  assume "\<not> hasBody http req"
  then have "own_keys http b = []" using assms(2) by (simp add: hasBody_def)
  then obtain e e' where "decode_v3 codecs (Some b) = Inl e" "car_of http b = Inl e'"
    using assms(1) by (auto simp: empty_rejected_def)
  then show False using assms(2,3) by (auto simp: parse_params_def decode_car_file_def split: if_splits)
qed

text \<open>The three ways past the authorization to something that changes what is stored.\<close>

definition anchors_on_demand :: "config \<Rightarrow> wire_request \<Rightarrow> bool" where
  "anchors_on_demand c w \<longleftrightarrow> holds (setting ''anchorControllerEnabled'' c) \<and> http_method w = POST
     \<and> map js_lower (segments w) = [''api'', ''v0'', ''anchors'']"

definition vouched :: "('b, 'car) http_lib \<Rightarrow> ('car, 'block) car_lib \<Rightarrow> 'b http_request \<Rightarrow> bool" where
  "vouched http cars req \<longleftrightarrow> given (header req ''did'') \<noteq> None
     \<and> header req ''digest'' = buildBodyDigest http cars (header req ''Content-Type'') (body req)"

definition signed_by_listed :: "auth_opts \<Rightarrow> ('b, 'car) http_lib \<Rightarrow> ('car, 'block) car_lib \<Rightarrow> 'b http_request \<Rightarrow> bool" where
  "signed_by_listed opts http cars req \<longleftrightarrow> (\<exists>a jws b res did digest.
     header req ''Authorization'' = Some (a @ ''Bearer '' @ jws @ b) \<and> verify_jws http jws = Inr res
     \<and> jws_did res = Some did \<and> did \<in> set (allowedDIDs opts)
     \<and> truthy (opt_prop (jws_payload res) ''nonce'') \<and> opt_prop (jws_payload res) ''digest'' = Some (IString digest)
     \<and> buildBodyDigest http cars (header req ''Content-Type'') (body req) = Some digest)"

lemma auth_Next_body:
  assumes "auth opts http cars req = auth_decision.Next" and "hasBody http req" and "allowedDIDs opts \<noteq> []" and "\<not> isRelaxed opts"
  shows "vouched http cars req \<or> signed_by_listed opts http cars req"
proof (cases "given (header req ''did'')")
  case None
  obtain jws res where token: "header req ''Authorization'' \<noteq> None"
    "bearer_token (the (header req ''Authorization'')) = Some jws" "verify_jws http jws = Inr res"
    "check_jws opts (buildBodyDigest http cars (header req ''Content-Type'') (body req)) res = auth_decision.Next"
    using auth_list_Next [OF assms(3) None assms(2,1)] .
  obtain a b where "the (header req ''Authorization'') = a @ ''Bearer '' @ jws @ b"
    using bearer_token_split [OF token(2)] by blast
  then have "header req ''Authorization'' = Some (a @ ''Bearer '' @ jws @ b)" using token(1) by (metis option.collapse)
  with token(3,4) assms(4) show ?thesis
    unfolding signed_by_listed_def check_jws_Next isAllowedDID_def by (simp only: if_False) blast
next
  case (Some did)
  then show ?thesis using assms(1,2) by (auto simp: auth_def vouched_def Let_def split: if_splits)
qed


section \<open>A server\<close>

definition example_bodies :: "string body_lib" where
  "example_bodies = \<lparr>type_is = (\<lambda>t ty. t = Some ty), inflated = Inr, read_raw = Inr, read_json = Inr,
     read_urlencoded = Inr, empty_body = []\<rparr>"

definition example_server_api :: "(string, assoc_car, cid \<times> ipld, unit) api" where
  "example_server_api = example_api
     \<lparr>api_http := example_http\<lparr>own_keys := (\<lambda>b. if b = [] then [] else [b])\<rparr>,
      api_codecs := example_codecs\<lparr>decode_v3 := (\<lambda>b. if b = None \<or> b = Some [] then Inl ''invalid'' else Inr example_json_params)\<rparr>\<rparr>"

definition example_server_config :: config where
  "example_server_config = CObj [(''auth'', CObj [(''required'', CBool True), (''dids'', CStr ''did:a,did:b''),
     (''relaxed'', CBool False)]), (''anchorControllerEnabled'', CBool False)]"

definition example_deployment :: "(string, assoc_car, cid \<times> ipld, unit) deployment" where
  "example_deployment = \<lparr>dp_config = example_server_config, dp_bodies = example_bodies, dp_api = example_server_api,
     dp_platform = example_platform, dp_service = example_config False, dp_ethereum = example_eth\<rparr>"

definition example_server_answers :: server_answers where
  "example_server_answers = \<lparr>sa_call = example_call, sa_free = Inr (1, 1), sa_anchor = example_answers,
     sa_queue = \<lparr>aborted_before = False, aborted_after = False, received = Inr None, ack_failure = None, nack_failure = None\<rparr>,
     sa_tries = []\<rparr>"

definition example_wire :: "(string \<times> string) list \<Rightarrow> wire_request" where
  "example_wire hs = \<lparr>http_method = POST, segments = [''api'', ''v0'', ''requests''],
     wire_header = map_of ((''Content-Type'', ''application/json'') # hs), wire_ip = ''10.0.0.1'', payload = Some ''{}''\<rparr>"

definition example_served :: "(unit, assoc_car) served" where
  "example_served = \<lparr>sv_requests = example_request_world, sv_anchoring = example_world\<rparr>"


end
