(* ===== verification/Sqs_Queue.thy ===== *)
theory Sqs_Queue
  imports Models
begin

text \<open>
  The queues of the service (\<open>src/src/services/queue/sqs-queue-service.ts\<close>): one SQS queue each for
  validation, batches, failures and publishing. What SQS and S3 answer is given; the model says
  which commands are sent to them and what becomes of the answers.
\<close>

section \<open>Configuration\<close>

record queue_config =
  qc_url :: string
  qc_hold :: "nat option"
  qc_wait :: "nat option"

definition DEFAULT_MAX_TIME_TO_HOLD_MESSAGES_S :: nat where
  "DEFAULT_MAX_TIME_TO_HOLD_MESSAGES_S = 21600"

definition DEFAULT_WAIT_TIME_FOR_MESSAGE_S :: nat where
  "DEFAULT_WAIT_TIME_FOR_MESSAGE_S = 10"

text \<open>\<open>v || d\<close> for a number that may be missing.\<close>

definition or_default :: "nat option \<Rightarrow> nat \<Rightarrow> nat" where
  "or_default v d = (case v of Some n \<Rightarrow> if n = 0 then d else n | None \<Rightarrow> d)"

record sqs_service =
  sv_url :: string
  sv_hold :: nat
  sv_wait :: nat

definition make_queue :: "queue_config \<Rightarrow> string \<Rightarrow> sqs_service" where
  "make_queue cfg suffix = \<lparr>sv_url = qc_url cfg @ suffix,
     sv_hold = or_default (qc_hold cfg) DEFAULT_MAX_TIME_TO_HOLD_MESSAGES_S,
     sv_wait = or_default (qc_wait cfg) DEFAULT_WAIT_TIME_FOR_MESSAGE_S\<rparr>"

definition validation_queue :: "queue_config \<Rightarrow> sqs_service" where
  "validation_queue cfg = make_queue cfg ''validate''"

definition batch_queue :: "queue_config \<Rightarrow> sqs_service" where
  "batch_queue cfg = make_queue cfg ''batch''"

definition failure_queue :: "queue_config \<Rightarrow> sqs_service" where
  "failure_queue cfg = make_queue cfg ''failure''"

definition ipfs_queue :: "queue_config \<Rightarrow> sqs_service" where
  "ipfs_queue cfg = make_queue cfg ''ipfs''"

section \<open>Commands and messages\<close>

datatype sqs_command =
    ReceiveMessage string nat nat nat      \<comment> \<open>queue, number of messages, visibility timeout, waiting time\<close>
  | SendMessage string string
  | DeleteMessage string string            \<comment> \<open>queue, receipt handle\<close>
  | ChangeMessageVisibility string string nat

record sqs_message =
  sm_body :: "string option"
  sm_receipt :: string

text \<open>A message handed to a consumer: its data and how it is settled.\<close>

record 'v queue_message =
  qm_data :: 'v
  qm_queue :: string
  qm_receipt :: string

datatype queue_error =
    NoBody string
  | UndecodableBody string
  | ReceiveFailed string
  | SendFailed string
  | BatchNotRetrieved string string

definition ack :: "'v queue_message \<Rightarrow> sqs_command" where
  "ack m = DeleteMessage (qm_queue m) (qm_receipt m)"

definition nack :: "'v queue_message \<Rightarrow> sqs_command" where
  "nack m = ChangeMessageVisibility (qm_queue m) (qm_receipt m) 0"

text \<open>The constructor of \<open>SqsQueueMessage\<close>; \<open>decode\<close> is \<open>JSON.parse\<close> with the codec of the queue.\<close>

definition sqs_queue_message :: "string \<Rightarrow> (string \<Rightarrow> string + 'v) \<Rightarrow> sqs_message \<Rightarrow> queue_error + 'v queue_message" where
  "sqs_queue_message url decode m =
     (case sm_body m of
        None \<Rightarrow> Inl (NoBody url)
      | Some b \<Rightarrow>
          (if b = [] then Inl (NoBody url)
           else case decode b of
                  Inl err \<Rightarrow> Inl (UndecodableBody err)
                | Inr v \<Rightarrow> Inr \<lparr>qm_data = v, qm_queue = url, qm_receipt = sm_receipt m\<rparr>))"

section \<open>Receiving\<close>

definition receive_command :: "sqs_service \<Rightarrow> sqs_command" where
  "receive_command sv = ReceiveMessage (sv_url sv) 1 (sv_hold sv) (sv_wait sv)"

definition receiveMessage :: "sqs_service \<Rightarrow> (string \<Rightarrow> string + 'v) \<Rightarrow> string + sqs_message list option
    \<Rightarrow> queue_error + 'v queue_message option" where
  "receiveMessage sv decode answer =
     (case answer of
        Inl err \<Rightarrow> Inl (ReceiveFailed err)
      | Inr None \<Rightarrow> Inr None
      | Inr (Some messages) \<Rightarrow>
          (if length messages \<noteq> 1 then Inr None
           else bindE (sqs_queue_message (sv_url sv) decode (hd messages)) (\<lambda>m. Inr (Some m))))"

text \<open>
  \<open>AnchorBatchSqsQueueService.receiveMessage\<close>: a batch without request ids is read from S3 by its
  batch id; the message that settles it stays the one of the queue.
\<close>

definition receive_batch :: "sqs_service \<Rightarrow> (string \<Rightarrow> string + anchor_batch_message) \<Rightarrow> (string \<Rightarrow> string + string)
    \<Rightarrow> string + sqs_message list option \<Rightarrow> queue_error + anchor_batch_message queue_message option" where
  "receive_batch sv decode s3 answer =
     bindE (receiveMessage sv decode answer) (\<lambda>received.
       case received of
         None \<Rightarrow> Inr None
       | Some m \<Rightarrow>
           (if rids (qm_data m) = []
            then (case s3 (bid (qm_data m)) of
                    Inl err \<Rightarrow> Inl (BatchNotRetrieved (bid (qm_data m)) err)
                  | Inr json \<Rightarrow>
                      (case decode json of
                         Inl err \<Rightarrow> Inl (BatchNotRetrieved (bid (qm_data m)) err)
                       | Inr batch \<Rightarrow> Inr (Some (m\<lparr>qm_data := batch\<rparr>))))
            else Inr (Some m)))"

section \<open>Sending\<close>

definition MAX_SEND_ATTEMPT :: nat where
  "MAX_SEND_ATTEMPT = 3"

definition signature_expired :: "string \<Rightarrow> bool" where
  "signature_expired err = js_includes err ''Signature expired''"

text \<open>
  \<open>sendMessage\<close> on the answers to the successive commands (\<open>None\<close>: sent), with the commands it sent;
  \<open>None\<close>: the answers are used up and it is still waiting.
\<close>

fun sendMessage :: "sqs_service \<Rightarrow> string \<Rightarrow> nat \<Rightarrow> string option list
    \<Rightarrow> ((queue_error + unit) \<times> sqs_command list) option" where
  "sendMessage sv msg attempt [] = None"
| "sendMessage sv msg attempt (None # answers) = Some (Inr (), [SendMessage (sv_url sv) msg])"
| "sendMessage sv msg attempt (Some err # answers) =
     (if signature_expired err \<and> attempt < MAX_SEND_ATTEMPT
      then (case sendMessage sv msg (attempt + 1) answers of
              None \<Rightarrow> None
            | Some (r, sent) \<Rightarrow> Some (r, SendMessage (sv_url sv) msg # sent))
      else Some (Inl (SendFailed err), [SendMessage (sv_url sv) msg]))"

section \<open>Properties\<close>

lemma sendMessage_run:
  "attempt \<le> MAX_SEND_ATTEMPT \<Longrightarrow> sendMessage sv msg attempt answers = Some (r, sent) \<Longrightarrow>
     (\<exists>n. sent = replicate (Suc n) (SendMessage (sv_url sv) msg) \<and> n + attempt \<le> MAX_SEND_ATTEMPT \<and> n < length answers
       \<and> (\<forall>i<n. \<exists>err. answers ! i = Some err \<and> signature_expired err)
       \<and> (case r of Inr _ \<Rightarrow> answers ! n = None
          | Inl e \<Rightarrow> \<exists>err. answers ! n = Some err \<and> e = SendFailed err
              \<and> (\<not> signature_expired err \<or> n + attempt = MAX_SEND_ATTEMPT)))"
proof (induction sv msg attempt answers arbitrary: sent rule: sendMessage.induct)
  case (3 sv msg attempt err answers)
  show ?case
  proof (cases "signature_expired err \<and> attempt < MAX_SEND_ATTEMPT")
    case True
    then obtain sent' where rest: "sendMessage sv msg (attempt + 1) answers = Some (r, sent')"
      and sent: "sent = SendMessage (sv_url sv) msg # sent'"
      using 3(3) by (auto split: option.splits prod.splits)
    obtain n where n: "sent' = replicate (Suc n) (SendMessage (sv_url sv) msg)"
      "n + (attempt + 1) \<le> MAX_SEND_ATTEMPT" "n < length answers"
      "\<forall>i<n. \<exists>err. answers ! i = Some err \<and> signature_expired err"
      "case r of Inr _ \<Rightarrow> answers ! n = None
          | Inl e \<Rightarrow> \<exists>err. answers ! n = Some err \<and> e = SendFailed err
              \<and> (\<not> signature_expired err \<or> n + (attempt + 1) = MAX_SEND_ATTEMPT)"
      using 3(1) [OF True _ rest] True by auto
    show ?thesis
      by (rule exI [of _ "Suc n"]) (use n sent True in \<open>auto simp: less_Suc_eq_0_disj split: sum.splits\<close>)
  next
    case False
    then show ?thesis using 3(2,3) by (auto intro!: exI [of _ 0])
  qed
qed auto

lemma sendMessage_returns:
  "attempt \<le> MAX_SEND_ATTEMPT \<Longrightarrow> MAX_SEND_ATTEMPT < attempt + length answers \<Longrightarrow> sendMessage sv msg attempt answers \<noteq> None"
proof (induction sv msg attempt answers rule: sendMessage.induct)
  case (3 sv msg attempt err answers)
  then show ?case
    by (cases "signature_expired err \<and> attempt < MAX_SEND_ATTEMPT") (auto split: option.splits prod.splits)
qed auto

lemma receiveMessage_Some:
  assumes "receiveMessage sv decode answer = Inr (Some m)"
  obtains raw b where "answer = Inr (Some [raw])" and "sm_body raw = Some b"
    and "decode b = Inr (qm_data m)" and "qm_queue m = sv_url sv" and "qm_receipt m = sm_receipt raw"
  using assms
  by (auto simp: receiveMessage_def sqs_queue_message_def bindE_Inr_iff length_Suc_conv
      split: sum.splits option.splits if_splits)

text \<open>
  SqsQueueService.sendMessage: the message is sent at most four times, always the same; all
  sends but the last failed with an expired signature; it reports success exactly when the last one
  was accepted, and gives up only on another error or at the fourth; and it returns after four answers.
\<close>

theorem sendMessage_outcome:
  "(4 \<le> length answers \<longrightarrow> sendMessage sv msg 0 answers \<noteq> None)
   \<and> (\<forall>r sent. sendMessage sv msg 0 answers = Some (r, sent) \<longrightarrow>
        sent = replicate (length sent) (SendMessage (sv_url sv) msg) \<and> 1 \<le> length sent \<and> length sent \<le> 4
        \<and> (\<forall>i < length sent - 1. \<exists>err. answers ! i = Some err \<and> signature_expired err)
        \<and> (r = Inr () \<longleftrightarrow> answers ! (length sent - 1) = None)
        \<and> (\<forall>err. r = Inl (SendFailed err) \<longrightarrow> answers ! (length sent - 1) = Some err
             \<and> (\<not> signature_expired err \<or> length sent = 4)))"
proof (intro conjI impI allI)
  show "sendMessage sv msg 0 answers \<noteq> None" if "4 \<le> length answers"
    using that by (intro sendMessage_returns) (simp_all add: MAX_SEND_ATTEMPT_def)
next
  fix r sent
  assume run: "sendMessage sv msg 0 answers = Some (r, sent)"
  obtain n where n: "sent = replicate (Suc n) (SendMessage (sv_url sv) msg)" "n \<le> 3"
    "\<forall>i<n. \<exists>err. answers ! i = Some err \<and> signature_expired err"
    "case r of Inr _ \<Rightarrow> answers ! n = None
          | Inl e \<Rightarrow> \<exists>err. answers ! n = Some err \<and> e = SendFailed err \<and> (\<not> signature_expired err \<or> n = 3)"
    using sendMessage_run [OF _ run] unfolding MAX_SEND_ATTEMPT_def add_0_right by blast
  then have len: "length sent = Suc n" by simp
  show "sent = replicate (length sent) (SendMessage (sv_url sv) msg)" using n(1) len by simp
  show "1 \<le> length sent" "length sent \<le> 4" using len n(2) by simp_all
  show "\<And>i. i < length sent - 1 \<Longrightarrow> \<exists>err. answers ! i = Some err \<and> signature_expired err" using n(3) len by simp
  show "r = Inr () \<longleftrightarrow> answers ! (length sent - 1) = None" using n(4) len by (cases r) auto
  fix err
  assume "r = Inl (SendFailed err)"
  then show "answers ! (length sent - 1) = Some err" "\<not> signature_expired err \<or> length sent = 4"
    using n(4) len by auto
qed

text \<open>
  AnchorBatchSqsQueueService.receiveMessage: a received batch is the only message SQS returned,
  is settled by that message's receipt handle on the batch queue, and has the requests of the message,
  or of its file in S3 when the message has none; if the file cannot be read or decoded, the call
  fails, and the message is neither acknowledged nor returned.
\<close>

theorem receive_batch_outcome:
  "(\<forall>m. receive_batch sv decode s3 answer = Inr (Some m) \<longrightarrow>
      (\<exists>raw b v. answer = Inr (Some [raw]) \<and> sm_body raw = Some b \<and> decode b = Inr v
        \<and> ack m = DeleteMessage (sv_url sv) (sm_receipt raw)
        \<and> nack m = ChangeMessageVisibility (sv_url sv) (sm_receipt raw) 0
        \<and> (if rids v = [] then \<exists>json. s3 (bid v) = Inr json \<and> decode json = Inr (qm_data m) else qm_data m = v)))
   \<and> (\<forall>e. receive_batch sv decode s3 answer = Inl e \<longrightarrow>
        (\<exists>err. answer = Inl err) \<or> (\<exists>raw. answer = Inr (Some [raw])))"
proof (intro conjI allI impI)
  fix m
  assume batch: "receive_batch sv decode s3 answer = Inr (Some m)"
  then obtain received where received: "receiveMessage sv decode answer = Inr received"
    by (auto simp: receive_batch_def bindE_Inr_iff)
  then obtain m0 where m0: "receiveMessage sv decode answer = Inr (Some m0)"
    using batch by (cases received) (auto simp: receive_batch_def)
  then have "if rids (qm_data m0) = [] then \<exists>json. s3 (bid (qm_data m0)) = Inr json \<and> decode json = Inr (qm_data m)
      \<and> m = m0\<lparr>qm_data := qm_data m\<rparr> else m = m0"
    using batch by (auto simp: receive_batch_def split: if_splits sum.splits)
  then show "\<exists>raw b v. answer = Inr (Some [raw]) \<and> sm_body raw = Some b \<and> decode b = Inr v
        \<and> ack m = DeleteMessage (sv_url sv) (sm_receipt raw)
        \<and> nack m = ChangeMessageVisibility (sv_url sv) (sm_receipt raw) 0
        \<and> (if rids v = [] then \<exists>json. s3 (bid v) = Inr json \<and> decode json = Inr (qm_data m) else qm_data m = v)"
    by - (rule receiveMessage_Some [OF m0], cases m0, cases m, auto simp: ack_def nack_def split: if_splits)
next
  fix e
  assume failed: "receive_batch sv decode s3 answer = Inl e"
  show "(\<exists>err. answer = Inl err) \<or> (\<exists>raw. answer = Inr (Some [raw]))"
  proof (cases "receiveMessage sv decode answer")
    case (Inl err)
    then show ?thesis
      by (auto simp: receiveMessage_def bindE_Inl_iff length_Suc_conv split: sum.splits option.splits if_splits)
  next
    case (Inr received)
    then obtain m where "receiveMessage sv decode answer = Inr (Some m)"
      using failed by (cases received) (auto simp: receive_batch_def)
    then show ?thesis by (rule receiveMessage_Some) simp
  qed
qed

definition example_batch_queue :: sqs_service where
  "example_batch_queue = batch_queue \<lparr>qc_url = ''sqs/'', qc_hold = None, qc_wait = Some 5\<rparr>"

definition example_decode :: "string \<Rightarrow> string + anchor_batch_message" where
  "example_decode s = (if s = ''empty'' then Inr \<lparr>bid = ''b'', rids = []\<rparr>
     else if s = ''full'' then Inr \<lparr>bid = ''b'', rids = [''1'', ''2'']\<rparr> else Inl ''bad'')"

theorem sendMessage_outcome_witness:
  "\<exists>r sent. sendMessage example_batch_queue ''m'' 0 (replicate 5 (Some ''Signature expired: 1'')) = Some (r, sent)
    \<and> 1 \<le> length sent \<and> length sent \<le> 4"
proof -
  let ?answers = "replicate 5 (Some ''Signature expired: 1'')"
  obtain r sent where run: "sendMessage example_batch_queue ''m'' 0 ?answers = Some (r, sent)"
    using sendMessage_outcome [of ?answers example_batch_queue "''m''"] by auto
  then show ?thesis using sendMessage_outcome [of ?answers example_batch_queue "''m''"] by blast
qed

theorem receive_batch_outcome_witness:
  "\<exists>m. receive_batch example_batch_queue example_decode (\<lambda>_. Inr ''full'') (Inr (Some [\<lparr>sm_body = Some ''empty'', sm_receipt = ''r7''\<rparr>]))
      = Inr (Some m) \<and> ack m = DeleteMessage ''sqs/batch'' ''r7'' \<and> rids (qm_data m) = [''1'', ''2'']"
proof -
  let ?answer = "Inr (Some [\<lparr>sm_body = Some ''empty'', sm_receipt = ''r7''\<rparr>]) :: string + sqs_message list option"
  have "receive_batch example_batch_queue example_decode (\<lambda>_. Inr ''full'') ?answer
      = Inr (Some \<lparr>qm_data = \<lparr>bid = ''b'', rids = [''1'', ''2'']\<rparr>, qm_queue = ''sqs/batch'', qm_receipt = ''r7''\<rparr>)"
    by (simp add: receive_batch_def receiveMessage_def sqs_queue_message_def example_batch_queue_def example_decode_def
        batch_queue_def make_queue_def)
  then show ?thesis
    using receive_batch_outcome [of example_batch_queue example_decode "\<lambda>_. Inr ''full''" ?answer]
    by (fastforce simp: example_batch_queue_def batch_queue_def make_queue_def)
qed

end
