(* ===== verification/Ipfs_Service.thy ===== *)
theory Ipfs_Service
  imports Anchor_Repository Car_Stores Effects
begin

text \<open>
  \<open>src/src/services/ipfs-service.ts\<close>: reading records through a cache with retries, storing and
  pinning, publishing, and answering the queries of other nodes with the anchors of the database.
  The IPFS client is outside the repository: what its calls answer is given.
\<close>

section \<open>Constants and state\<close>

definition IPFS_GET_RETRIES :: nat where
  "IPFS_GET_RETRIES = 2"

definition DEFAULT_PUBSUB_RESPONDER_WINDOW :: int where
  "DEFAULT_PUBSUB_RESPONDER_WINDOW = 1000 * 60 * 60 * 24 * 31 * 3"

datatype pubsub_message =
    Update stream_id cid
  | Query string stream_id                     \<comment> \<open>id of the query, stream\<close>
  | Response string "(stream_id \<times> cid) list"   \<comment> \<open>id of the query, tips\<close>

text \<open>A message for the publishing queue; its timeout is always left out.\<close>

record ipfs_queue_message =
  iq_createdAt :: date
  iq_topic :: string
  iq_data :: "nat list"

record ipfs_config =
  if_topic :: string
  if_window :: "int option"
  if_serialize :: "pubsub_message \<Rightarrow> nat list"

record ipfs_state =
  ipfs_cache :: "string \<rightharpoonup> ipld"
  ipfs_imported :: "cid list"
  ipfs_pins :: "cid list"
  ipfs_published :: "(string \<times> nat list) list"
  ipfs_queue :: "ipfs_queue_message list"

section \<open>Reading records\<close>

definition cache_key :: "cid \<Rightarrow> string option \<Rightarrow> string" where
  "cache_key c path_option = c @ (case path_option of Some p \<Rightarrow> p | None \<Rightarrow> [])"

text \<open>The answer to one \<open>dag.get\<close>, whether the caller has aborted by then, and what the cache drops.\<close>

record get_answer =
  ga_value :: "cas_error + ipld"
  ga_aborted :: bool
  ga_evicted :: "string list"

text \<open>
  The loop of \<open>retrieveRecord\<close> with the retries left; the number is that of the gets. A cached value
  counts only if it is truthy.
\<close>

fun retrieve_from :: "string \<Rightarrow> nat \<Rightarrow> get_answer list \<Rightarrow> (string \<rightharpoonup> ipld)
    \<Rightarrow> ((cas_error + ipld) \<times> (string \<rightharpoonup> ipld) \<times> nat) option" where
  "retrieve_from key 0 answers cache = Some (Inl (LibraryError ''Failed to retrieve IPFS record''), cache, 0)"
| "retrieve_from key (Suc n) answers cache =
     (if truthy (cache key) then Some (Inr (the (cache key)), cache, 0)
      else case answers of
        [] \<Rightarrow> None
      | a # rest \<Rightarrow>
          (case ga_value a of
             Inr v \<Rightarrow> Some (Inr v, lru_set (ga_evicted a) key v cache, 1)
           | Inl err \<Rightarrow>
               (if ga_aborted a then Some (Inl err, cache, 1)
                else map_option (\<lambda>(r, c, k). (r, c, Suc k)) (retrieve_from key n rest cache))))"

definition retrieveRecord :: "cid \<Rightarrow> string option \<Rightarrow> get_answer list \<Rightarrow> (string \<rightharpoonup> ipld)
    \<Rightarrow> ((cas_error + ipld) \<times> (string \<rightharpoonup> ipld) \<times> nat) option" where
  "retrieveRecord c path_option answers cache = retrieve_from (cache_key c path_option) IPFS_GET_RETRIES answers cache"

section \<open>Storing and publishing\<close>

definition pin :: "cas_error option \<Rightarrow> cid \<Rightarrow> (ipfs_state, unit) prog" where
  "pin failure c = callP failure (\<lambda>s. s\<lparr>ipfs_pins := ipfs_pins s @ [c]\<rparr>)"

definition storeRecord :: "cas_error + cid \<Rightarrow> cas_error option \<Rightarrow> (ipfs_state, cid) prog" where
  "storeRecord put_answer pin_failure =
     bindP (liftP put_answer) (\<lambda>c. bindP (pin pin_failure c) (\<lambda>_. returnP c))"

definition publishAnchorCommit :: "ipfs_config \<Rightarrow> cas_error option \<Rightarrow> cid \<Rightarrow> stream_id \<Rightarrow> (ipfs_state, unit) prog" where
  "publishAnchorCommit cfg failure anchorCID sid =
     callP failure (\<lambda>s. s\<lparr>ipfs_published := ipfs_published s @ [(if_topic cfg, if_serialize cfg (Update sid anchorCID))]\<rparr>)"

fun pin_all :: "(cid \<Rightarrow> cas_error option) \<Rightarrow> cid list \<Rightarrow> (ipfs_state, unit) prog" where
  "pin_all failures [] = returnP ()"
| "pin_all failures (c # cs) = bindP (pin (failures c) c) (\<lambda>_. pin_all failures cs)"

definition importCAR :: "cas_error option \<Rightarrow> (cid \<Rightarrow> cas_error option) \<Rightarrow> cid list \<Rightarrow> (ipfs_state, unit) prog" where
  "importCAR import_failure failures block_cids =
     bindP (callP import_failure (\<lambda>s. s\<lparr>ipfs_imported := ipfs_imported s @ block_cids\<rparr>))
       (\<lambda>_. pin_all failures block_cids)"

section \<open>Answering queries\<close>

text \<open>
  The messages the responder looks at: signed ones of other nodes that can be decoded.
\<close>

record incoming =
  in_signed :: bool
  in_from :: string
  in_data :: "nat list"

definition incoming_message :: "string \<Rightarrow> (nat list \<Rightarrow> cas_error + pubsub_message) \<Rightarrow> incoming \<Rightarrow> pubsub_message option" where
  "incoming_message own deserialize m =
     (if in_signed m \<and> in_from m \<noteq> own
      then (case deserialize (in_data m) of Inl err \<Rightarrow> None | Inr msg \<Rightarrow> Some msg)
      else None)"

definition responder_window :: "ipfs_config \<Rightarrow> int" where
  "responder_window cfg = (case if_window cfg of Some w \<Rightarrow> if w = 0 then DEFAULT_PUBSUB_RESPONDER_WINDOW else w
     | None \<Rightarrow> DEFAULT_PUBSUB_RESPONDER_WINDOW)"

definition handleMessage :: "ipfs_config \<Rightarrow> db_engine \<Rightarrow> database \<Rightarrow> date \<Rightarrow> cas_error option \<Rightarrow> pubsub_message
    \<Rightarrow> (ipfs_state, unit) prog" where
  "handleMessage cfg e db now queue_failure msg =
     (case msg of
        Query i sid \<Rightarrow>
          (case findCompletedForStream e sid 1 (Some (now - responder_window cfg)) (requests db) of
             [] \<Rightarrow> returnP ()
           | completed # _ \<Rightarrow>
               (case findByRequest completed (anchors db) of
                  None \<Rightarrow> returnP ()
                | Some a \<Rightarrow>
                    callP queue_failure (\<lambda>s. s\<lparr>ipfs_queue := ipfs_queue s @
                      [\<lparr>iq_createdAt = now, iq_topic = if_topic cfg,
                        iq_data = if_serialize cfg (Response i [(sid, anchor_cid a)])\<rparr>]\<rparr>)))
      | _ \<Rightarrow> returnP ())"

section \<open>Properties\<close>

lemma retrieve_run:
  assumes "retrieve_from key n answers cache = Some (r, cache', k)"
  shows "k \<le> n \<and> k \<le> length answers
    \<and> (\<forall>i. Suc i < k \<longrightarrow> (\<exists>err. ga_value (answers ! i) = Inl err \<and> \<not> ga_aborted (answers ! i)))
    \<and> (\<forall>v. r = Inr v \<longrightarrow> (if k = 0 then cache key = Some v \<and> truthy (Some v) \<and> cache' = cache
         else ga_value (answers ! (k - 1)) = Inr v \<and> cache' key = Some v))
    \<and> (\<forall>err. r = Inl err \<longrightarrow> cache' = cache \<and> (k = n \<or> 0 < k \<and> ga_aborted (answers ! (k - 1))))"
  using assms
proof (induction key n answers cache arbitrary: k rule: retrieve_from.induct)
  case (2 key n answers cache)
  show ?case
  proof (cases "truthy (cache key)")
    case True
    then have "\<exists>v. cache key = Some v" by (cases "cache key") auto
    then show ?thesis using 2(2) True by auto
  next
    case False
    then obtain a rest where answers: "answers = a # rest" using 2(2) by (auto split: list.splits)
    show ?thesis
    proof (cases "ga_value a")
      case (Inr v)
      then show ?thesis using 2(2) False answers by (auto simp: lru_set_def)
    next
      case (Inl err)
      show ?thesis
      proof (cases "ga_aborted a")
        case True
        then show ?thesis using 2(2) False answers Inl by auto
      next
        case notAborted: False
        obtain k' where run: "retrieve_from key n rest cache = Some (r, cache', k')" and k: "k = Suc k'"
          using 2(2) False answers Inl notAborted by auto
        note IH = 2(1) [OF False answers Inl notAborted run]
        have "\<exists>err. ga_value (answers ! i) = Inl err \<and> \<not> ga_aborted (answers ! i)" if "Suc i < k" for i
          using that IH k answers Inl notAborted by (cases i) auto
        moreover have "k' = 0 \<Longrightarrow> r = Inr v \<Longrightarrow> False" for v
          using IH False by (cases "cache key") auto
        ultimately show ?thesis using IH k answers by (auto simp: nth_Cons')
      qed
    qed
  qed
qed auto

text \<open>
  IpfsService.retrieveRecord: at most two gets are sent, the second only after the first failed
  for a caller that had not aborted; a record that is returned was in the cache, without a get, or is
  the answer to the last get and is cached from now on; the call fails only after the second get or
  for a caller that aborted, leaving the cache alone; and with two answers it returns.
\<close>

theorem retrieveRecord_outcome:
  "(2 \<le> length answers \<longrightarrow> retrieveRecord c p answers cache \<noteq> None)
   \<and> (\<forall>r cache' k. retrieveRecord c p answers cache = Some (r, cache', k) \<longrightarrow>
        k \<le> 2 \<and> k \<le> length answers
        \<and> (k = 2 \<longrightarrow> (\<exists>err. ga_value (answers ! 0) = Inl err) \<and> \<not> ga_aborted (answers ! 0))
        \<and> (\<forall>v. r = Inr v \<longrightarrow> (if k = 0 then cache (cache_key c p) = Some v \<and> cache' = cache
             else ga_value (answers ! (k - 1)) = Inr v \<and> cache' (cache_key c p) = Some v))
        \<and> (\<forall>err. r = Inl err \<longrightarrow> cache' = cache \<and> (k = 2 \<or> ga_aborted (answers ! (k - 1)))))"
proof (intro conjI allI impI)
  show "retrieveRecord c p answers cache \<noteq> None" if "2 \<le> length answers"
    using that
    by (cases answers rule: list.exhaust [case_product list.exhaust [where y = "tl answers"]])
      (auto simp: retrieveRecord_def IPFS_GET_RETRIES_def numeral_2_eq_2 split: sum.splits list.splits)
next
  fix r cache' k
  assume run: "retrieveRecord c p answers cache = Some (r, cache', k)"
  note out = retrieve_run [OF run [unfolded retrieveRecord_def IPFS_GET_RETRIES_def]]
  show "k \<le> 2" "k \<le> length answers" using out by simp_all
  show "\<exists>err. ga_value (answers ! 0) = Inl err" "\<not> ga_aborted (answers ! 0)" if "k = 2" using out that by auto
  show "if k = 0 then cache (cache_key c p) = Some v \<and> cache' = cache
             else ga_value (answers ! (k - 1)) = Inr v \<and> cache' (cache_key c p) = Some v" if "r = Inr v" for v
    using out that by (auto split: if_splits)
  show "cache' = cache" "k = 2 \<or> ga_aborted (answers ! (k - 1))" if "r = Inl err" for err using out that by auto
qed

text \<open>What the responder sends in answer to a query.\<close>

lemma handleMessage_answer:
  assumes "sql_engine e"
    and "\<And>r. r \<in> set (requests db) \<Longrightarrow> status r = COMPLETED \<Longrightarrow> \<exists>a\<in>set (anchors db). requestId a = req_id r"
    and "\<exists>r\<in>set (requests db). streamId r = sid \<and> status r = COMPLETED \<and> now - responder_window cfg \<le> updatedAt r"
  shows "\<exists>r\<in>set (requests db). \<exists>a\<in>set (anchors db). streamId r = sid \<and> status r = COMPLETED \<and> requestId a = req_id r
    \<and> (\<forall>q\<in>set (requests db). streamId q = sid \<longrightarrow> status q = COMPLETED \<longrightarrow> updatedAt q \<le> updatedAt r)
    \<and> handleMessage cfg e db now None (Query i sid) s = Some (Inr (), s\<lparr>ipfs_queue := ipfs_queue s @
        [\<lparr>iq_createdAt = now, iq_topic = if_topic cfg, iq_data = if_serialize cfg (Response i [(sid, anchor_cid a)])\<rparr>]\<rparr>)"
proof -
  let ?rows = "filter (\<lambda>r. streamId r = sid \<and> status r = COMPLETED \<and> now - responder_window cfg \<le> updatedAt r) (requests db)"
  let ?sorted = "order_by e (\<lambda>r. - updatedAt r) ?rows"
  have set: "set ?sorted = set ?rows" and sorted: "sorted (map (\<lambda>r. - updatedAt r) ?sorted)"
    using assms(1) by (simp_all add: set_order_by sorted_order_by)
  obtain r rest where r: "?sorted = r # rest" using assms(3) set by (cases ?sorted) auto
  have row: "r \<in> set ?rows" using set r by (metis list.set_intros(1))
  have newest: "updatedAt q \<le> updatedAt r" if "q \<in> set (requests db)" "streamId q = sid" "status q = COMPLETED" for q
  proof (cases "now - responder_window cfg \<le> updatedAt q")
    case True
    then have "q \<in> set (r # rest)" using that set r by auto
    then show ?thesis using sorted r by auto
  qed (use row in auto)
  obtain b where b: "find (\<lambda>a. requestId a = req_id r) (anchors db) = Some b"
    using assms(2) [of r] row find_none_iff [of "\<lambda>a. requestId a = req_id r" "anchors db"] by (cases "find (\<lambda>a. requestId a = req_id r) (anchors db)") auto
  have "findCompletedForStream e sid 1 (Some (now - responder_window cfg)) (requests db) = [r]"
    using r by (simp add: findCompletedForStream_def)
  moreover obtain a where "findByRequest r (anchors db) = Some a" "anchor_cid a = anchor_cid b"
    using b by (auto simp: findByRequest_def)
  ultimately have "handleMessage cfg e db now None (Query i sid) s = Some (Inr (), s\<lparr>ipfs_queue := ipfs_queue s @
        [\<lparr>iq_createdAt = now, iq_topic = if_topic cfg, iq_data = if_serialize cfg (Response i [(sid, anchor_cid b)])\<rparr>]\<rparr>)"
    by (simp add: handleMessage_def callP_def)
  moreover have "b \<in> set (anchors db)" "requestId b = req_id r" using find_some_mem [OF b] by simp_all
  ultimately show ?thesis using row newest by (intro bexI [of _ r] bexI [of _ b]) auto
qed

definition example_get :: "cas_error + ipld \<Rightarrow> get_answer" where
  "example_get v = \<lparr>ga_value = v, ga_aborted = False, ga_evicted = []\<rparr>"

theorem retrieveRecord_outcome_witness:
  "\<exists>cache' k. retrieveRecord ''c'' None [example_get (Inl (LibraryError ''timeout'')), example_get (Inr (IInt 7))] (\<lambda>_. None)
      = Some (Inr (IInt 7), cache', k) \<and> cache' ''c'' = Some (IInt 7)"
proof -
  let ?answers = "[example_get (Inl (LibraryError ''timeout'')), example_get (Inr (IInt 7))]"
  have run: "retrieveRecord ''c'' None ?answers (\<lambda>_. None) = Some (Inr (IInt 7), [''c'' \<mapsto> IInt 7], 2)"
    by (simp add: retrieveRecord_def IPFS_GET_RETRIES_def numeral_2_eq_2 example_get_def lru_set_def cache_key_def fun_eq_iff)
  then show ?thesis
    using retrieveRecord_outcome [of ?answers "''c''" None "\<lambda>_. None"] by (fastforce simp: cache_key_def)
qed

end
