(* ===== verification/Pubsub.thy ===== *)
theory Pubsub
  imports Ipfs_Service
begin

text \<open>
  The pubsub responder: \<open>init\<close>, \<open>createPubsub\<close> and \<open>stop\<close> of \<open>src/src/services/ipfs-service.ts\<close> as a machine
  that is driven by what the IPFS node delivers. Only in the mode \<open>pubsub-responder\<close> are messages looked at.
\<close>

section \<open>Initialization\<close>

text \<open>The names of codecs and hashers by code, as the client lists them; a later entry wins.\<close>

record ipfs_names =
  codecNames :: "nat \<rightharpoonup> string"
  hasherNames :: "nat \<rightharpoonup> string"

definition listed_names :: "(nat \<times> string) list \<Rightarrow> (nat \<times> string) list \<Rightarrow> ipfs_names" where
  "listed_names codecs hashers = \<lparr>codecNames = fold (\<lambda>(code, name) m. m(code \<mapsto> name)) codecs (\<lambda>_. None),
     hasherNames = fold (\<lambda>(code, name) m. m(code \<mapsto> name)) hashers (\<lambda>_. None)\<rparr>"

text \<open>
  What \<open>pubsub$\<close> is doing: nothing in the other modes, listening with its \<open>n\<close>-th subscription, waiting to
  subscribe again, or unsubscribed. An unhandled rejection of a handler ends the process.
\<close>

datatype connection = KeepAlive | Listening nat | Resubscribing nat | Unsubscribed

record responder =
  connection :: connection
  unhandled :: "cas_error option"
  node_state :: ipfs_state

definition respondToPubsubQueries :: "string \<Rightarrow> bool" where
  "respondToPubsubQueries mode \<longleftrightarrow> mode = ''pubsub-responder''"

text \<open>
  The promise of \<open>createPubsub\<close>: without the role of a responder it is that of the subscription; with it,
  only the identity of the node is awaited, and failing to subscribe is an error of the observable.
\<close>

definition createPubsub :: "bool \<Rightarrow> cas_error option \<Rightarrow> cas_error + string \<Rightarrow> cas_error + connection" where
  "createPubsub responds subscribe_failure own_id =
     (if \<not> responds then (case subscribe_failure of Some e \<Rightarrow> Inl e | None \<Rightarrow> Inr KeepAlive)
      else bindE own_id (\<lambda>i. Inr (Listening 0)))"

definition init_ipfs :: "(nat \<times> string) list \<Rightarrow> (nat \<times> string) list \<Rightarrow> bool \<Rightarrow> cas_error option \<Rightarrow> cas_error + string
    \<Rightarrow> cas_error + ipfs_names \<times> connection" where
  "init_ipfs codecs hashers responds subscribe_failure own_id =
     bindE (createPubsub responds subscribe_failure own_id) (\<lambda>c. Inr (listed_names codecs hashers, c))"

section \<open>Events\<close>

text \<open>
  A message at the handler of a subscription, with what its handling meets: the time, the database, and
  whether the queue takes the response; an error of a subscription, at once or later; the end of the delay;
  and \<open>stop\<close>.
\<close>

record meeting =
  met_now :: date
  met_db :: database
  met_failure :: "cas_error option"

datatype pubsub_event =
    Arrived nat incoming meeting
  | Errored nat
  | DelayOver
  | Stop

text \<open>The arguments of a step: the responder's own id, the decoder, the configuration and the database engine.\<close>

record pubsub_setup =
  own_id :: string
  decoder :: "nat list \<Rightarrow> cas_error + pubsub_message"
  setup_ipfs :: ipfs_config
  setup_engine :: db_engine

definition on_message :: "pubsub_setup \<Rightarrow> meeting \<Rightarrow> pubsub_message \<Rightarrow> responder \<Rightarrow> responder" where
  "on_message ps met msg s =
     (case handleMessage (setup_ipfs ps) (setup_engine ps) (met_db met) (met_now met) (met_failure met) msg (node_state s) of
        None \<Rightarrow> s
      | Some (Inl e, t) \<Rightarrow> s\<lparr>node_state := t, unhandled := Some e\<rparr>
      | Some (Inr _, t) \<Rightarrow> s\<lparr>node_state := t\<rparr>)"

fun pubsub_step :: "pubsub_setup \<Rightarrow> pubsub_event \<Rightarrow> responder \<Rightarrow> responder" where
  "pubsub_step ps (Arrived k m met) s =
     (if connection s \<noteq> Listening k \<or> unhandled s \<noteq> None then s
      else case incoming_message (own_id ps) (decoder ps) m of
        None \<Rightarrow> s
      | Some msg \<Rightarrow> on_message ps met msg s)"
| "pubsub_step ps (Errored k) s = (if connection s = Listening k then s\<lparr>connection := Resubscribing k\<rparr> else s)"
| "pubsub_step ps DelayOver s =
     (case connection s of Resubscribing k \<Rightarrow> s\<lparr>connection := Listening (Suc k)\<rparr> | _ \<Rightarrow> s)"
| "pubsub_step ps Stop s = s\<lparr>connection := Unsubscribed\<rparr>"

definition pubsub_run :: "pubsub_setup \<Rightarrow> pubsub_event list \<Rightarrow> responder \<Rightarrow> responder" where
  "pubsub_run ps es s = fold (pubsub_step ps) es s"

section \<open>The contract\<close>

text \<open>
  What a responder has to do, without subscriptions and bytes: answer, in order, the queries it was asked,
  with the anchor of the newest completed request of the stream in its time window, until an answer can not
  be sent.
\<close>

definition due_anchor :: "pubsub_setup \<Rightarrow> meeting \<Rightarrow> stream_id \<Rightarrow> cid option" where
  "due_anchor ps met sid =
     (case findCompletedForStream (setup_engine ps) sid 1 (Some (met_now met - responder_window (setup_ipfs ps)))
             (requests (met_db met)) of
        [] \<Rightarrow> None
      | completed # _ \<Rightarrow> map_option anchor_cid (findByRequest completed (anchors (met_db met))))"

definition answer_message :: "ipfs_config \<Rightarrow> date \<Rightarrow> string \<Rightarrow> stream_id \<Rightarrow> cid \<Rightarrow> ipfs_queue_message" where
  "answer_message cfg now i sid a = \<lparr>iq_createdAt = now, iq_topic = if_topic cfg,
     iq_data = if_serialize cfg (Response i [(sid, a)])\<rparr>"

fun answers_due :: "pubsub_setup \<Rightarrow> (meeting \<times> string \<times> stream_id) list \<Rightarrow> ipfs_queue_message list \<times> cas_error option" where
  "answers_due ps [] = ([], None)"
| "answers_due ps ((met, i, sid) # qs) =
     (case due_anchor ps met sid of
        None \<Rightarrow> answers_due ps qs
      | Some a \<Rightarrow>
          (case met_failure met of
             Some e \<Rightarrow> ([], Some e)
           | None \<Rightarrow> (case answers_due ps qs of
                (rs, f) \<Rightarrow> (answer_message (setup_ipfs ps) (met_now met) i sid a # rs, f))))"

text \<open>
  The queries a responder was asked: at the live subscription, signed, of another node, and decodable. A
  subscription lives until its first error; the next one is made after the delay.
\<close>

fun queries_heard :: "pubsub_setup \<Rightarrow> connection \<Rightarrow> pubsub_event list \<Rightarrow> (meeting \<times> string \<times> stream_id) list" where
  "queries_heard ps c [] = []"
| "queries_heard ps c (Arrived k m met # es) =
     (if c = Listening k
      then (case incoming_message (own_id ps) (decoder ps) m of
              Some (Query i sid) \<Rightarrow> (met, i, sid) # queries_heard ps c es
            | _ \<Rightarrow> queries_heard ps c es)
      else queries_heard ps c es)"
| "queries_heard ps c (Errored k # es) = queries_heard ps (if c = Listening k then Resubscribing k else c) es"
| "queries_heard ps c (DelayOver # es) =
     queries_heard ps (case c of Resubscribing k \<Rightarrow> Listening (Suc k) | _ \<Rightarrow> c) es"
| "queries_heard ps c (Stop # es) = []"

lemma handleMessage_query:
  "handleMessage (setup_ipfs ps) (setup_engine ps) (met_db met) (met_now met) (met_failure met) (Query i sid) t =
     (case due_anchor ps met sid of
        None \<Rightarrow> Some (Inr (), t)
      | Some a \<Rightarrow>
          (case met_failure met of
             Some e \<Rightarrow> Some (Inl e, t)
           | None \<Rightarrow> Some (Inr (), t\<lparr>ipfs_queue := ipfs_queue t @
               [answer_message (setup_ipfs ps) (met_now met) i sid a]\<rparr>)))"
  by (auto simp: handleMessage_def due_anchor_def answer_message_def callP_def split: list.split option.split)

lemma on_message_query:
  "on_message ps met (Query i sid) s =
     (case due_anchor ps met sid of
        None \<Rightarrow> s
      | Some a \<Rightarrow>
          (case met_failure met of
             Some e \<Rightarrow> s\<lparr>unhandled := Some e\<rparr>
           | None \<Rightarrow> s\<lparr>node_state := (node_state s)\<lparr>ipfs_queue := ipfs_queue (node_state s) @
               [answer_message (setup_ipfs ps) (met_now met) i sid a]\<rparr>\<rparr>))"
  unfolding on_message_def handleMessage_query by (auto split: option.split)

lemma run_crashed: "unhandled s \<noteq> None \<Longrightarrow> unhandled (pubsub_run ps es s) = unhandled s \<and> node_state (pubsub_run ps es s) = node_state s"
proof (induction es arbitrary: s)
  case (Cons ev es)
  have "unhandled (pubsub_step ps ev s) = unhandled s \<and> node_state (pubsub_step ps ev s) = node_state s"
    using Cons.prems by (cases ev) (auto split: connection.split)
  then show ?case using Cons by (simp add: pubsub_run_def)
qed (simp add: pubsub_run_def)

lemma run_stopped: "connection s = Unsubscribed \<Longrightarrow> unhandled (pubsub_run ps es s) = unhandled s \<and> node_state (pubsub_run ps es s) = node_state s"
proof (induction es arbitrary: s)
  case (Cons ev es)
  then have "pubsub_step ps ev s = s" by (cases ev) auto
  then show ?case using Cons by (simp add: pubsub_run_def)
qed (simp add: pubsub_run_def)

lemma run_Cons: "pubsub_run ps (ev # es) s = pubsub_run ps es (pubsub_step ps ev s)"
  by (simp add: pubsub_run_def)

lemma run_answers:
  assumes "unhandled s = None" and "answers_due ps (queries_heard ps (connection s) es) = (rs, f)"
  shows "node_state (pubsub_run ps es s) = (node_state s)\<lparr>ipfs_queue := ipfs_queue (node_state s) @ rs\<rparr>
    \<and> unhandled (pubsub_run ps es s) = f"
  using assms
proof (induction es arbitrary: s rs)
  case Nil
  then show ?case by (simp add: pubsub_run_def)
next
  case (Cons ev es)
  show ?case
  proof (cases ev)
    case (Arrived k m met)
    show ?thesis
    proof (cases "\<exists>i sid. connection s = Listening k \<and> incoming_message (own_id ps) (decoder ps) m = Some (Query i sid)")
      case True
      then obtain i sid where q: "connection s = Listening k" "incoming_message (own_id ps) (decoder ps) m = Some (Query i sid)"
        by blast
      show ?thesis
      proof (cases "due_anchor ps met sid")
        case None
        then have "pubsub_step ps ev s = s"
          using Arrived q Cons.prems(1) by (simp add: on_message_query)
        then show ?thesis using Cons Arrived q None by (simp add: run_Cons)
      next
        case (Some a)
        show ?thesis
        proof (cases "met_failure met")
          case failed: (Some e)
          have "pubsub_step ps ev s = s\<lparr>unhandled := Some e\<rparr>"
            using Arrived q Cons.prems(1) Some failed by (simp add: on_message_query)
          then show ?thesis
            using run_crashed [of "s\<lparr>unhandled := Some e\<rparr>" ps es] Cons.prems Arrived q Some failed by (simp add: run_Cons)
        next
          case None
          let ?r = "answer_message (setup_ipfs ps) (met_now met) i sid a"
          let ?s = "s\<lparr>node_state := (node_state s)\<lparr>ipfs_queue := ipfs_queue (node_state s) @ [?r]\<rparr>\<rparr>"
          have step: "pubsub_step ps ev s = ?s"
            using Arrived q Cons.prems(1) Some None by (simp add: on_message_query)
          obtain rest where rest: "answers_due ps (queries_heard ps (connection s) es) = (rest, f)" "rs = ?r # rest"
            using Cons.prems(2) Arrived q Some None by (auto split: prod.splits)
          then show ?thesis using Cons.IH [of ?s rest] Cons.prems(1) step by (simp add: run_Cons)
        qed
      qed
    next
      case False
      have "pubsub_step ps ev s = s"
        using False Arrived
        by (auto simp: on_message_def handleMessage_def split: option.split pubsub_message.split)
      moreover have "queries_heard ps (connection s) (ev # es) = queries_heard ps (connection s) es"
        using False Arrived by (auto split: option.split pubsub_message.split)
      ultimately show ?thesis using Cons by (simp add: run_Cons)
    qed
  next
    case Stop
    then show ?thesis
      using Cons.prems run_stopped [of "s\<lparr>connection := Unsubscribed\<rparr>" ps es] by (simp add: run_Cons)
  qed (use Cons in \<open>auto simp: run_Cons split: connection.split\<close>)
qed


text \<open>A query that is unsigned, one after an error for the handler that is gone, and one that is heard.\<close>

definition example_setup :: pubsub_setup where
  "example_setup = \<lparr>own_id = ''me'', decoder = (\<lambda>d. if d = [1] then Inr (Query ''q'' ''s1'') else Inl (LibraryError ''broken'')),
     setup_ipfs = \<lparr>if_topic = ''/ceramic'', if_window = None, if_serialize = (\<lambda>_. [1, 2])\<rparr>, setup_engine = stable_engine\<rparr>"

definition example_events :: "pubsub_event list" where
  "example_events =
     (let met = \<lparr>met_now = 100, met_db = example_db, met_failure = None\<rparr>;
          query = \<lparr>in_signed = True, in_from = ''you'', in_data = [1]\<rparr>
      in [Arrived 0 (query\<lparr>in_signed := False\<rparr>) met, Errored 0, Arrived 0 query met, DelayOver, Arrived 0 query met,
          Arrived 1 (query\<lparr>in_data := [3]\<rparr>) met, Arrived 1 query met, Stop, Arrived 1 query met])"

definition example_node :: ipfs_state where
  "example_node = \<lparr>ipfs_cache = (\<lambda>_. None), ipfs_imported = [], ipfs_pins = [], ipfs_published = [], ipfs_queue = []\<rparr>"


end
