(* ===== verification/Wiring.thy ===== *)
theory Wiring
  imports Server Sqs_Queue Pubsub
begin

text \<open>
  What the constructors and factories read from one configuration: the anchor service, the request service,
  the queues, the stores, the IPFS and the Ethereum service; and how a process that anchors continually or
  answers pubsub queries shuts down. The services themselves are in the theories of the components.
\<close>

section \<open>Reading the configuration\<close>

text \<open>\<open>config.a.b\<close>: a member of \<open>undefined\<close> or \<open>null\<close> is a type error.\<close>

fun js_get :: "string list \<Rightarrow> config option \<Rightarrow> cas_error + config option" where
  "js_get [] v = Inr v"
| "js_get (k # ks) v = (if v = None \<or> v = Some CNull then Inl TypeError else js_get ks (setting k (the v)))"

definition js_config :: "string list \<Rightarrow> config \<Rightarrow> cas_error + config option" where
  "js_config ks c = js_get ks (Some c)"

text \<open>\<open>Number(v)\<close>; \<open>other\<close> is the reading of strings that are no decimal integers.\<close>

definition js_to_number :: "(string \<Rightarrow> int option) \<Rightarrow> config option \<Rightarrow> int option" where
  "js_to_number other v =
     (case v of
        Some (CNum n) \<Rightarrow> n
      | Some (CBool b) \<Rightarrow> Some (if b then 1 else 0)
      | Some CNull \<Rightarrow> Some 0
      | Some (CStr s) \<Rightarrow> (let t = js_trim s in if t = [] then Some 0
          else if list_all is_digit t then Some (int (digits_val t)) else other s)
      | _ \<Rightarrow> None)"

text \<open>What a value adds to a string; arrays and objects are not configured in these places.\<close>

definition js_to_text :: "config option \<Rightarrow> string" where
  "js_to_text v =
     (case v of
        None \<Rightarrow> ''undefined''
      | Some CNull \<Rightarrow> ''null''
      | Some (CBool b) \<Rightarrow> (if b then ''true'' else ''false'')
      | Some (CNum n) \<Rightarrow> number_to_string n
      | Some (CStr s) \<Rightarrow> s
      | Some (CArr xs) \<Rightarrow> []
      | Some (CObj ps) \<Rightarrow> ''[object Object]'')"

definition text_or :: "config option \<Rightarrow> string \<Rightarrow> string" where
  "text_or v d = (if holds v then js_to_text v else d)"

section \<open>The services\<close>

text \<open>The factory of \<open>RequestRepository\<close>: the two durations its queries are asked with.\<close>

definition make_request_repository :: "(string \<Rightarrow> int option) \<Rightarrow> config \<Rightarrow> int \<times> int" where
  "make_request_repository other c =
     (let duration = (\<lambda>k. case js_to_number other (setting k c) of Some d \<Rightarrow> d | None \<Rightarrow> 0)
      in (duration ''maxAnchoringDelayMS'', duration ''readyRetryIntervalMS''))"

text \<open>
  The constructor of \<open>AnchorService\<close>, whose record of settings also holds those of its repository. A depth
  that is no positive number limits nothing; a negative number of streams is below every count, as 0 is.
\<close>

definition wire_anchor_service :: "(string \<Rightarrow> int option) \<Rightarrow> bool \<Rightarrow> bool \<Rightarrow> config \<Rightarrow> cas_error + service_config" where
  "wire_anchor_service other env_ipfs env_publish c =
     bindE (js_config [''queue'', ''sqsQueueUrl''] c) (\<lambda>queueUrl.
       (let depth = (case js_to_number other (setting ''merkleDepthLimit'' c) of Some d \<Rightarrow> nat d | None \<Rightarrow> 0);
            minStreamCount = js_to_number other (setting ''minStreamCount'' c);
            maxLimit = (if 0 < depth then 2 ^ depth else 0)
        in Inr \<lparr>merkleDepthLimit = depth, useSmartContractAnchors = holds (setting ''useSmartContractAnchors'' c),
             useQueueBatches = holds queueUrl, maxStreamLimit = maxLimit,
             minStreamLimit = (case minStreamCount of Some n \<Rightarrow> if n = 0 then maxLimit div 2 else nat n | None \<Rightarrow> maxLimit div 2),
             maxAnchoringDelayMS = fst (make_request_repository other c),
             readyRetryIntervalMS = snd (make_request_repository other c),
             casUseIpfsStorage = env_ipfs, casPubsubPublish = env_publish\<rparr>))"

definition DEFAULT_ALERT_MS :: int where
  "DEFAULT_ALERT_MS = 1200000"

definition alertOnLongAnchorMs :: "(string \<Rightarrow> int option) \<Rightarrow> config \<Rightarrow> int option" where
  "alertOnLongAnchorMs other c =
     (let v = setting ''alertOnLongAnchorMs'' c in if holds v then js_to_number other v else Some DEFAULT_ALERT_MS)"

text \<open>The constructor of \<open>RequestService\<close>.\<close>

definition publishToQueue :: "config \<Rightarrow> cas_error + bool" where
  "publishToQueue c = bindE (js_config [''queue'', ''sqsQueueUrl''] c) (\<lambda>u. Inr (holds u))"

text \<open>The constructors of the queues: the name of a queue is added to whatever the URL is.\<close>

definition wire_queues :: "(string \<Rightarrow> int option) \<Rightarrow> config \<Rightarrow> cas_error + queue_config" where
  "wire_queues other c =
     bindE (js_config [''queue'', ''sqsQueueUrl''] c) (\<lambda>url.
     bindE (js_config [''queue'', ''maxTimeToHoldMessageSec''] c) (\<lambda>hold.
     bindE (js_config [''queue'', ''waitTimeForMessageSec''] c) (\<lambda>wait.
       Inr \<lparr>qc_url = js_to_text url, qc_hold = map_option nat (js_to_number other hold),
            qc_wait = map_option nat (js_to_number other wait)\<rparr>)))"

definition BATCH_STORE_PATH :: string where "BATCH_STORE_PATH = ''/cas/anchor/batch''"
definition S3_STORE_SUFFIX :: string where "S3_STORE_SUFFIX = ''/cas/anchor/merkle-car/''"

text \<open>A store in S3: its path, and the endpoint if one is configured.\<close>

record s3_target =
  s3_path :: string
  s3_endpoint :: "config option"

definition s3_target_of :: "string \<Rightarrow> string \<Rightarrow> config \<Rightarrow> cas_error + s3_target" where
  "s3_target_of part path_end c =
     bindE (js_config [part, ''s3BucketName''] c) (\<lambda>bucket.
     bindE (js_config [part, ''s3Endpoint''] c) (\<lambda>e.
       Inr \<lparr>s3_path = js_to_text bucket @ path_end, s3_endpoint = (if holds e then e else None)\<rparr>))"

definition batch_store :: "config \<Rightarrow> cas_error + s3_target" where
  "batch_store c = s3_target_of ''queue'' BATCH_STORE_PATH c"

datatype merkle_store = S3Store s3_target | MemoryCars

definition makeMerkleCarService :: "config \<Rightarrow> cas_error + merkle_store" where
  "makeMerkleCarService c =
     bindE (js_config [''carStorage'', ''mode''] c) (\<lambda>mode.
       if mode = Some (CStr ''s3'') then bindE (s3_target_of ''carStorage'' S3_STORE_SUFFIX c) (\<lambda>t. Inr (S3Store t))
       else Inr MemoryCars)"

definition DEFAULT_WITNESS_TABLE_NAME :: string where "DEFAULT_WITNESS_TABLE_NAME = ''cas-anchor-witness''"
definition DEFAULT_WITNESS_TABLE_TTL :: string where "DEFAULT_WITNESS_TABLE_TTL = ''86400''"

datatype witness_backend =
    WitnessTable string string     \<comment> \<open>name and time to live\<close>
  | WitnessCache

definition makeWitnessService :: "config \<Rightarrow> cas_error + witness_backend" where
  "makeWitnessService c =
     bindE (js_config [''witnessStorage'', ''mode''] c) (\<lambda>mode.
       if mode = Some (CStr ''dynamodb'')
       then bindE (js_config [''witnessStorage'', ''dynamoDbTableName''] c) (\<lambda>name.
            bindE (js_config [''witnessStorage'', ''dynamoDbTtl''] c) (\<lambda>ttl.
              Inr (WitnessTable (text_or name DEFAULT_WITNESS_TABLE_NAME) (text_or ttl DEFAULT_WITNESS_TABLE_TTL))))
       else Inr WitnessCache)"

datatype eth_provider = RpcUrl config | RpcHost string | DefaultProvider "config option"

definition make_provider :: "config \<Rightarrow> cas_error + eth_provider" where
  "make_provider c =
     (let connector = [''blockchain'', ''connectors'', ''ethereum''] in
      bindE (js_config (connector @ [''rpc'', ''host'']) c) (\<lambda>host.
      bindE (js_config (connector @ [''rpc'', ''port'']) c) (\<lambda>port.
      bindE (js_config (connector @ [''rpc'', ''url'']) c) (\<lambda>url.
      bindE (js_config (connector @ [''network'']) c) (\<lambda>network.
        if holds url then Inr (RpcUrl (the url))
        else if holds host \<and> holds port then Inr (RpcHost (js_to_text host @ '':'' @ js_to_text port))
        else Inr (DefaultProvider network))))))"

text \<open>The constructor of \<open>EthereumBlockchainService\<close>; the chain is not known before \<open>connect\<close>.\<close>

definition wire_ethereum :: "(string \<Rightarrow> int option) \<Rightarrow> string \<Rightarrow> config \<Rightarrow> cas_error + eth_config" where
  "wire_ethereum other wallet c =
     (let connector = [''blockchain'', ''connectors'', ''ethereum''] in
      bindE (js_config (connector @ [''contractAddress'']) c) (\<lambda>address.
      bindE (js_config (connector @ [''overrideGasConfig'']) c) (\<lambda>overrides.
      bindE (js_config (connector @ [''gasLimit'']) c) (\<lambda>limit.
        Inr \<lparr>overrideGasConfig = holds overrides,
             configGasLimit = (case js_to_number other limit of Some n \<Rightarrow> n | None \<Rightarrow> 0), ethChainId = None,
             eth_useSmartContractAnchors = holds (setting ''useSmartContractAnchors'' c),
             contractAddress = js_to_text address, walletAddress = wallet\<rparr>))))"

text \<open>\<open>connect\<close>: the chain id of the node.\<close>

definition connect_ethereum :: "cas_error + nat \<Rightarrow> eth_config \<Rightarrow> cas_error + eth_config" where
  "connect_ethereum network cfg = bindE network (\<lambda>chainId. Inr (cfg\<lparr>ethChainId := Some chainId\<rparr>))"

definition wire_ipfs :: "(string \<Rightarrow> int option) \<Rightarrow> (pubsub_message \<Rightarrow> nat list) \<Rightarrow> config \<Rightarrow> cas_error + ipfs_config \<times> bool" where
  "wire_ipfs other ser c =
     bindE (js_config [''ipfsConfig'', ''pubsubTopic''] c) (\<lambda>topic.
       Inr (\<lparr>if_topic = js_to_text topic, if_window = js_to_number other (setting ''pubsubResponderWindowMs'' c),
              if_serialize = ser\<rparr>,
            respondToPubsubQueries (js_to_text (setting ''mode'' c))))"

text \<open>\<open>HTTPEventProducerService\<close>: the request that announces a batch.\<close>

definition emitAnchorEvent :: "config \<Rightarrow> string \<Rightarrow> config option \<times> config" where
  "emitAnchorEvent c data =
     (setting ''anchorLauncherUrl'' c, CObj [(''type'', CStr ''anchor''), (''data'', CStr data)])"

section \<open>Shutting down\<close>

datatype stop_action = StopMarkReady | StopContinual | StopServer | StopIpfs

text \<open>
  \<open>CeramicAnchorApp.stop\<close>: both schedulers at once, then the server and IPFS; with the failures of the
  schedulers and of the service.
\<close>

definition stop_app :: "cas_error option \<Rightarrow> cas_error option \<Rightarrow> cas_error option \<Rightarrow> stop_action list \<times> cas_error option" where
  "stop_app mark_ready_failure continual_failure unsubscribe_failure =
     (case (mark_ready_failure, continual_failure) of
        (None, None) \<Rightarrow> ([StopMarkReady, StopContinual, StopServer, StopIpfs], unsubscribe_failure)
      | (Some e, _) \<Rightarrow> ([StopMarkReady, StopContinual], Some e)
      | (None, Some e) \<Rightarrow> ([StopMarkReady, StopContinual], Some e))"

text \<open>
  The handler of the signals \<open>SIGINT\<close>, \<open>SIGTERM\<close> and \<open>SIGQUIT\<close>: the first one starts \<open>stop\<close>, the others
  find it in progress; its end ends the process.
\<close>

datatype shutdown = Working | ShuttingDown | Ended nat

datatype shutdown_event = Signal | Stopped "cas_error option"

fun shutdown_step :: "shutdown_event \<Rightarrow> shutdown \<times> nat \<Rightarrow> shutdown \<times> nat" where
  "shutdown_step Signal (Working, stops) = (ShuttingDown, Suc stops)"
| "shutdown_step (Stopped failure) (ShuttingDown, stops) = (Ended (if failure = None then 0 else 1), stops)"
| "shutdown_step ev s = s"

definition shutdown_run :: "shutdown_event list \<Rightarrow> shutdown \<times> nat" where
  "shutdown_run evs = fold shutdown_step evs (Working, 0)"

lemma shutdown_once:
  "snd (shutdown_run evs) = (if Signal \<in> set evs then 1 else 0)"
  and "fst (shutdown_run evs) = Ended n \<Longrightarrow> \<exists>failure. Stopped failure \<in> set evs \<and> n = (if failure = None then 0 else 1)"
proof -
  show "snd (shutdown_run evs) = (if Signal \<in> set evs then 1 else 0)"
    unfolding shutdown_run_def
  proof (induction evs)
    case (Cons ev evs)
    have "snd (fold shutdown_step xs s) = snd s" if "fst s \<noteq> Working" for xs and s :: "shutdown \<times> nat"
      using that
    proof (induction xs arbitrary: s)
      case (Cons x xs)
      have "snd (shutdown_step x s) = snd s \<and> fst (shutdown_step x s) \<noteq> Working"
        using Cons.prems by (cases "(x, s)" rule: shutdown_step.cases) auto
      then show ?case using Cons.IH by simp
    qed simp
    then show ?case using Cons.IH by (cases ev) simp_all
  qed simp
  have "fst (fold shutdown_step evs s) = Ended n \<Longrightarrow> fst s \<noteq> Ended n \<Longrightarrow>
      \<exists>failure. Stopped failure \<in> set evs \<and> n = (if failure = None then 0 else 1)" for s
  proof (induction evs arbitrary: s)
    case (Cons ev evs)
    then show ?case
    proof (cases "fst (shutdown_step ev s) = Ended n")
      case True
      then show ?thesis using Cons.prems(2) by (cases "(ev, s)" rule: shutdown_step.cases) (auto split: if_splits)
    next
      case False
      have "fst (fold shutdown_step evs (shutdown_step ev s)) = Ended n" using Cons.prems(1) by simp
      then obtain failure where "Stopped failure \<in> set evs" "n = (if failure = None then 0 else 1)"
        using Cons.IH [OF _ False] by blast
      then show ?thesis by (intro exI [of _ failure]) simp
    qed
  qed simp
  then show "fst (shutdown_run evs) = Ended n \<Longrightarrow> \<exists>failure. Stopped failure \<in> set evs \<and> n = (if failure = None then 0 else 1)"
    unfolding shutdown_run_def by fastforce
qed

section \<open>One configuration\<close>

text \<open>Requests are queued exactly where batches come from the queue.\<close>

lemma queue_modes_agree:
  "wire_anchor_service other i p c = Inr cfg \<Longrightarrow> publishToQueue c = Inr (useQueueBatches cfg)"
  by (auto simp: wire_anchor_service_def publishToQueue_def bindE_Inr_iff Let_def)

lemma wired_limit:
  assumes "wire_anchor_service other i p c = Inr cfg"
  shows "maxStreamLimit cfg = (if 0 < merkleDepthLimit cfg then 2 ^ merkleDepthLimit cfg else 0)"
proof -
  obtain u where "js_config [''queue'', ''sqsQueueUrl''] c = Inr u" using assms
    by (auto simp: wire_anchor_service_def bindE_Inr_iff)
  then show ?thesis using assms by (auto simp: wire_anchor_service_def Let_def)
qed

text \<open>What the package of the Merkle tree promises: it builds no tree with more leaves than its depth allows.\<close>

definition tree_bounded :: "('car, 'block) platform \<Rightarrow> bool" where
  "tree_bounded P \<longleftrightarrow> (\<forall>depth cs car. 0 < depth \<longrightarrow> 2 ^ depth < length cs \<longrightarrow> (\<exists>e. tree_factory P depth cs car = Inl e))"

lemma findCandidates_length: "findCandidates ids e rs bound tbl = Inr (cs, g) \<Longrightarrow> length cs = length rs"
  using findCandidates_rows(1) mset_eq_length by fastforce

definition anchored_part :: "'car world \<Rightarrow> database \<times> cid list \<times> string list" where
  "anchored_part w = (w_db w, w_sent w, w_acked w)"

lemma oversized_batch:
  assumes "tree_bounded P" and "0 < merkleDepthLimit cfg" and "useQueueBatches cfg"
    and "2 ^ merkleDepthLimit cfg < length (filter (\<lambda>r. status r \<noteq> REPLACED) batch)"
    and "anchor_batch P cfg ans batch b w = Some (r, w')"
  shows "(\<exists>e. r = Inl e) \<and> anchored_part w' = anchored_part w"
proof -
  let ?live = "filter (\<lambda>r. status r \<noteq> REPLACED) batch"
  have live: "?live \<noteq> []" using assms(4) by auto
  show ?thesis
  proof (cases "findCandidates (id_parsers_of P) (engine P) ?live (maxStreamLimit cfg) (anchors (w_db w))")
    case (Inl e)
    then show ?thesis using assms(5) live by (auto simp: anchor_batch_def bindP_def)
  next
    case (Inr found)
    obtain cs g where found: "found = (cs, g)" by fastforce
    have len: "length cs = length ?live" using findCandidates_length Inr found by blast
    have "2 ^ merkleDepthLimit cfg < length cs" unfolding len by (rule assms(4))
    then obtain e0 where "tree_factory P (merkleDepthLimit cfg) cs (car_empty (lib P)) = Inl e0"
      using assms(1,2) unfolding tree_bounded_def by blast
    then obtain e where tree: "buildMerkleTree P cfg cs = Inl e"
      by (simp add: buildMerkleTree_def merkle_car_build_def)
    have "length cs \<noteq> 0" using len live by (metis length_0_conv)
    then have some: "cs \<noteq> []" by simp
    have run: "anchorCandidates P cfg ans cs w = Some (Inl e, w)" by (simp add: anchorCandidates_def bindP_def tree)
    have "\<exists>s. anchor_batch P cfg ans batch b w = Some (Inl e, w\<lparr>w_summaries := s\<rparr>)"
      unfolding anchor_batch_def Let_def if_not_P [OF live] Inr found
      by (simp add: bindP_def catchP_def logAnchorSummary_def some run assms(3), blast)
    then show ?thesis using assms(5) by (auto simp: anchored_part_def)
  qed
qed

lemma batch_length:
  assumes "sql_engine e" and "request_table_wf tbl" and "batchProcessing e mx tbl = (tbl', batch)" and "mx \<noteq> 0"
  shows "length batch \<le> mx"
proof -
  define ids where "ids = map req_id (limit_unless_zero mx (db_scan e (filter (\<lambda>r. status r = READY) tbl)))"
  have "length batch = length (filter (\<lambda>r. req_id r \<in> set ids) tbl)"
    using assms(3) mset_eq_length [OF mset_db_scan [OF assms(1), of "filter (\<lambda>r. req_id r \<in> set ids) tbl"]]
    by (auto simp: batchProcessing_def Let_def ids_def)
  also have "\<dots> = card (req_id ` set (filter (\<lambda>r. req_id r \<in> set ids) tbl))"
    using assms(2) by (metis distinct_card distinct_map_filter length_map list.set_map request_table_wf_def)
  also have "\<dots> \<le> card (set ids)" by (intro card_mono) auto
  also have "\<dots> \<le> length ids" by (rule card_length)
  also have "\<dots> \<le> mx" using assms(4) by (simp add: ids_def limit_unless_zero_def)
  finally show ?thesis .
qed

text \<open>
  C18 (AnchorService, _findCandidates, MerkleCarFactory): a configured service with a depth limit takes batches
  that fit its tree when it takes them from the database; but a batch from the queue with more live requests
  than the tree has leaves is not cut to the limit: it is never anchored nor acknowledged, sends nothing and
  changes no row.
\<close>

theorem oversized_queue_batch:
  assumes "wire_anchor_service other i p c = Inr cfg" and "0 < merkleDepthLimit cfg" and "tree_bounded P" and "sql_engine (engine P)"
  shows "(\<forall>tbl tbl' batch. request_table_wf tbl \<longrightarrow> batchProcessing (engine P) (maxStreamLimit cfg) tbl = (tbl', batch)
      \<longrightarrow> length batch \<le> 2 ^ merkleDepthLimit cfg)
    \<and> (\<forall>q m batch ans w r w'. received q = Inr (Some m) \<longrightarrow> findByIds (engine P) (rids m) (requests (w_db w)) = Inr batch
      \<longrightarrow> 2 ^ merkleDepthLimit cfg < length (filter (\<lambda>r. status r \<noteq> REPLACED) batch)
      \<longrightarrow> anchorNextQueuedBatch P cfg ans q w = Some (r, w') \<longrightarrow> (\<exists>e. r = Inl e) \<and> anchored_part w' = anchored_part w)"
proof (rule conjI; intro allI impI)
  fix tbl tbl' batch
  assume wf: "request_table_wf tbl" and run: "batchProcessing (engine P) (maxStreamLimit cfg) tbl = (tbl', batch)"
  have limit: "maxStreamLimit cfg = 2 ^ merkleDepthLimit cfg" using wired_limit [OF assms(1)] assms(2) by simp
  show "length batch \<le> 2 ^ merkleDepthLimit cfg"
    using batch_length [OF assms(4) wf run] limit by simp
next
  fix q m batch ans w r w'
  assume m: "received q = Inr (Some m)" and found: "findByIds (engine P) (rids m) (requests (w_db w)) = Inr batch"
    and big: "2 ^ merkleDepthLimit cfg < length (filter (\<lambda>r. status r \<noteq> REPLACED) batch)"
    and run: "anchorNextQueuedBatch P cfg ans q w = Some (r, w')"
  have inner: "useQueueBatches cfg \<Longrightarrow> anchor_batch P cfg ans batch (bid m) w = Some (x, u)
      \<Longrightarrow> (\<exists>e. x = Inl e) \<and> anchored_part u = anchored_part w" for x u
    using oversized_batch [OF assms(3,2) _ big] by blast
  show "(\<exists>e. r = Inl e) \<and> anchored_part w' = anchored_part w"
  proof (cases "aborted_before q \<or> \<not> useQueueBatches cfg \<or> aborted_after q")
    case True
    then show ?thesis using run m found
      by (auto simp: anchorNextQueuedBatch_def bindP_def catchP_def callP_def anchored_part_def
          split: if_splits option.splits)
  next
    case False
    obtain x u where x: "anchor_batch P cfg ans batch (bid m) w = Some (x, u)"
      using run m found False
      by (auto simp: anchorNextQueuedBatch_def bindP_def catchP_def split: option.splits)
    then obtain e where "x = Inl e" "anchored_part u = anchored_part w" using inner False by blast
    then show ?thesis using run m found False x
      by (auto simp: anchorNextQueuedBatch_def bindP_def catchP_def callP_def anchored_part_def split: option.splits)
  qed
qed

definition example_settings :: config where
  "example_settings = CObj [(''queue'', CObj [(''sqsQueueUrl'', CStr ''https://q/'')]), (''merkleDepthLimit'', CNum (Some 1))]"

definition example_wired :: service_config where
  "example_wired = \<lparr>merkleDepthLimit = 1, useSmartContractAnchors = False, useQueueBatches = True, maxStreamLimit = 2,
     minStreamLimit = 1, maxAnchoringDelayMS = 0, readyRetryIntervalMS = 0, casUseIpfsStorage = False, casPubsubPublish = False\<rparr>"

definition crowded_world :: "assoc_car world" where
  "crowded_world = example_world\<lparr>w_db := \<lparr>requests = map (\<lambda>i. example_request i PROCESSING) [''1'', ''2'', ''3''], anchors = []\<rparr>\<rparr>"

definition crowded_queue :: queue_answers where
  "crowded_queue = \<lparr>aborted_before = False, aborted_after = False,
     received = Inr (Some \<lparr>bid = ''b'', rids = [''1'', ''2'', ''3'']\<rparr>), ack_failure = None, nack_failure = None\<rparr>"

theorem oversized_queue_batch_witness:
  "\<exists>e w'. anchorNextQueuedBatch example_platform example_wired example_answers crowded_queue crowded_world = Some (Inl e, w')
     \<and> w_sent w' = [] \<and> w_acked w' = []"
proof -
  have wired: "wire_anchor_service (\<lambda>_. None) False False example_settings = Inr example_wired"
    by (simp add: wire_anchor_service_def js_config_def example_settings_def setting_def js_to_number_def example_wired_def make_request_repository_def)
  have bounded: "tree_bounded example_platform" by (simp add: tree_bounded_def example_platform_def comb_factory_def)
  have engine: "sql_engine (engine example_platform)" by (simp add: example_platform_def sql_engine_stable)
  let ?run = "anchorNextQueuedBatch example_platform example_wired example_answers crowded_queue crowded_world"
  let ?batch = "map (\<lambda>i. example_request i PROCESSING) [''1'', ''2'', ''3'']"
  have ids: "findByIds (engine example_platform) [''1'', ''2'', ''3''] (requests (w_db crowded_world)) = Inr ?batch"
    and big: "2 ^ merkleDepthLimit example_wired < length (filter (\<lambda>r. status r \<noteq> REPLACED) ?batch)" by code_simp+
  have msg: "received crowded_queue = Inr (Some \<lparr>bid = ''b'', rids = [''1'', ''2'', ''3'']\<rparr>)" by (simp add: crowded_queue_def)
  have "?run \<noteq> None" by code_simp
  then obtain r w' where run: "?run = Some (r, w')" by auto
  have "(\<exists>e. r = Inl e) \<and> anchored_part w' = anchored_part crowded_world"
    using oversized_queue_batch [OF wired _ bounded engine] msg ids big run
    by (simp add: example_wired_def del: One_nat_def)
  then show ?thesis using run by (auto simp: anchored_part_def crowded_world_def example_world_def)
qed

end
