(* ===== verification/Ipfs_Reads.thy ===== *)
theory Ipfs_Reads
  imports Wiring
begin

text \<open>
  Many readers of one \<open>IpfsService\<close> (\<open>retrieveRecord\<close> of \<open>src/src/services/ipfs-service.ts\<close>): they share the
  cache, and a semaphore that lets a bounded number of them ask IPFS at a time. One reader alone is
  \<open>Ipfs_Service.retrieveRecord\<close>; here their steps interleave.
\<close>

section \<open>Readers\<close>

definition DEFAULT_CONCURRENT_GET_LIMIT :: int where
  "DEFAULT_CONCURRENT_GET_LIMIT = 100"

definition concurrentGetLimit :: "(string \<Rightarrow> int option) \<Rightarrow> config \<Rightarrow> cas_error + int option" where
  "concurrentGetLimit other c =
     bindE (js_config [''ipfsConfig'', ''concurrentGetLimit''] c) (\<lambda>v.
       Inr (if holds v then js_to_number other v else Some DEFAULT_CONCURRENT_GET_LIMIT))"

text \<open>
  Where a reader is: at the head of its loop with the retries left, waiting for the semaphore, waiting for
  IPFS (with the retries it had when it asked), or done.
\<close>

datatype read_phase = Trying nat | Queued nat | Getting nat | Finished "cas_error + ipld"

fun getting :: "read_phase \<Rightarrow> bool" where
  "getting (Getting n) = True"
| "getting p = False"

text \<open>
  The cache and the readers; and, for the statements, how often each reader asked IPFS and what IPFS
  answered.
\<close>

record reads =
  rd_cache :: "string \<rightharpoonup> ipld"
  rd_phase :: "nat \<Rightarrow> read_phase"
  rd_gets :: "nat \<Rightarrow> nat"
  rd_answered :: "(string \<times> ipld) list"

definition in_flight :: "nat \<Rightarrow> reads \<Rightarrow> nat" where
  "in_flight N s = card {i. i < N \<and> getting (rd_phase s i)}"

definition goto :: "nat \<Rightarrow> read_phase \<Rightarrow> reads \<Rightarrow> reads" where
  "goto i p s = s\<lparr>rd_phase := (rd_phase s)(i := p)\<rparr>"

definition start_reads :: "(string \<rightharpoonup> ipld) \<Rightarrow> reads" where
  "start_reads cache = \<lparr>rd_cache = cache, rd_phase = (\<lambda>i. Trying IPFS_GET_RETRIES), rd_gets = (\<lambda>i. 0),
     rd_answered = []\<rparr>"

text \<open>
  \<open>N\<close> readers of the records \<open>key 0\<close>, \<open>key 1\<close>, ... The cache is looked at before the semaphore is asked for. The
  semaphore is a package: of it the model has that at most \<open>limit\<close> of its users run at a time, in no
  particular order, and that it is released when the answer of IPFS, or its error, has come.
\<close>

inductive read_step :: "nat \<Rightarrow> nat \<Rightarrow> (nat \<Rightarrow> string) \<Rightarrow> reads \<Rightarrow> reads \<Rightarrow> bool" for limit N key where
  cached: "i < N \<Longrightarrow> rd_phase s i = Trying (Suc n) \<Longrightarrow> truthy (rd_cache s (key i)) \<Longrightarrow>
    read_step limit N key s (goto i (Finished (Inr (the (rd_cache s (key i))))) s)"
| ask: "i < N \<Longrightarrow> rd_phase s i = Trying (Suc n) \<Longrightarrow> \<not> truthy (rd_cache s (key i)) \<Longrightarrow>
    read_step limit N key s (goto i (Queued (Suc n)) s)"
| admit: "i < N \<Longrightarrow> rd_phase s i = Queued (Suc n) \<Longrightarrow> in_flight N s < limit \<Longrightarrow>
    read_step limit N key s (goto i (Getting (Suc n)) (s\<lparr>rd_gets := (rd_gets s)(i := Suc (rd_gets s i))\<rparr>))"
| got: "i < N \<Longrightarrow> rd_phase s i = Getting (Suc n) \<Longrightarrow>
    read_step limit N key s (goto i (Finished (Inr v))
      (s\<lparr>rd_cache := lru_set dropped (key i) v (rd_cache s), rd_answered := (key i, v) # rd_answered s\<rparr>))"
| failed: "i < N \<Longrightarrow> rd_phase s i = Getting (Suc n) \<Longrightarrow> read_step limit N key s (goto i (Trying n) s)"
| given_up_by_caller: "i < N \<Longrightarrow> rd_phase s i = Getting (Suc n) \<Longrightarrow>
    read_step limit N key s (goto i (Finished (Inl err)) s)"
| out_of_retries: "i < N \<Longrightarrow> rd_phase s i = Trying 0 \<Longrightarrow>
    read_step limit N key s (goto i (Finished (Inl (LibraryError ''Failed to retrieve IPFS record''))) s)"

lemma goto_simps [simp]:
  "rd_cache (goto i p s) = rd_cache s" "rd_phase (goto i p s) = (rd_phase s)(i := p)"
  "rd_gets (goto i p s) = rd_gets s" "rd_answered (goto i p s) = rd_answered s"
  by (simp_all add: goto_def)

section \<open>Every read ends\<close>

text \<open>How many steps a reader may still take.\<close>

fun effort :: "read_phase \<Rightarrow> nat" where
  "effort (Trying n) = 3 * n + 1"
| "effort (Queued n) = 3 * n"
| "effort (Getting n) = 3 * n - 1"
| "effort (Finished r) = 0"

definition efforts :: "nat \<Rightarrow> reads \<Rightarrow> nat" where
  "efforts N s = (\<Sum>i<N. effort (rd_phase s i))"

lemma effort_goto:
  assumes "i < N" and "effort p < effort (rd_phase s i)" and "rd_phase t = (rd_phase s)(i := p)"
  shows "efforts N t < efforts N s"
proof -
  have "(\<Sum>j<N. effort (rd_phase t j)) < (\<Sum>j<N. effort (rd_phase s j))"
    by (rule sum_strict_mono_ex1) (use assms in auto)
  then show ?thesis by (simp add: efforts_def)
qed

lemma read_step_effort: "read_step limit N key s t \<Longrightarrow> efforts N t < efforts N s"
  by (erule read_step.cases; simp; rule effort_goto, assumption, simp_all)

lemma run_effort: "(read_step limit N key ^^ m) s t \<Longrightarrow> m + efforts N t \<le> efforts N s"
proof (induction m arbitrary: t)
  case (Suc m)
  then obtain u where "(read_step limit N key ^^ m) s u" "read_step limit N key u t" by auto
  then show ?case using Suc.IH [of u] read_step_effort [of limit N key u t] by simp
qed simp

section \<open>The semaphore\<close>

text \<open>The retries a reader has left, and whether it could have got where it is.\<close>

fun retries_left :: "read_phase \<Rightarrow> nat" where
  "retries_left (Trying n) = n"
| "retries_left (Queued n) = n"
| "retries_left (Getting n) = n - 1"
| "retries_left (Finished r) = 0"

definition known_value :: "(string \<rightharpoonup> ipld) \<Rightarrow> reads \<Rightarrow> string \<Rightarrow> ipld \<Rightarrow> bool" where
  "known_value cache s k v \<longleftrightarrow> cache k = Some v \<or> (k, v) \<in> set (rd_answered s)"

definition reads_inv :: "nat \<Rightarrow> nat \<Rightarrow> (nat \<Rightarrow> string) \<Rightarrow> (string \<rightharpoonup> ipld) \<Rightarrow> reads \<Rightarrow> bool" where
  "reads_inv limit N key cache s \<longleftrightarrow> in_flight N s \<le> limit
     \<and> (\<forall>i<N. rd_gets s i + retries_left (rd_phase s i) \<le> IPFS_GET_RETRIES
          \<and> rd_phase s i \<noteq> Queued 0 \<and> rd_phase s i \<noteq> Getting 0)
     \<and> (\<forall>k v. rd_cache s k = Some v \<longrightarrow> known_value cache s k v)
     \<and> (\<forall>i<N. \<forall>v. rd_phase s i = Finished (Inr v) \<longrightarrow> known_value cache s (key i) v)"

lemma in_flight_goto:
  assumes "i < N"
  shows "in_flight N (goto i p s) = (if getting p then (if getting (rd_phase s i) then in_flight N s else Suc (in_flight N s))
    else in_flight N s - (if getting (rd_phase s i) then 1 else 0))"
proof -
  let ?A = "{j. j < N \<and> getting (rd_phase s j)}"
  have fin: "finite ?A" by simp
  have sets: "{j. j < N \<and> getting (rd_phase (goto i p s) j)} = (if getting p then insert i ?A else ?A - {i})"
    using assms by (auto split: if_splits)
  show ?thesis unfolding in_flight_def sets using fin assms by (auto simp: card_insert_if card_Diff_singleton_if)
qed

lemma in_flight_ghosts:
  "in_flight N (s\<lparr>rd_gets := g\<rparr>) = in_flight N s" "in_flight N (s\<lparr>rd_cache := c, rd_answered := xs\<rparr>) = in_flight N s"
  by (simp_all add: in_flight_def)

lemmas read_simps = reads_inv_def known_value_def in_flight_goto in_flight_ghosts lru_set_def

lemma start_reads_inv: "reads_inv limit N key cache (start_reads cache)"
  by (auto simp: reads_inv_def start_reads_def in_flight_def known_value_def)

lemma reads_inv_step:
  assumes "read_step limit N key s t" and "reads_inv limit N key cache s"
  shows "reads_inv limit N key cache t"
  using assms
proof (induction rule: read_step.induct)
  case (cached i s n)
  then show ?case by (cases "rd_cache s (key i)") (auto simp: read_simps)
qed (auto simp: read_simps split: if_splits)

lemma reads_inv_run: "(read_step limit N key ^^ m) s t \<Longrightarrow> reads_inv limit N key cache s \<Longrightarrow> reads_inv limit N key cache t"
  by (induction m arbitrary: t) (auto intro: reads_inv_step)

text \<open>
  A reader that the others leave alone while it finds a place in the semaphore does what
  \<open>Ipfs_Service.retrieveRecord\<close> does on the answers it gets: the same result, cache and number of requests.
\<close>

lemma alone_reads:
  assumes "retrieve_from (key i) n answers (rd_cache s) = Some (r, cache', k)"
    and "i < N" and "rd_phase s i = Trying n" and "in_flight N s < limit"
  shows "\<exists>t. (read_step limit N key)\<^sup>*\<^sup>* s t \<and> rd_phase t i = Finished r \<and> rd_cache t = cache' \<and> rd_gets t i = rd_gets s i + k"
  using assms
proof (induction "key i" n answers "rd_cache s" arbitrary: s k rule: retrieve_from.induct)
  case (1 answers)
  then show ?case
    by (intro exI [of _ "goto i (Finished r) s"]) (auto intro!: r_into_rtranclp read_step.out_of_retries)
next
  case (2 n answers)
  show ?case
  proof (cases "truthy (rd_cache s (key i))")
    case True
    then show ?thesis
      using 2(2-) by (intro exI [of _ "goto i (Finished r) s"]) (auto intro!: r_into_rtranclp read_step.cached)
  next
    case False
    then obtain a rest where answers: "answers = a # rest" using 2(2) by (cases answers) auto
    define u where "u = goto i (Getting (Suc n))
      ((goto i (Queued (Suc n)) s)\<lparr>rd_gets := (rd_gets s)(i := Suc (rd_gets s i))\<rparr>)"
    have "read_step limit N key s (goto i (Queued (Suc n)) s)" using 2(3,4) False by (rule read_step.ask)
    moreover have "read_step limit N key (goto i (Queued (Suc n)) s) u"
      using read_step.admit [of i N "goto i (Queued (Suc n)) s" n limit key] 2(3-5) by (simp add: u_def in_flight_goto)
    ultimately have admitted: "(read_step limit N key)\<^sup>*\<^sup>* s u" by (meson converse_rtranclp_into_rtranclp r_into_rtranclp)
    have u: "rd_phase u i = Getting (Suc n)" "rd_cache u = rd_cache s" "rd_gets u i = Suc (rd_gets s i)"
      by (simp_all add: u_def)
    show ?thesis
    proof (cases "ga_value a")
      case (Inr v)
      have "read_step limit N key u (goto i (Finished (Inr v))
          (u\<lparr>rd_cache := lru_set (ga_evicted a) (key i) v (rd_cache u), rd_answered := (key i, v) # rd_answered u\<rparr>))"
        using 2(3) u(1) by (rule read_step.got)
      note run = rtranclp.rtrancl_into_rtrancl [OF admitted this]
      show ?thesis by (intro exI conjI, rule run) (use 2(2) False answers Inr u in auto)
    next
      case (Inl err)
      show ?thesis
      proof (cases "ga_aborted a")
        case True
        have "read_step limit N key u (goto i (Finished (Inl err)) u)" using 2(3) u(1) by (rule read_step.given_up_by_caller)
        note run = rtranclp.rtrancl_into_rtrancl [OF admitted this]
        show ?thesis by (intro exI conjI, rule run) (use 2(2) False answers Inl True u in auto)
      next
        case go_on: False
        define w where "w = goto i (Trying n) u"
        have step: "read_step limit N key u w" unfolding w_def using 2(3) u(1) by (rule read_step.failed)
        obtain k' where k': "retrieve_from (key i) n rest (rd_cache w) = Some (r, cache', k')" "k = Suc k'"
          using 2(2) False answers Inl go_on by (auto simp: w_def u)
        have "in_flight N w = in_flight N s" using 2(3,4) by (simp add: w_def u_def in_flight_goto in_flight_ghosts)
        then obtain t where "(read_step limit N key)\<^sup>*\<^sup>* w t" "rd_phase t i = Finished r" "rd_cache t = cache'"
            "rd_gets t i = rd_gets w i + k'"
          using 2(1) [OF False answers Inl go_on _ k'(1)] 2(3,5) by (auto simp: w_def u)
        with admitted step show ?thesis
          by (intro exI [of _ t]) (auto simp: w_def u k'(2) intro: rtranclp_trans converse_rtranclp_into_rtranclp)
      qed
    qed
  qed
qed

text \<open>A reader that is not done can step, or waits for one that can.\<close>

lemma unfinished_read_steps:
  assumes inv: "reads_inv limit N key cache s" and limit: "0 < limit" and i: "i < N"
    and unfinished: "\<nexists>r. rd_phase s i = Finished r"
  shows "\<exists>t. read_step limit N key s t"
proof -
  have getting_steps: "\<exists>t. read_step limit N key s t" if j: "j < N" "getting (rd_phase s j)" for j
  proof -
    from j inv have "rd_phase s j \<noteq> Getting 0" by (simp add: reads_inv_def)
    with j obtain n where "rd_phase s j = Getting (Suc n)" by (metis getting.elims(2) not0_implies_Suc)
    then show ?thesis using j(1) read_step.failed by blast
  qed
  show ?thesis
  proof (cases "rd_phase s i")
    case (Trying n)
    then show ?thesis using i
      by (cases n; cases "truthy (rd_cache s (key i))") (blast intro: read_step.cached read_step.ask read_step.out_of_retries)+
  next
    case (Queued n)
    then obtain k where k: "rd_phase s i = Queued (Suc k)" using inv i by (cases n) (auto simp: reads_inv_def)
    show ?thesis
    proof (cases "in_flight N s < limit")
      case True
      then show ?thesis using i k read_step.admit by blast
    next
      case False
      then have "{j. j < N \<and> getting (rd_phase s j)} \<noteq> {}" using limit unfolding in_flight_def by (metis card.empty)
      then show ?thesis using getting_steps by blast
    qed
  next
    case (Getting n)
    then show ?thesis using getting_steps [OF i] by simp
  next
    case (Finished r)
    then show ?thesis using unfinished by blast
  qed
qed

lemma start_efforts: "efforts N (start_reads cache) = 7 * N"
  by (simp add: efforts_def start_reads_def IPFS_GET_RETRIES_def)

text \<open>
  C36 (IpfsService.retrieveRecord): \<open>N\<close> concurrent reads of one \<open>IpfsService\<close>, whatever their order and whatever IPFS answers.
  At no time do more of them wait for IPFS than the semaphore admits; none asks IPFS more than
  \<open>IPFS_GET_RETRIES\<close> times; the reads take at most seven steps each, so that, the semaphore admitting at
  least one, they come to an end, and they only end when each of them has returned or thrown: none is left in
  the queue of the semaphore. And what a read returns, IPFS has answered for that very record, or the
  cache held it before.
\<close>

theorem reads_end:
  assumes "0 < limit" and "(read_step limit N key ^^ m) (start_reads cache) s"
  shows "in_flight N s \<le> limit
    \<and> (\<forall>i<N. rd_gets s i \<le> IPFS_GET_RETRIES)
    \<and> m \<le> 7 * N
    \<and> ((\<nexists>t. read_step limit N key s t) \<longrightarrow> (\<forall>i<N. \<exists>r. rd_phase s i = Finished r))
    \<and> (\<forall>i<N. \<forall>v. rd_phase s i = Finished (Inr v) \<longrightarrow> cache (key i) = Some v \<or> (key i, v) \<in> set (rd_answered s))"
proof -
  have inv: "reads_inv limit N key cache s" using reads_inv_run [OF assms(2) start_reads_inv] .
  have "m \<le> 7 * N" using run_effort [OF assms(2)] by (simp add: start_efforts)
  moreover have "(\<nexists>t. read_step limit N key s t) \<longrightarrow> (\<forall>i<N. \<exists>r. rd_phase s i = Finished r)"
    using unfinished_read_steps [OF inv assms(1)] by blast
  moreover have "\<forall>i<N. rd_gets s i \<le> IPFS_GET_RETRIES" using inv by (auto simp: reads_inv_def dest: add_leD1)
  ultimately show ?thesis using inv by (auto simp: reads_inv_def known_value_def)
qed

text \<open>Two readers of one record and a semaphore of one place: both ask, the first is admitted, the second waits.\<close>

definition example_readers :: "nat \<Rightarrow> reads" where
  "example_readers n =
     (let asked0 = goto 0 (Queued 2) (start_reads Map.empty); asked1 = goto 1 (Queued 2) asked0
      in if n = 0 then start_reads Map.empty else if n = 1 then asked0 else if n = 2 then asked1
         else goto 0 (Getting 2) (asked1\<lparr>rd_gets := (\<lambda>i. 0)(0 := 1)\<rparr>))"

lemma in_flight_example: "in_flight 2 (example_readers 2) = 0" "in_flight 2 (example_readers 3) = 1"
proof -
  have "{i. i < 2 \<and> getting (rd_phase (example_readers 3) i)} = {0}"
    by (auto simp: example_readers_def start_reads_def less_2_cases_iff)
  then show "in_flight 2 (example_readers 3) = 1" by (simp add: in_flight_def)
qed (simp add: in_flight_def example_readers_def start_reads_def)

lemma example_readers_run: "(read_step 1 2 (\<lambda>i. ''bafyrecord'') ^^ 3) (start_reads Map.empty) (example_readers 3)"
proof -
  let ?step = "read_step 1 2 (\<lambda>i. ''bafyrecord'')"
  have "?step (start_reads Map.empty) (example_readers 1)"
    using read_step.ask [of 0 2 "start_reads Map.empty" 1 "\<lambda>i. ''bafyrecord''" 1]
    by (simp add: example_readers_def start_reads_def IPFS_GET_RETRIES_def numeral_2_eq_2)
  moreover have "?step (example_readers 1) (example_readers 2)"
    using read_step.ask [of 1 2 "example_readers 1" 1 "\<lambda>i. ''bafyrecord''" 1]
    by (simp add: example_readers_def start_reads_def IPFS_GET_RETRIES_def numeral_2_eq_2)
  moreover have "?step (example_readers 2) (example_readers 3)"
    using read_step.admit [of 0 2 "example_readers 2" 1 1 "\<lambda>i. ''bafyrecord''"] in_flight_example(1)
    by (simp add: example_readers_def start_reads_def IPFS_GET_RETRIES_def numeral_2_eq_2)
  ultimately show ?thesis by (auto simp: numeral_3_eq_3)
qed

lemma reads_end_witness:
  "in_flight 2 (example_readers 3) = 1 \<and> rd_gets (example_readers 3) 0 \<le> IPFS_GET_RETRIES"
  using reads_end [OF _ example_readers_run] in_flight_example(2) by simp

end
