(* ===== verification/Clients.thy ===== *)
theory Clients
  imports Wiring
begin

text \<open>
  The clients the services are constructed with, as far as the repository decides on them: the IPFS client with
  its agent (\<open>src/src/services/ipfs-service.ts\<close>), the clients of SQS and DynamoDB
  (\<open>services/queue/sqs-queue-service.ts\<close>, \<open>services/witness-service.ts\<close>) and the wallet
  (\<open>services/blockchain/ethereum/ethereum-blockchain-service.ts\<close>). What the packages make of these settings is theirs.
\<close>

section \<open>IPFS\<close>

datatype agent_kind = HttpAgent | HttpsAgent

record http_agent =
  ag_kind :: agent_kind
  ag_keepAlive :: bool
  ag_maxSockets :: "nat option"      \<comment> \<open>none is \<open>Infinity\<close>\<close>

definition agent_of_kind :: "agent_kind \<Rightarrow> http_agent" where
  "agent_of_kind k = \<lparr>ag_kind = k, ag_keepAlive = False, ag_maxSockets = None\<rparr>"

text \<open>\<open>endpoint?.startsWith('https')\<close>: an endpoint that is set has to be a string.\<close>

definition buildHttpAgent :: "config option \<Rightarrow> cas_error + http_agent" where
  "buildHttpAgent endpoint =
     (case endpoint of
        None \<Rightarrow> Inr (agent_of_kind HttpAgent)
      | Some CNull \<Rightarrow> Inr (agent_of_kind HttpAgent)
      | Some (CStr e) \<Rightarrow> Inr (agent_of_kind (if prefix ''https'' e then HttpsAgent else HttpAgent))
      | Some v \<Rightarrow> Inl TypeError)"

record ipfs_client =
  ic_url :: "config option"
  ic_timeout :: "config option"
  ic_agent :: http_agent

definition buildIpfsClient :: "config \<Rightarrow> cas_error + ipfs_client" where
  "buildIpfsClient c =
     bindE (js_config [''ipfsConfig'', ''url''] c) (\<lambda>url.
     bindE (js_config [''ipfsConfig'', ''timeout''] c) (\<lambda>t.
     bindE (buildHttpAgent url) (\<lambda>agent.
       Inr \<lparr>ic_url = url, ic_timeout = t, ic_agent = agent\<rparr>)))"

text \<open>
  The agent fits the scheme of the endpoint; the comparison is exact, so a scheme in capitals, which a URL may
  have, gets the agent of plain HTTP.
\<close>

lemma ipfs_agent:
  assumes "buildIpfsClient c = Inr cl" and "ic_url cl = Some (CStr e)"
  shows "ag_kind (ic_agent cl) = HttpsAgent \<longleftrightarrow> prefix ''https'' e"
  using assms by (auto simp: buildIpfsClient_def buildHttpAgent_def agent_of_kind_def bindE_def split: sum.splits if_splits)

lemma capital_scheme: "buildHttpAgent (Some (CStr ''HTTPS://ipfs.io'')) = Inr (agent_of_kind HttpAgent)"
  by (simp add: buildHttpAgent_def)

section \<open>AWS\<close>

record aws_client =
  ac_region :: "config option"
  ac_endpoint :: "config option"
  ac_keepAlive :: bool

text \<open>The client of a queue is bound to the URL of that queue; its logger passes on errors only.\<close>

definition sqs_client :: "string \<Rightarrow> config \<Rightarrow> cas_error + aws_client" where
  "sqs_client sqsQueueUrl c =
     bindE (js_config [''queue'', ''awsRegion''] c) (\<lambda>region.
       Inr \<lparr>ac_region = region, ac_endpoint = Some (CStr sqsQueueUrl), ac_keepAlive = True\<rparr>)"

datatype log_level = Info | Error | Debug | Warn

definition awsLogger :: "log_level \<Rightarrow> 'm \<Rightarrow> 'm list \<Rightarrow> 'm list" where
  "awsLogger level msg diagnostics = (if level = Error then diagnostics @ [msg] else diagnostics)"

text \<open>Whatever URL is configured, the clients of the four queues talk to four endpoints.\<close>

lemma queue_clients_apart:
  assumes "sqs_client (sv_url (validation_queue cfg)) c = Inr v" and "sqs_client (sv_url (batch_queue cfg)) c = Inr b"
    and "sqs_client (sv_url (failure_queue cfg)) c = Inr f" and "sqs_client (sv_url (Sqs_Queue.ipfs_queue cfg)) c = Inr i"
  shows "distinct [ac_endpoint v, ac_endpoint b, ac_endpoint f, ac_endpoint i]"
  using assms
  by (auto simp: sqs_client_def bindE_def validation_queue_def batch_queue_def failure_queue_def
      Sqs_Queue.ipfs_queue_def make_queue_def split: sum.splits)

definition witness_client :: "config \<Rightarrow> cas_error + aws_client" where
  "witness_client c =
     bindE (js_config [''witnessStorage'', ''awsRegion''] c) (\<lambda>region.
     bindE (js_config [''witnessStorage'', ''dynamoDbEndpoint''] c) (\<lambda>endpoint.
       Inr \<lparr>ac_region = region, ac_endpoint = endpoint, ac_keepAlive = True\<rparr>))"

section \<open>Ethereum\<close>

definition POLLING_INTERVAL :: nat where
  "POLLING_INTERVAL = 15 * 1000"

record wallet =
  wl_provider :: eth_provider
  wl_polling :: nat
  wl_key :: "config option"

definition make_wallet :: "config \<Rightarrow> cas_error + wallet" where
  "make_wallet c =
     bindE (make_provider c) (\<lambda>provider.
     bindE (js_config [''blockchain'', ''connectors'', ''ethereum'', ''account'', ''privateKey''] c) (\<lambda>key.
       Inr \<lparr>wl_provider = provider, wl_polling = POLLING_INTERVAL, wl_key = key\<rparr>))"

section \<open>Logs of events and metrics\<close>

text \<open>
  The loggers of \<open>src/src/logger/index.ts\<close> that the services share: for each member of \<open>logEvent\<close> and
  \<open>logMetric\<close> the service and the file it writes to; a file keeps its entries in the order they were logged.
\<close>

definition EVENTS_LOG_NAME :: string where "EVENTS_LOG_NAME = ''events''"
definition METRICS_LOG_NAME :: string where "METRICS_LOG_NAME = ''metrics''"

type_synonym log_file = "string \<times> string"

definition logEvent :: "(string \<times> log_file) list" where
  "logEvent = [(''anchor'', (''anchor'', EVENTS_LOG_NAME)), (''db'', (''db'', EVENTS_LOG_NAME)),
     (''ethereum'', (''ethereum'', EVENTS_LOG_NAME))]"

definition logMetric :: "(string \<times> log_file) list" where
  "logMetric = [(''anchor'', (''anchor'', METRICS_LOG_NAME)), (''ethereum'', (''ethereum'', METRICS_LOG_NAME))]"

definition log_to :: "(string \<times> log_file) list \<Rightarrow> string \<Rightarrow> 'e \<Rightarrow> (log_file \<Rightarrow> 'e list) \<Rightarrow> cas_error + (log_file \<Rightarrow> 'e list)" where
  "log_to loggers member entry files =
     (case map_of loggers member of
        None \<Rightarrow> Inl TypeError
      | Some f \<Rightarrow> Inr (files(f := files f @ [entry])))"

text \<open>Every member has a file of its own, and logging to it leaves the other files alone.\<close>

lemma log_files_distinct: "distinct (map snd (logEvent @ logMetric))"
  by code_simp

lemma logged_apart:
  assumes "log_to loggers member entry files = Inr files'"
  shows "\<exists>f. map_of loggers member = Some f \<and> files' f = files f @ [entry] \<and> (\<forall>g. g \<noteq> f \<longrightarrow> files' g = files g)"
  using assms by (auto simp: log_to_def split: option.splits)

end
