(* ===== verification/Observability.thy ===== *)
theory Observability
  imports Server Request_Batching Wiring
begin

text \<open>
  What the service tells of itself: the names of its metrics (\<open>src/src/settings.ts\<close>), the statistics of a
  marked batch (\<open>src/src/repositories/request-repository.ts\<close>), and the logs of the server
  (\<open>src/src/logger/index.ts\<close>), which of the requests it answers leave a trace where.
\<close>

section \<open>Metrics\<close>

definition METRIC_NAMES :: "(string \<times> string) list" where
  "METRIC_NAMES =
     [(''ACCEPTED_REQUESTS'', ''accepted_requests''), (''ANCHOR_SUCCESS'', ''anchor_success''),
      (''ALREADY_ANCHORED_REQUESTS'', ''already_anchored_requests''),
      (''CONFLICTING_REQUESTS'', ''conflicting_requests''), (''ERROR_IPFS'', ''error_ipfs''),
      (''ERROR_MULTIQUERY'', ''error_multiquery''), (''ERROR_WHEN_ANCHORING'', ''error_when_anchoring''),
      (''FAILED_REQUESTS'', ''failed_requests''), (''FAILED_STREAM'', ''failed_load_stream''),
      (''FAILED_TIP'', ''failed_load_tip''), (''REANCHORED'', ''reanchored''),
      (''RETRY_EMIT_ANCHOR_EVENT'', ''retry_emit_anchor_event''), (''REVERT_TO_PENDING'', ''revert_to_pending''),
      (''UNPROCESSED_REQUESTS'', ''unprocessed_requests''),
      (''NO_MERKLE_CAR_FOR_ANCHOR'', ''no_merkle_car_for_anchor''),
      (''NO_ANCHOR_FOR_REQUEST'', ''no_anchor_for_request''),
      (''MERKLE_CAR_STORAGE_FAILURE_IPFS'', ''merkle_car_storage_failure_ipfs''),
      (''MERKLE_CAR_STORAGE_FAILURE_S3'', ''merkle_car_storage_failure_s3''),
      (''WITNESS_CAR_STORAGE_FAILURE'', ''witness_car_storage_failure''),
      (''ANCHOR_TAKING_TOO_LONG'', ''anchor_taking_too_long''),
      (''MANY_ATTEMPTS_TO_ACQUIRE_MUTEX'', ''many_attempts_to_acquire_mutex''),
      (''DB_SERIALIZATION_ERROR'', ''db_serialization_error''), (''REQUEST_CREATED'', ''request_created''),
      (''REQUEST_EXPIRED'', ''request_expired''), (''RETRY_PROCESSING'', ''retry_processing''),
      (''RETRY_FAILED'', ''retry_failed''), (''READY_PROCESSING_MS'', ''ready_processing_ms''),
      (''CREATED_SUCCESS_MS'', ''created_success_ms''),
      (''ANCHOR_REQUESTS_BATCH_TIME'', ''anchor_requests_batch_time''),
      (''ANCHOR_REQUESTS_BATCH_FAILURE_TIME'', ''anchor_requests_batch_failure_time''),
      (''WRITE_TOTAL_TSDB'', ''write_total_tsdb''),
      (''REPLICA_DB_REQUEST_NOT_FOUND'', ''replica_db_request_not_found''),
      (''MERKLE_CAR_CACHE_HIT'', ''merkle_car_cache_hit''), (''MERKLE_CAR_CACHE_MISS'', ''merkle_car_cache_miss''),
      (''WITNESS_CAR_CACHE_HIT'', ''witness_car_cache_hit''),
      (''WITNESS_CAR_CACHE_MISS'', ''witness_car_cache_miss''), (''PUBLISH_TO_QUEUE'', ''publish_to_queue''),
      (''UPDATED_STORED_REQUEST'', ''updated_stored_request''), (''PIN_SUCCEEDED'', ''pin_succeeded''),
      (''PIN_FAILED'', ''pin_failed''), (''IPFS_GET_SUCCEEDED'', ''ipfs_get_succeeded''),
      (''IPFS_GET_FAILED'', ''ipfs_get_failed''), (''CTRL_NEW_ANCHOR_REQUEST'', ''ctrl_new_anchor_request''),
      (''CTRL_FOUND_EXISTING_REQUEST'', ''ctrl_found_existing_request''),
      (''CTRL_CAR_REQUESTED'', ''ctrl_car_requested''), (''CTRL_JSON_REQUESTED'', ''ctrl_json_requested''),
      (''CTRL_INVALID_REQUEST'', ''ctrl_invalid_request''),
      (''CTRL_ERROR_CREATING_REQUEST'', ''ctrl_error_creating_request''),
      (''CTRL_REQUEST_NOT_FOUND'', ''ctrl_request_not_found''), (''CTRL_REQUEST_FOUND'', ''ctrl_request_found''),
      (''AUTH_ALLOWED'', ''auth_allowed''), (''AUTH_DISALLOWED'', ''auth_disallowed'')]"

definition metric :: "string \<Rightarrow> string" where
  "metric n = (case map_of METRIC_NAMES n of Some s \<Rightarrow> s | None \<Rightarrow> ''undefined'')"

text \<open>No two metrics share a time series.\<close>

lemma metric_names_distinct: "distinct (map fst METRIC_NAMES) \<and> distinct (map snd METRIC_NAMES)"
  by code_simp

text \<open>
  A \<open>TimeableMetric\<close>: the requests it recorded and the date it measures from. Its statistics are those of a
  package.
\<close>

datatype since_field = CREATED_AT | UPDATED_AT

record timeable =
  tm_since :: since_field
  tm_requests :: "request list"

definition record_request :: "request \<Rightarrow> timeable \<Rightarrow> timeable" where
  "record_request r m = m\<lparr>tm_requests := tm_requests m @ [r]\<rparr>"

record request_metrics =
  rm_created :: timeable
  rm_expired :: timeable
  rm_processing :: timeable
  rm_failed :: timeable

definition record_in_groups :: "date \<Rightarrow> request \<Rightarrow> request_metrics \<Rightarrow> request_metrics" where
  "record_in_groups anchoringDeadline req m =
     (let m1 = (if createdAt req < anchoringDeadline then m\<lparr>rm_expired := record_request req (rm_expired m)\<rparr> else m)
      in if status req = PROCESSING then m1\<lparr>rm_processing := record_request req (rm_processing m1)\<rparr>
         else if status req = FAILED then m1\<lparr>rm_failed := record_request req (rm_failed m1)\<rparr>
         else if status req = PENDING then m1\<lparr>rm_created := record_request req (rm_created m1)\<rparr>
         else m1)"

definition no_request_metrics :: request_metrics where
  "no_request_metrics =
     \<lparr>rm_created = \<lparr>tm_since = CREATED_AT, tm_requests = []\<rparr>, rm_expired = \<lparr>tm_since = CREATED_AT, tm_requests = []\<rparr>,
      rm_processing = \<lparr>tm_since = UPDATED_AT, tm_requests = []\<rparr>, rm_failed = \<lparr>tm_since = UPDATED_AT, tm_requests = []\<rparr>\<rparr>"

text \<open>What is published: the name and the group.\<close>

definition recordAnchorRequestMetrics :: "request list \<Rightarrow> date \<Rightarrow> (string \<times> timeable) list" where
  "recordAnchorRequestMetrics rs anchoringDeadline =
     (let m = fold (record_in_groups anchoringDeadline) rs no_request_metrics
      in [(metric ''REQUEST_EXPIRED'', rm_expired m), (metric ''REQUEST_CREATED'', rm_created m),
          (metric ''RETRY_PROCESSING'', rm_processing m), (metric ''RETRY_FAILED'', rm_failed m)])"

lemma recorded_groups:
  "recordAnchorRequestMetrics rs deadline =
     [(''request_expired'', \<lparr>tm_since = CREATED_AT, tm_requests = filter (\<lambda>r. createdAt r < deadline) rs\<rparr>),
      (''request_created'', \<lparr>tm_since = CREATED_AT, tm_requests = filter (\<lambda>r. status r = PENDING) rs\<rparr>),
      (''retry_processing'', \<lparr>tm_since = UPDATED_AT, tm_requests = filter (\<lambda>r. status r = PROCESSING) rs\<rparr>),
      (''retry_failed'', \<lparr>tm_since = UPDATED_AT, tm_requests = filter (\<lambda>r. status r = FAILED) rs\<rparr>)]"
proof -
  have groups: "fold (record_in_groups deadline) rs m = m\<lparr>
      rm_expired := (rm_expired m)\<lparr>tm_requests := tm_requests (rm_expired m) @ filter (\<lambda>r. createdAt r < deadline) rs\<rparr>,
      rm_created := (rm_created m)\<lparr>tm_requests := tm_requests (rm_created m) @ filter (\<lambda>r. status r = PENDING) rs\<rparr>,
      rm_processing := (rm_processing m)\<lparr>tm_requests := tm_requests (rm_processing m) @ filter (\<lambda>r. status r = PROCESSING) rs\<rparr>,
      rm_failed := (rm_failed m)\<lparr>tm_requests := tm_requests (rm_failed m) @ filter (\<lambda>r. status r = FAILED) rs\<rparr>\<rparr>" for rs m
    by (induction rs arbitrary: m) (auto simp: record_in_groups_def record_request_def Let_def)
  have "metric ''REQUEST_EXPIRED'' = ''request_expired''" "metric ''REQUEST_CREATED'' = ''request_created''"
    "metric ''RETRY_PROCESSING'' = ''retry_processing''" "metric ''RETRY_FAILED'' = ''retry_failed''" by code_simp+
  then show ?thesis by (simp add: recordAnchorRequestMetrics_def groups no_request_metrics_def)
qed

lemma findStreamsToAnchor_enough:
  assumes "sql_engine e" and "rows = findRequestsToAnchor now tbl" and "findStreamsToAnchor e mx mn deadline now tbl \<noteq> []"
    and "\<forall>r\<in>set rows. streamId r \<in> set (findStreamsToAnchor e mx mn deadline now tbl) \<longrightarrow> \<not> createdAt r < deadline"
  shows "mn \<le> card (set (findStreamsToAnchor e mx mn deadline now tbl))"
    and "set (findStreamsToAnchor e mx mn deadline now tbl) \<subseteq> streamId ` set rows"
proof -
  define gs where "gs = group_batch e mx now tbl"
  have gs: "findStreamsToAnchor e mx mn deadline now tbl = map fst gs" "gs \<noteq> []" "mn \<le> length gs \<or> snd (hd gs) < deadline"
    using assms(3) by (auto simp: findStreamsToAnchor_eq gs_def Let_def split: if_splits)
  have hd: "(fst (hd gs), snd (hd gs)) \<in> set gs" using gs(2) by simp
  have age: "snd (hd gs) = stream_age rows (fst (hd gs)) \<and> fst (hd gs) \<in> streamId ` set rows"
    using group_batch_facts(1) [OF assms(1), where mx = mx and now = now and tbl = tbl, folded gs_def, OF hd] assms(2) by simp
  then obtain r where "r \<in> set rows" "streamId r = fst (hd gs)" "createdAt r = snd (hd gs)"
    using stream_age_attained by metis
  moreover have "fst (hd gs) \<in> set (map fst gs)" using gs(2) by simp
  ultimately have "\<not> snd (hd gs) < deadline" using assms(4) unfolding gs(1) by metis
  moreover have "distinct (map fst gs)" using group_batch_facts(2) [OF assms(1)] by (simp add: gs_def)
  ultimately show "mn \<le> card (set (findStreamsToAnchor e mx mn deadline now tbl))"
    using gs distinct_card [of "map fst gs"] by simp
  show "set (findStreamsToAnchor e mx mn deadline now tbl) \<subseteq> streamId ` set rows"
    using group_batch_facts(1) [OF assms(1), where mx = mx and now = now and tbl = tbl, folded gs_def] assms(2)
    unfolding gs(1) by auto
qed

text \<open>
  recordAnchorRequestMetrics: of a batch that was marked, the groups of new and of retried requests are all
  of it, the retried ones were not updated for three hours, and nothing is ever recorded as retried after a
  failure. If nothing is recorded as expired, the batch has as many streams as it must have.
\<close>

theorem marked_batch_metrics:
  assumes "sql_engine e" and "\<forall>a\<in>set tries. request_table_wf (att_db a)"
    and "findAndMarkReady e d mx mn tries = Some (Inr (tbl', reqs))"
  shows "\<exists>a\<in>set tries. \<exists>expired created processing.
    recordAnchorRequestMetrics reqs (att_now a - d) =
      [(''request_expired'', \<lparr>tm_since = CREATED_AT, tm_requests = expired\<rparr>),
       (''request_created'', \<lparr>tm_since = CREATED_AT, tm_requests = created\<rparr>),
       (''retry_processing'', \<lparr>tm_since = UPDATED_AT, tm_requests = processing\<rparr>),
       (''retry_failed'', \<lparr>tm_since = UPDATED_AT, tm_requests = []\<rparr>)]
    \<and> set reqs = set created \<union> set processing \<and> set created \<inter> set processing = {}
    \<and> (\<forall>r\<in>set processing. updatedAt r < att_now a - PROCESSING_TIMEOUT)
    \<and> (reqs \<noteq> [] \<longrightarrow> expired = [] \<longrightarrow> (case mn of None \<Rightarrow> mx | Some m \<Rightarrow> m) \<le> card (streamId ` set reqs))"
proof -
  let ?mn = "case_option mx (\<lambda>m. m) mn"
  from assms(3) obtain a where a: "a \<in> set tries" "\<not> att_aborted a"
    and body: "mark_ready_txn e d mx ?mn a = Inr (tbl', reqs)"
    unfolding findAndMarkReady_def by (rule ready.retry_Some_cases)
  define chosen where "chosen = chosen_for_batch e d mx ?mn (att_now a) (att_db a)"
  define streams where "streams = findStreamsToAnchor e mx ?mn (att_now a - d) (att_now a) (att_db a)"
  have wf: "request_table_wf (att_db a)" using assms(2) a(1) by blast
  have "reqs = order_by e createdAt (filter chosen (att_db a))"
    using body mark_ready_body [OF assms(1) wf a(2)] by (simp add: chosen_def)
  then have reqs: "set reqs = {r \<in> set (att_db a). chosen r}" using query_rows(1) [OF assms(1) wf] by simp
  have chosen: "chosen r \<longleftrightarrow> needs_anchoring (att_now a) r \<and> streamId r \<in> set streams" for r
    by (simp add: chosen_def chosen_for_batch_def streams_def)
  have statuses: "status r = PENDING \<or> status r = PROCESSING \<and> updatedAt r < att_now a - PROCESSING_TIMEOUT" if "r \<in> set reqs" for r
    using that reqs chosen by (auto simp: needs_anchoring_def)
  have failed: "filter (\<lambda>r. status r = FAILED) reqs = []" using statuses by (fastforce simp: filter_empty_conv)
  have stale: "updatedAt r < att_now a - PROCESSING_TIMEOUT" if "r \<in> set reqs" "status r = PROCESSING" for r
    using statuses [OF that(1)] that(2) by simp
  have enough: "?mn \<le> card (streamId ` set reqs)"
    if "reqs \<noteq> []" "filter (\<lambda>r. createdAt r < att_now a - d) reqs = []"
  proof -
    have rows: "set reqs = {r \<in> set (findRequestsToAnchor (att_now a) (att_db a)). streamId r \<in> set streams}"
      using reqs chosen by (auto simp: findRequestsToAnchor_def)
    have "streams \<noteq> []" using that(1) rows by (cases reqs) auto
    moreover have "\<forall>r\<in>set (findRequestsToAnchor (att_now a) (att_db a)). streamId r \<in> set streams \<longrightarrow> \<not> createdAt r < att_now a - d"
      using that(2) rows by (auto simp: filter_empty_conv)
    ultimately have "?mn \<le> card (set streams)" and sub: "set streams \<subseteq> streamId ` set (findRequestsToAnchor (att_now a) (att_db a))"
      unfolding streams_def using findStreamsToAnchor_enough [OF assms(1) refl] by blast+
    moreover have "streamId ` set reqs = set streams" using rows sub by auto
    ultimately show ?thesis by simp
  qed
  show ?thesis
  proof (intro bexI [of _ a] exI conjI)
    show "recordAnchorRequestMetrics reqs (att_now a - d) =
      [(''request_expired'', \<lparr>tm_since = CREATED_AT, tm_requests = filter (\<lambda>r. createdAt r < att_now a - d) reqs\<rparr>),
       (''request_created'', \<lparr>tm_since = CREATED_AT, tm_requests = filter (\<lambda>r. status r = PENDING) reqs\<rparr>),
       (''retry_processing'', \<lparr>tm_since = UPDATED_AT, tm_requests = filter (\<lambda>r. status r = PROCESSING) reqs\<rparr>),
       (''retry_failed'', \<lparr>tm_since = UPDATED_AT, tm_requests = []\<rparr>)]"
      unfolding recorded_groups failed by (rule refl)
  qed (use a(1) statuses stale enough in auto)
qed

section \<open>Starting the exporter\<close>

text \<open>
  What \<open>CeramicAnchorApp\<close> hands to the metrics package, \<open>pkg\<close>, which may throw; and the name the process gets
  there. Whatever fails here, a missing group of settings included, is caught: the application starts without.
\<close>

record exporter =
  ex_collector :: "config option"
  ex_caller :: string
  ex_port :: "config option"
  ex_interval :: "config option"
  ex_timeout :: "config option"

definition exporter_of :: "config \<Rightarrow> cas_error + exporter" where
  "exporter_of c =
     bindE (js_config [''metrics'', ''collectorHost''] c) (\<lambda>host.
     bindE (js_config [''metrics'', ''prometheusPort''] c) (\<lambda>port.
     bindE (js_config [''metrics'', ''exportIntervalMillis''] c) (\<lambda>interval.
     bindE (js_config [''metrics'', ''exportTimeoutMillis''] c) (\<lambda>timeout.
       Inr \<lparr>ex_collector = host, ex_caller = ''cas_'' @ js_to_text (setting ''mode'' c), ex_port = port,
            ex_interval = interval, ex_timeout = timeout\<rparr>))))"

definition start_metrics :: "(exporter \<Rightarrow> cas_error option) \<Rightarrow> string \<Rightarrow> config \<Rightarrow> exporter option \<times> string option" where
  "start_metrics pkg pid c =
     (case exporter_of c of
        Inl e \<Rightarrow> (None, None)
      | Inr ex \<Rightarrow>
          (if pkg ex \<noteq> None then (None, None)
           else case js_config [''metrics'', ''instanceIdentifier''] c of
                  Inl e \<Rightarrow> (Some ex, None)
                | Inr i \<Rightarrow> (Some ex, if holds i then Some (js_to_text i @ ''_'' @ pid) else None)))"

text \<open>The processes of a cluster share a configuration and are still told apart.\<close>

lemma workers_named_apart:
  assumes "start_metrics pkg pid c = (ex, Some n)" and "start_metrics pkg pid' c = (ex', Some n')" and "pid \<noteq> pid'"
  shows "n \<noteq> n' \<and> ex = ex'"
  using assms by (auto simp: start_metrics_def split: sum.splits if_splits)

section \<open>The logs of the server\<close>

text \<open>
  The settings of the logger, read when the module is loaded: \<open>levels\<close> is the enumeration \<open>LogLevel\<close> of a
  package with its member \<open>important\<close>, \<open>default_path\<close> the directory of the package.
\<close>

record log_settings =
  ls_level :: "int option"
  ls_to_files :: "config option"
  ls_path :: string

definition js_ends_with :: "string \<Rightarrow> string \<Rightarrow> bool" where
  "js_ends_with s t = suffix t s"

definition read_log_settings :: "(config \<Rightarrow> int option) \<Rightarrow> int \<Rightarrow> string \<Rightarrow> config \<Rightarrow> cas_error + log_settings" where
  "read_log_settings levels important default_path c =
     (case setting ''logger'' c of
        None \<Rightarrow> Inl TypeError
      | Some CNull \<Rightarrow> Inl TypeError
      | Some l \<Rightarrow>
          (let level = (if holds (setting ''level'' l) then levels (the (setting ''level'' l)) else None);
               to_files = (let v = setting ''logToFiles'' l in if holds v then v else Some (CBool False))
           in case (if holds (setting ''filePath'' l) then setting ''filePath'' l else Some (CStr default_path)) of
                Some (CStr p) \<Rightarrow> Inr \<lparr>ls_level = (if level = None \<or> level = Some 0 then Some important else level),
                     ls_to_files = to_files, ls_path = (if js_ends_with p ''/'' then p else p @ ''/'')\<rparr>
              | _ \<Rightarrow> Inl TypeError))"

record access_line =
  al_remote :: string
  al_source_ip :: "string option"
  al_method :: http_method
  al_path :: "string list"
  al_status :: "nat option"          \<comment> \<open>none if no response was sent\<close>
  al_did :: "string option"

record error_data =
  ed_message :: body_failure
  ed_status :: nat
  ed_path :: "string list"
  ed_sourceIp :: string
  ed_did :: string

record server_logs =
  http_access :: "access_line list"
  http_error :: "error_data list"

fun http_status :: "'r http_response \<Rightarrow> nat" where
  "http_status (OK r) = 200"
| "http_status (CREATED r) = 201"
| "http_status (ACCEPTED r) = 202"
| "http_status NOT_FOUND = 404"
| "http_status (BAD_REQUEST e) = 400"
| "http_status SERVER_ERROR = 500"
| "http_status UNAVAILABLE = 503"

fun response_status :: "'car server_response \<Rightarrow> nat" where
  "response_status (Handled r) = http_status r"
| "response_status (BodyError TooLarge) = 413"
| "response_status (BodyError (Unreadable e)) = 400"
| "response_status (Unauthorized reason) = 403"
| "response_status AuthorizationError = 500"
| "response_status NoRoute = 404"
| "response_status Preflight = 204"

text \<open>A line of \<open>expressLoggers\<close>: the DID is the one of the header, whoever signed the request.\<close>

definition log_access :: "wire_request \<Rightarrow> nat option \<Rightarrow> access_line" where
  "log_access w st = \<lparr>al_remote = wire_ip w, al_source_ip = wire_header w ''sourceIp'', al_method = http_method w,
     al_path = segments w, al_status = st, al_did = wire_header w ''did''\<rparr>"

definition expressErrorLogger :: "body_failure \<Rightarrow> nat option \<Rightarrow> wire_request \<Rightarrow> error_data" where
  "expressErrorLogger err err_status w = \<lparr>ed_message = err,
     ed_status = (case err_status of Some n \<Rightarrow> if n = 0 then 500 else n | None \<Rightarrow> 500), ed_path = segments w,
     ed_sourceIp = (case wire_header w ''sourceIp'' of Some s \<Rightarrow> s | None \<Rightarrow> []),
     ed_did = (case wire_header w ''did'' of Some s \<Rightarrow> s | None \<Rightarrow> [])\<rparr>"

text \<open>
  A request and its traces. The access log comes after the body parsers, so an error of theirs passes it by
  and reaches the error log; the others answer themselves. A request without response is logged when its
  client has gone.
\<close>

definition leave_trace :: "wire_request \<Rightarrow> cas_error + 'car server_response \<Rightarrow> server_logs \<Rightarrow> server_logs" where
  "leave_trace w r lg =
     (case r of
        Inr (BodyError f) \<Rightarrow> lg\<lparr>http_error := http_error lg
          @ [expressErrorLogger f (Some (response_status (BodyError f :: 'car server_response))) w]\<rparr>
      | Inr x \<Rightarrow> lg\<lparr>http_access := http_access lg @ [log_access w (Some (response_status x))]\<rparr>
      | Inl e \<Rightarrow> lg\<lparr>http_access := http_access lg @ [log_access w None]\<rparr>)"

definition serve_logged :: "('b, 'car, 'block, 's) deployment \<Rightarrow> auth_opts option \<Rightarrow> server_answers \<Rightarrow> wire_request
    \<Rightarrow> ('s, 'car) served \<times> server_logs \<Rightarrow> ((cas_error + 'car server_response) \<times> ('s, 'car) served \<times> server_logs) option" where
  "serve_logged dp opts ans w s =
     (case s of (sv, lg) \<Rightarrow>
        (case serve dp opts ans w sv of
           None \<Rightarrow> None
         | Some (r, sv') \<Rightarrow> Some (r, sv', leave_trace w r lg)))"

lemma leave_trace_access:
  assumes "\<And>f. r \<noteq> Inr (BodyError f)"
  shows "\<exists>st. leave_trace w r lg = lg\<lparr>http_access := http_access lg @ [log_access w st]\<rparr>"
proof (cases r)
  case (Inl e)
  then show ?thesis by (auto simp: leave_trace_def)
next
  case (Inr x)
  then have "leave_trace w r lg = lg\<lparr>http_access := http_access lg @ [log_access w (Some (response_status x))]\<rparr>"
    using assms by (cases x) (simp_all add: leave_trace_def)
  then show ?thesis by blast
qed

text \<open>
  Every request the server is done with leaves one line in one of the logs: the error log if its body was
  refused, which then is missing from the access log, and the access log otherwise. Whatever changes the
  requests or the queue is in the access log, with its path and the DID of its header.
\<close>

theorem served_logged:
  assumes "serve_logged dp opts ans w (sv, lg) = Some (r, sv', lg')"
  shows "length (http_access lg') + length (http_error lg') = Suc (length (http_access lg) + length (http_error lg))
    \<and> (http_access lg' = http_access lg \<longleftrightarrow> (\<exists>f. parse_body (dp_bodies dp) w = Inl f))
    \<and> (stored_part sv' \<noteq> stored_part sv \<longrightarrow> (\<exists>st. http_access lg' = http_access lg @ [log_access w st]))"
proof -
  have run: "serve dp opts ans w sv = Some (r, sv')" and lg': "lg' = leave_trace w r lg"
    using assms by (auto simp: serve_logged_def split: option.splits prod.splits)
  show ?thesis
  proof (cases "parse_body (dp_bodies dp) w")
    case (Inl f)
    then have "r = Inr (BodyError f)" "sv' = sv" using run by (simp_all add: serve_def)
    then show ?thesis using lg' Inl by (simp add: leave_trace_def)
  next
    case (Inr b)
    have answered: "answered f m s = Some (Inr y, t) \<Longrightarrow> \<exists>z. y = Handled z" for f m s y t
      by (auto simp: answered_def bindP_def split: option.splits sum.splits)
    have "r \<noteq> Inr (BodyError f)" for f
      using run Inr by (auto simp: serve_def run_endpoint_def dest!: answered split: auth_decision.splits option.splits endpoint.splits)
    then obtain st where "lg' = lg\<lparr>http_access := http_access lg @ [log_access w st]\<rparr>"
      using leave_trace_access [of r w lg] lg' by blast
    then show ?thesis using Inr by auto
  qed
qed

end
