(* ===== verification/Utilities.thy ===== *)
theory Utilities
  imports Models
begin

text \<open>
  \<open>src/src/utils.ts\<close>: a delay that a signal can abort, and polling. A delay is a machine over its timer and
  the signal; polling, a pipeline of RxJS, is what its subscriber sees of the successive requests.
\<close>

section \<open>Delays\<close>

text \<open>
  The promise, whether the timer is set, and how many listeners the delay has on the signal. A promise that
  is settled ignores what comes later.
\<close>

datatype promise_state = Pending | Resolved | DelayAborted

record delay =
  dl_promise :: promise_state
  dl_timer :: bool
  dl_listeners :: nat

datatype delay_event = TimerFires | Aborts

definition settle :: "promise_state \<Rightarrow> delay \<Rightarrow> delay" where
  "settle p d = (if dl_promise d = Pending then d\<lparr>dl_promise := p\<rparr> else d)"

definition abort_done :: "delay \<Rightarrow> delay" where
  "abort_done d = settle DelayAborted (d\<lparr>dl_timer := False\<rparr>)"

text \<open>The call: \<open>None\<close> is no signal, otherwise whether it is aborted already.\<close>

definition new_delay :: "bool option \<Rightarrow> delay" where
  "new_delay signal =
     (let d = \<lparr>dl_promise = Pending, dl_timer = True, dl_listeners = 0\<rparr>
      in case signal of
           None \<Rightarrow> d
         | Some is_aborted \<Rightarrow> (if is_aborted then abort_done d else d)\<lparr>dl_listeners := 1\<rparr>)"

fun delay_step :: "delay_event \<Rightarrow> delay \<Rightarrow> delay" where
  "delay_step TimerFires d = (if dl_timer d then settle Resolved (d\<lparr>dl_timer := False\<rparr>) else d)"
| "delay_step Aborts d = (if 0 < dl_listeners d then abort_done d else d)"

definition delay_run :: "bool option \<Rightarrow> delay_event list \<Rightarrow> delay" where
  "delay_run signal evs = fold delay_step evs (new_delay signal)"

definition settled_by :: "bool option \<Rightarrow> delay_event list \<Rightarrow> promise_state" where
  "settled_by signal evs =
     (if signal = Some True then DelayAborted
      else case (if signal = None then filter (\<lambda>e. e = TimerFires) evs else evs) of
             [] \<Rightarrow> Pending | TimerFires # es \<Rightarrow> Resolved | Aborts # es \<Rightarrow> DelayAborted)"

lemma delay_step_settled:
  "dl_promise d \<noteq> Pending \<Longrightarrow> dl_promise (fold delay_step evs d) = dl_promise d"
proof (induction evs arbitrary: d)
  case (Cons e evs)
  have "dl_promise (delay_step e d) = dl_promise d" using Cons.prems by (cases e) (simp_all add: settle_def abort_done_def)
  then show ?case using Cons by simp
qed simp

lemma delay_step_listeners: "dl_listeners (fold delay_step evs d) = dl_listeners d"
proof (induction evs arbitrary: d)
  case (Cons e evs)
  have "dl_listeners (delay_step e d) = dl_listeners d" by (cases e) (simp_all add: settle_def abort_done_def)
  then show ?case using Cons.IH by simp
qed simp

text \<open>
  Utils.delay: the first of the timer and the signal decides, and a signal that was aborted before rejects at
  once; what happens later changes nothing. The listener on the signal is never removed.
\<close>

theorem delay_first_event:
  "dl_promise (delay_run signal evs) = settled_by signal evs
   \<and> dl_listeners (delay_run signal evs) = (if signal = None then 0 else 1)"
proof
  have untimed: "dl_promise (fold delay_step evs d) = (if TimerFires \<in> set evs then Resolved else Pending)"
    if "dl_promise d = Pending" "dl_timer d" "dl_listeners d = 0" for d
    using that
  proof (induction evs arbitrary: d)
    case (Cons e evs)
    then show ?case by (cases e) (simp_all add: settle_def delay_step_settled)
  qed simp
  show "dl_promise (delay_run signal evs) = settled_by signal evs"
  proof (cases signal)
    case None
    have "filter (\<lambda>e. e = TimerFires) evs = [] \<longleftrightarrow> TimerFires \<notin> set evs" by (auto simp: filter_empty_conv)
    moreover have "hd (filter (\<lambda>e. e = TimerFires) evs) = TimerFires" if "filter (\<lambda>e. e = TimerFires) evs \<noteq> []"
      using hd_in_set [OF that] by simp
    ultimately show ?thesis
      using None untimed [of "new_delay None"]
      by (cases "filter (\<lambda>e. e = TimerFires) evs") (auto simp: delay_run_def settled_by_def new_delay_def)
  next
    case (Some b)
    then show ?thesis
      by (cases b; cases evs; cases "hd evs")
        (simp_all add: delay_run_def settled_by_def new_delay_def abort_done_def settle_def delay_step_settled)
  qed
  show "dl_listeners (delay_run signal evs) = (if signal = None then 0 else 1)"
    by (auto simp: delay_run_def delay_step_listeners new_delay_def Let_def split: option.split)
qed

section \<open>Polling\<close>

text \<open>
  What a subscriber sees: values of requests, errors of requests, and the signal being aborted while one is
  under way or awaited. \<open>None\<close> for the number of attempts is \<open>Infinity\<close>.
\<close>

datatype 'v poll_event = Answer 'v | Failure string | PollAborted

datatype 'v poll_end = Found 'v | Nothing | Cancelled | ReceivedError string

text \<open>
  \<open>repeat\<close> counts the requests that completed since it was subscribed, \<open>retry\<close> subscribes again after an
  error, three times in a row, and starts counting anew after a value. With a default given, \<open>first\<close> turns a
  completed pipeline into \<open>undefined\<close>, whatever completed it.
\<close>

fun poll_from :: "('v \<Rightarrow> bool) \<Rightarrow> nat option \<Rightarrow> bool \<Rightarrow> nat \<Rightarrow> nat \<Rightarrow> 'v poll_event list \<Rightarrow> 'v poll_end option" where
  "poll_from truthy attempts is_aborted completed failed [] = None"
| "poll_from truthy attempts is_aborted completed failed (Answer v # evs) =
     (if truthy v then Some (Found v)
      else if attempts = Some (Suc completed) then Some Nothing
      else poll_from truthy attempts is_aborted (Suc completed) 0 evs)"
| "poll_from truthy attempts is_aborted completed failed (Failure e # evs) =
     (if failed < 3 then poll_from truthy attempts is_aborted 0 (Suc failed) evs
      else Some (if is_aborted then Cancelled else ReceivedError e))"
| "poll_from truthy attempts is_aborted completed failed (PollAborted # evs) = Some Nothing"

text \<open>\<open>repeat\<close> with a count of 0 is empty. \<open>is_aborted\<close>: the signal was aborted before the call.\<close>

definition poll :: "('v \<Rightarrow> bool) \<Rightarrow> nat option \<Rightarrow> bool \<Rightarrow> 'v poll_event list \<Rightarrow> 'v poll_end option" where
  "poll truthy attempts is_aborted evs =
     (if attempts = Some 0 then Some Nothing else poll_from truthy attempts is_aborted 0 0 evs)"

lemma poll_falsy:
  assumes "completed + length vs < n" and "\<forall>v\<in>set vs. \<not> truthy v"
  shows "poll_from truthy (Some n) b completed failed (map Answer vs @ evs)
    = poll_from truthy (Some n) b (completed + length vs) (if vs = [] then failed else 0) evs"
  using assms by (induction vs arbitrary: completed failed) auto

text \<open>
  Utils.poll: without errors it ends after at most the given number of requests. But every error starts the
  count of attempts anew, so with requests that fail now and then it goes on for ever, whatever the number of
  attempts; and an abort is answered with \<open>undefined\<close> and not with an error, as long as no request fails.
\<close>

theorem poll_attempts:
  assumes "1 < n" and "\<not> truthy v"
  shows "length vs = n \<Longrightarrow> (\<forall>u\<in>set vs. \<not> truthy u) \<Longrightarrow> poll truthy (Some n) b (map Answer vs @ evs) = Some Nothing"
    and "poll truthy (Some n) b (concat (replicate k [Answer v, Failure e])) = None"
    and "poll truthy (Some n) b (Answer v # PollAborted # evs) = Some Nothing"
proof -
  assume vs: "length vs = n" "\<forall>u\<in>set vs. \<not> truthy u"
  then have ne: "vs \<noteq> []" using assms(1) by auto
  then have len: "length (butlast vs) < n" using vs(1) assms(1) by simp
  have split: "map Answer vs @ evs = map Answer (butlast vs) @ Answer (last vs) # evs"
    using ne by (subst append_butlast_last_id [symmetric, OF ne]) (simp del: append_butlast_last_id)
  have falsy: "\<forall>u\<in>set (butlast vs). \<not> truthy u" "\<not> truthy (last vs)"
    using vs(2) ne by (auto dest: in_set_butlastD)
  have "poll_from truthy (Some n) b 0 0 (map Answer vs @ evs)
      = poll_from truthy (Some n) b (length (butlast vs)) (if butlast vs = [] then 0 else 0) (Answer (last vs) # evs)"
    unfolding split using poll_falsy [where completed = 0, OF _ falsy(1)] len by simp
  then show "poll truthy (Some n) b (map Answer vs @ evs) = Some Nothing"
    using assms(1) vs(1) falsy(2) by (simp add: poll_def)
next
  have "poll_from truthy (Some n) b c f (concat (replicate k [Answer v, Failure e])) = None"
    if "c = 0" "f < 3" for c f
    using that
  proof (induction k arbitrary: c f)
    case (Suc k)
    then show ?case using assms by simp
  qed simp
  then show "poll truthy (Some n) b (concat (replicate k [Answer v, Failure e])) = None"
    using assms(1) by (simp add: poll_def)
next
  show "poll truthy (Some n) b (Answer v # PollAborted # evs) = Some Nothing"
    using assms by (simp add: poll_def)
qed

end
