(* ===== verification/Did_Registry.thy ===== *)
theory Did_Registry
  imports Car
begin

text \<open>
  The registry of the authorization application: \<open>src/auth/src/services/aws/dynamodb.ts\<close> and
  \<open>src/auth/src/services/db.ts\<close>. One-time passwords, DIDs with their nonces, and the configuration
  are items of three DynamoDB tables; every operation is a sequence of commands to the database, each
  of which may fail, before or after it took effect.
\<close>

section \<open>Tables\<close>

datatype did_status = DidActive | DidRevoked

datatype otp_status = OtpActive | OtpRevoked | OtpExpired | OtpUsed

fun did_status_name :: "did_status \<Rightarrow> string" where
  "did_status_name DidActive = ''Active''"
| "did_status_name DidRevoked = ''Revoked''"

fun otp_status_name :: "otp_status \<Rightarrow> string" where
  "otp_status_name OtpActive = ''Active''"
| "otp_status_name OtpRevoked = ''Revoked''"
| "otp_status_name OtpExpired = ''Expired''"
| "otp_status_name OtpUsed = ''Used''"

text \<open>The key of an item: its attributes \<open>PK\<close> and \<open>SK\<close>.\<close>

type_synonym item_key = "string \<times> string"

record otp_item =
  otp_key :: item_key
  otp_attempts :: nat
  otp_status :: otp_status
  otp_created :: int
  otp_updated :: int
  otp_expires :: int

record did_item =
  did_key :: item_key
  did_email :: "string option"
  did_status :: "did_status option"
  did_created :: int
  did_updated :: int

record config_item =
  cfg_key :: item_key
  cfg_value :: js_value
  cfg_updated :: int

text \<open>
  A command that fails: before the database did anything, or after, when only the answer was lost.
\<close>

datatype fault = NoFault | FailsBefore | FailsAfter

record registry =
  otps :: "otp_item list"
  dids :: "did_item list"
  configs :: "config_item list"
  faults :: "fault list"

datatype registry_error =
    ConditionalCheckFailed
  | ItemNotFound
  | ServiceError
  | WrongStatus
  | InvalidOTP
  | InvalidDID string

type_synonym 'a command = "registry \<Rightarrow> (registry_error + 'a) \<times> registry"

definition INITIAL_NONCE :: string where
  "INITIAL_NONCE = ''0''"

section \<open>Commands\<close>

text \<open>\<open>client.send\<close>: the next fault decides what happens to the command.\<close>

definition send :: "'a command \<Rightarrow> 'a command" where
  "send run db =
     (case faults db of
        [] \<Rightarrow> run db
      | NoFault # fs \<Rightarrow> run (db\<lparr>faults := fs\<rparr>)
      | FailsBefore # fs \<Rightarrow> (Inl ServiceError, db\<lparr>faults := fs\<rparr>)
      | FailsAfter # fs \<Rightarrow> (Inl ServiceError, snd (run (db\<lparr>faults := fs\<rparr>))))"

definition andThen :: "'a command \<Rightarrow> ('a \<Rightarrow> 'b command) \<Rightarrow> 'b command" where
  "andThen m f db = (case m db of (Inl e, db') \<Rightarrow> (Inl e, db') | (Inr x, db') \<Rightarrow> f x db')"

definition giveBack :: "'a \<Rightarrow> 'a command" where
  "giveBack x db = (Inr x, db)"

definition raise_error :: "registry_error \<Rightarrow> 'a command" where
  "raise_error e db = (Inl e, db)"

text \<open>\<open>try { m } catch (err) { return handler(err) }\<close>\<close>

definition handled :: "'a command \<Rightarrow> (registry_error \<Rightarrow> 'a command) \<Rightarrow> 'a command" where
  "handled m handler db = (case m db of (Inl e, db') \<Rightarrow> handler e db' | (Inr x, db') \<Rightarrow> (Inr x, db'))"

text \<open>\<open>PutItem\<close> replaces the item of the key; \<open>UpdateItem\<close> changes it in place.\<close>

definition put_item :: "('i \<Rightarrow> item_key) \<Rightarrow> 'i \<Rightarrow> 'i list \<Rightarrow> 'i list" where
  "put_item key x xs = filter (\<lambda>y. key y \<noteq> key x) xs @ [x]"

definition get_item :: "('i \<Rightarrow> item_key) \<Rightarrow> item_key \<Rightarrow> 'i list \<Rightarrow> 'i option" where
  "get_item key k xs = find (\<lambda>y. key y = k) xs"

definition change_item :: "('i \<Rightarrow> item_key) \<Rightarrow> item_key \<Rightarrow> ('i \<Rightarrow> 'i) \<Rightarrow> 'i list \<Rightarrow> 'i list" where
  "change_item key k f xs = map (\<lambda>y. if key y = k then f y else y) xs"

text \<open>
  \<open>_getItem\<close> of a table, \<open>_getItemAttribute\<close>, and \<open>_queryItems\<close> on the partition of a key: one page of
  \<open>page\<close> items, then the filter; the code does not ask for the next page.
\<close>

definition getItem :: "('i \<Rightarrow> item_key) \<Rightarrow> (registry \<Rightarrow> 'i list) \<Rightarrow> item_key \<Rightarrow> 'i command" where
  [simp]: "getItem key table k = send (\<lambda>db. case get_item key k (table db) of
     None \<Rightarrow> (Inl ItemNotFound, db) | Some i \<Rightarrow> (Inr i, db))"

definition getItemAttribute :: "('i \<Rightarrow> item_key) \<Rightarrow> (registry \<Rightarrow> 'i list) \<Rightarrow> item_key \<Rightarrow> ('i \<Rightarrow> 'a) \<Rightarrow> 'a command" where
  [simp]: "getItemAttribute key table k attribute = andThen (getItem key table k) (\<lambda>data. giveBack (attribute data))"

definition queryItems :: "nat \<Rightarrow> ('i \<Rightarrow> item_key) \<Rightarrow> (registry \<Rightarrow> 'i list) \<Rightarrow> string \<Rightarrow> ('i \<Rightarrow> bool) \<Rightarrow> 'i list command" where
  [simp]: "queryItems page key table pk filterExpression = send (\<lambda>db.
     (Inr (filter filterExpression (take page (filter (\<lambda>i. fst (key i) = pk) (table db)))), db))"

section \<open>One-time passwords\<close>

definition getActiveOTPs :: "nat \<Rightarrow> string \<Rightarrow> otp_item list command" where
  "getActiveOTPs page email = queryItems page otp_key otps email
     (\<lambda>i. js_includes (otp_status_name (otp_status i)) (otp_status_name OtpActive))"

definition getRevokedOTPs :: "nat \<Rightarrow> string \<Rightarrow> otp_item list command" where
  "getRevokedOTPs page email = queryItems page otp_key otps email
     (\<lambda>i. js_includes (otp_status_name (otp_status i)) (otp_status_name OtpRevoked))"

definition updateOTP :: "int \<Rightarrow> otp_item \<Rightarrow> otp_status \<Rightarrow> unit command" where
  "updateOTP now item next_status = send (\<lambda>db.
     (case get_item otp_key (otp_key item) (otps db) of
        None \<Rightarrow> (Inl ConditionalCheckFailed, db)
      | Some stored \<Rightarrow>
          (if js_includes (otp_status_name (otp_status stored)) (otp_status_name next_status)
           then (Inl ConditionalCheckFailed, db)
           else (Inr (), db\<lparr>otps := change_item otp_key (otp_key item)
                   (\<lambda>i. i\<lparr>otp_status := next_status, otp_updated := now\<rparr>) (otps db)\<rparr>))))"

definition expireOTP :: "int \<Rightarrow> otp_item \<Rightarrow> unit command" where
  "expireOTP now item = updateOTP now item OtpExpired"

definition revokeOTP :: "int \<Rightarrow> otp_item \<Rightarrow> unit command" where
  "revokeOTP now item = updateOTP now item OtpRevoked"

definition checkOTPExpired :: "int \<Rightarrow> otp_item \<Rightarrow> bool" where
  "checkOTPExpired now item = (otp_expires item < now)"

definition addOTP :: "int \<Rightarrow> string \<Rightarrow> string \<Rightarrow> unit command" where
  "addOTP now email otp = send (\<lambda>db.
     (Inr (), db\<lparr>otps := put_item otp_key \<lparr>otp_key = (email, otp), otp_attempts = 0, otp_status = OtpActive,
        otp_created = now, otp_updated = now, otp_expires = now + 30 * 60\<rparr> (otps db)\<rparr>))"

fun expire_all :: "int \<Rightarrow> otp_item list \<Rightarrow> unit command" where
  "expire_all now [] = giveBack ()"
| "expire_all now (i # is) = andThen (expireOTP now i) (\<lambda>_. expire_all now is)"

text \<open>\<open>createEmailVerificationCode\<close> of \<open>db.ts\<close>, with the password \<open>generateOTP\<close> made up.\<close>

definition new_verification_code :: "nat \<Rightarrow> int \<Rightarrow> string \<Rightarrow> string \<Rightarrow> string command" where
  "new_verification_code page now otp email =
     andThen (getActiveOTPs page email) (\<lambda>active.
     andThen (expire_all now active) (\<lambda>_.
     andThen (addOTP now email otp) (\<lambda>_. giveBack otp)))"

text \<open>The method of \<open>DynamoDB\<close>: an error is logged and becomes \<open>undefined\<close>.\<close>

definition createEmailVerificationCode :: "nat \<Rightarrow> int \<Rightarrow> string \<Rightarrow> string \<Rightarrow> string option command" where
  "createEmailVerificationCode page now otp email =
     handled (andThen (new_verification_code page now otp email) (\<lambda>c. giveBack (Some c))) (\<lambda>_. giveBack None)"

definition checkCorrectOTP :: "int \<Rightarrow> string \<Rightarrow> string \<Rightarrow> bool command" where
  "checkCorrectOTP now email otp =
     handled
       (send (\<lambda>db.
          case get_item otp_key (email, otp) (otps db) of
            None \<Rightarrow> (Inl ConditionalCheckFailed, db)
          | Some stored \<Rightarrow>
              (if js_includes (otp_status_name (otp_status stored)) (otp_status_name OtpActive)
               then (Inr (otp_expires stored > now),
                     db\<lparr>otps := change_item otp_key (email, otp)
                       (\<lambda>i. i\<lparr>otp_status := OtpUsed, otp_updated := now\<rparr>) (otps db)\<rparr>)
               else (Inl ConditionalCheckFailed, db))))
       (\<lambda>err. if err = ConditionalCheckFailed then giveBack False else raise_error err)"

section \<open>DIDs and nonces\<close>

text \<open>
  The test \<open>/\S+:\S+:\S+/\<close>: in some run of characters without white space, two colons with
  something before, between and after them.
\<close>

definition did_word :: "string \<Rightarrow> bool" where
  "did_word w \<longleftrightarrow> list_ex (\<lambda>i. list_ex (\<lambda>j. w ! i = CHR '':'' \<and> w ! j = CHR '':'') [i + 2..<length w - 1])
     [1..<length w]"

definition splits_at_space :: "string \<Rightarrow> string list" where
  "splits_at_space s = js_split (CHR '' '') (map (\<lambda>c. if is_space c then CHR '' '' else c) s)"

definition didRegex :: "string \<Rightarrow> bool" where
  "didRegex s = list_ex did_word (splits_at_space s)"

record did_result =
  dr_email :: string
  dr_did :: string
  dr_nonce :: string
  dr_status :: did_status

definition getDIDRegistration :: "string \<Rightarrow> did_status option \<Rightarrow> did_item option command" where
  "getDIDRegistration did wanted =
     handled
       (andThen (getItem did_key dids (did, INITIAL_NONCE))
          (\<lambda>i. if did_status i \<noteq> wanted then raise_error WrongStatus else giveBack (Some i)))
       (\<lambda>_. giveBack None)"

definition registration :: "int \<Rightarrow> string \<Rightarrow> string \<Rightarrow> did_item" where
  "registration now email did = \<lparr>did_key = (did, INITIAL_NONCE), did_email = Some email,
     did_status = Some DidActive, did_created = now, did_updated = now\<rparr>"

definition nonce_item :: "int \<Rightarrow> string \<Rightarrow> string \<Rightarrow> did_item" where
  "nonce_item now did nonce = \<lparr>did_key = (did, nonce), did_email = None, did_status = None,
     did_created = now, did_updated = now\<rparr>"

text \<open>A \<open>PutItem\<close> under the condition that no item has its key.\<close>

definition put_new_did :: "did_item \<Rightarrow> unit command" where
  "put_new_did item = send (\<lambda>db.
     if get_item did_key (did_key item) (dids db) \<noteq> None then (Inl ConditionalCheckFailed, db)
     else (Inr (), db\<lparr>dids := put_item did_key item (dids db)\<rparr>))"

definition addNonce :: "int \<Rightarrow> string \<Rightarrow> string \<Rightarrow> (string \<times> string) option command" where
  "addNonce now did nonce =
     andThen (getDIDRegistration did (Some DidActive)) (\<lambda>activeDID.
       case activeDID of
         None \<Rightarrow> giveBack None
       | Some _ \<Rightarrow>
           handled
             (andThen (put_new_did (nonce_item now did nonce)) (\<lambda>_. giveBack (Some (did, nonce))))
             (\<lambda>_. giveBack None))"

definition registerDID :: "int \<Rightarrow> string \<Rightarrow> string \<Rightarrow> string \<Rightarrow> bool \<Rightarrow> did_result option command" where
  "registerDID now email otp did checkOTP =
     andThen (if checkOTP then checkCorrectOTP now email otp else giveBack True) (\<lambda>ok.
       if \<not> ok then giveBack None
       else handled
         (andThen (put_new_did (registration now email did))
           (\<lambda>_. giveBack (Some \<lparr>dr_email = email, dr_did = did, dr_nonce = INITIAL_NONCE, dr_status = DidActive\<rparr>)))
         (\<lambda>_. giveBack None))"

fun register_each :: "int \<Rightarrow> string \<Rightarrow> string \<Rightarrow> string list \<Rightarrow> did_result list command" where
  "register_each now email otp [] = giveBack []"
| "register_each now email otp (did # ds) =
     andThen (registerDID now email otp did False) (\<lambda>result.
     andThen (register_each now email otp ds) (\<lambda>results.
       giveBack (case result of Some r \<Rightarrow> r # results | None \<Rightarrow> results)))"

definition registerDIDs :: "int \<Rightarrow> string \<Rightarrow> string \<Rightarrow> string list \<Rightarrow> bool \<Rightarrow> did_result list command" where
  "registerDIDs now email otp ds skipOTP =
     andThen (if skipOTP then giveBack True else checkCorrectOTP now email otp) (\<lambda>ok.
       if \<not> ok then raise_error InvalidOTP
       else case find (\<lambda>d. \<not> didRegex d) ds of
              Some d \<Rightarrow> raise_error (InvalidDID d)
            | None \<Rightarrow> register_each now email otp ds)"

text \<open>
  The update of \<open>revokeDID\<close>, on the condition that the item's email contains the given one and that
  it is not revoked; the answer is email, DID and status of the item.
\<close>

definition revoke_command :: "int \<Rightarrow> string \<Rightarrow> string \<Rightarrow> (string option \<times> string \<times> did_status option) command" where
  "revoke_command now email did = send (\<lambda>db.
     case get_item did_key (did, INITIAL_NONCE) (dids db) of
       None \<Rightarrow> (Inl ConditionalCheckFailed, db)
     | Some stored \<Rightarrow>
         (if (case did_email stored of Some e \<Rightarrow> js_includes e email | None \<Rightarrow> False)
             \<and> \<not> (case did_status stored of Some s \<Rightarrow> js_includes (did_status_name s) (did_status_name DidRevoked)
                   | None \<Rightarrow> False)
          then (Inr (did_email stored, did, Some DidRevoked),
                db\<lparr>dids := change_item did_key (did, INITIAL_NONCE)
                  (\<lambda>i. i\<lparr>did_status := Some DidRevoked, did_updated := now\<rparr>) (dids db)\<rparr>)
          else (Inl ConditionalCheckFailed, db)))"

definition revokeDID :: "int \<Rightarrow> string \<Rightarrow> string \<Rightarrow> string \<Rightarrow> (string option \<times> string \<times> did_status option) option command" where
  "revokeDID now email otp did =
     andThen (checkCorrectOTP now email otp) (\<lambda>ok.
       if \<not> ok then giveBack None
       else handled (andThen (revoke_command now email did) (\<lambda>r. giveBack (Some r))) (\<lambda>_. giveBack None))"

definition getEmail :: "string \<Rightarrow> string option command" where
  "getEmail did =
     handled (getItemAttribute did_key dids (did, did) did_email) (\<lambda>_. giveBack None)"

section \<open>Configuration\<close>

text \<open>\<open>getConfig\<close>: a key that was never set has the value \<open>null\<close>; other errors give \<open>undefined\<close>.\<close>

definition getConfig :: "string \<Rightarrow> js_value option command" where
  "getConfig key =
     handled
       (andThen (getItem cfg_key configs (key, key))
          (\<lambda>i. giveBack (Some (cfg_value i))))
       (\<lambda>err. giveBack (if err = ItemNotFound then Some None else None))"

definition updateConfig :: "int \<Rightarrow> string \<Rightarrow> js_value \<Rightarrow> js_value option command" where
  "updateConfig now key v =
     handled
       (send (\<lambda>db. (Inr (Some v), db\<lparr>configs := put_item cfg_key
          \<lparr>cfg_key = (key, key), cfg_value = v, cfg_updated = now\<rparr> (configs db)\<rparr>)))
       (\<lambda>_. giveBack None)"

end
