(* ===== verification/Did_Registry_Laws.thy ===== *)
theory Did_Registry_Laws
  imports Did_Registry
begin

text \<open>
  What holds of the registry of the authorization application along any interleaving of its clients'
  commands: passwords and nonces are used once, revocation is final, registrations belong to the
  holder of a password. The relations between earlier and later states are interpretations of one
  locale.
\<close>

section \<open>What commands do to the tables\<close>

lemmas command_defs = andThen_def giveBack_def raise_error_def handled_def

lemma get_put_item [simp]: "get_item key k (put_item key x xs) = (if k = key x then Some x else get_item key k xs)"
  by (induction xs) (auto simp: get_item_def put_item_def)

lemma get_change_item [simp]:
  assumes "\<And>i. key (f i) = key i"
  shows "get_item key k (change_item key k' f xs) = (if k = k' then map_option f (get_item key k xs) else get_item key k xs)"
  using assms by (induction xs) (auto simp: get_item_def change_item_def)

lemma get_item_key: "get_item key k xs = Some i \<Longrightarrow> key i = k"
  by (auto simp: get_item_def dest: find_some_mem)

lemma otp_names [simp]:
  "js_includes (otp_status_name s) (otp_status_name t) = (s = t)"
  "js_includes (did_status_name u) (did_status_name v) = (u = v)"
  by (cases s; cases t; simp)+ (cases u; cases v; simp)

declare otp_status_name.simps [simp del] did_status_name.simps [simp del]

definition obeys :: "(registry \<Rightarrow> registry \<Rightarrow> bool) \<Rightarrow> 'a command \<Rightarrow> bool" where
  "obeys later m \<longleftrightarrow> (\<forall>db. later db (snd (m db)))"

text \<open>
  A relation between earlier and later states of the registry that every command respects: it holds
  along any sequence of commands, whatever fails in between; a command takes the next fault.
\<close>

locale history =
  fixes later :: "registry \<Rightarrow> registry \<Rightarrow> bool"
  assumes later_refl: "later db db"
    and later_trans: "later a b \<Longrightarrow> later b c \<Longrightarrow> later a c"
    and later_faults: "later db (db\<lparr>faults := tl (faults db)\<rparr>)"
begin

lemma obeysD: "obeys later m \<Longrightarrow> m db = (r, db') \<Longrightarrow> later db db'"
  by (metis obeys_def snd_conv)

lemma obeys_basic [intro!]: "obeys later (giveBack x)" "obeys later (raise_error e)"
  by (simp_all add: obeys_def command_defs later_refl)

lemma obeys_send [intro!]:
  assumes "\<And>db. later db (snd (run db))"
  shows "obeys later (send run)"
  unfolding obeys_def
proof
  fix db
  show "later db (snd (send run db))"
    using later_trans [OF later_faults assms, of db] later_faults [of db]
    by (auto simp: send_def assms split: list.split fault.split)
qed

lemma obeys_andThen [intro!]:
  assumes "obeys later m" and "\<And>x. obeys later (f x)"
  shows "obeys later (andThen m f)"
  unfolding obeys_def
proof
  fix db
  obtain r db' where m: "m db = (r, db')" by (cases "m db")
  moreover have "later db' (snd (f x db'))" for x using assms(2) by (simp add: obeys_def)
  ultimately show "later db (snd (andThen m f db))"
    using obeysD [OF assms(1) m] by (auto simp: andThen_def split: sum.split intro: later_trans)
qed

lemma obeys_handled [intro!]:
  assumes "obeys later m" and "\<And>e. obeys later (h e)"
  shows "obeys later (handled m h)"
  unfolding obeys_def
proof
  fix db
  obtain r db' where m: "m db = (r, db')" by (cases "m db")
  moreover have "later db' (snd (h e db'))" for e using assms(2) by (simp add: obeys_def)
  ultimately show "later db (snd (handled m h db))"
    using obeysD [OF assms(1) m] by (auto simp: handled_def split: sum.split intro: later_trans)
qed

lemma obeys_option [intro!]:
  "obeys later m \<Longrightarrow> (\<And>x. obeys later (f x)) \<Longrightarrow> obeys later (case v of None \<Rightarrow> m | Some x \<Rightarrow> f x)"
  by (simp split: option.split)

lemma obeys_if [intro!]: "obeys later m \<Longrightarrow> obeys later m' \<Longrightarrow> obeys later (if b then m else m')"
  by simp

end

text \<open>
  DIDs: an item stays, with its email, and a revoked DID stays revoked. A stored nonce is an item of
  the same table.
\<close>

definition dids_later :: "registry \<Rightarrow> registry \<Rightarrow> bool" where
  "dids_later a b \<longleftrightarrow> (\<forall>k i. get_item did_key k (dids a) = Some i \<longrightarrow>
     (\<exists>j. get_item did_key k (dids b) = Some j \<and> did_email j = did_email i
        \<and> (did_status i = Some DidRevoked \<longrightarrow> did_status j = Some DidRevoked)))"

text \<open>Passwords: an item stays; once it is not active it stays as it is or changes to another such status.\<close>

definition otps_later :: "registry \<Rightarrow> registry \<Rightarrow> bool" where
  "otps_later a b \<longleftrightarrow> (\<forall>k i. get_item otp_key k (otps a) = Some i \<longrightarrow>
     (\<exists>j. get_item otp_key k (otps b) = Some j \<and> (otp_status i \<noteq> OtpActive \<longrightarrow> otp_status j \<noteq> OtpActive)))"

interpretation did_history: history dids_later
proof
  fix a b c
  assume "dids_later a b" "dids_later b c"
  then show "dids_later a c" unfolding dids_later_def by (metis (full_types))
qed (simp_all add: dids_later_def)

interpretation otp_history: history otps_later
proof
  fix a b c
  assume "otps_later a b" "otps_later b c"
  then show "otps_later a c" unfolding otps_later_def by meson
qed (simp_all add: otps_later_def)

lemma dids_later_same [simp]: "dids b = dids a \<Longrightarrow> dids_later a b"
  by (simp add: dids_later_def)

lemma otps_later_same [simp]: "otps b = otps a \<Longrightarrow> otps_later a b"
  by (simp add: otps_later_def)

text \<open>Expiring and using passwords neither adds nor removes items.\<close>

definition otp_keys_same :: "registry \<Rightarrow> registry \<Rightarrow> bool" where
  "otp_keys_same a b \<longleftrightarrow> map otp_key (otps b) = map otp_key (otps a)"

interpretation otp_key_history: history otp_keys_same
  by unfold_locales (simp_all add: otp_keys_same_def)

lemma get_item_None_iff: "get_item key k xs = None \<longleftrightarrow> k \<notin> set (map key xs)"
  by (auto simp: get_item_def find_none_iff)

lemma change_keys [simp]: "(\<And>i. key (f i) = key i) \<Longrightarrow> map key (change_item key k f xs) = map key xs"
  by (simp add: change_item_def)

lemmas otp_commands = getActiveOTPs_def updateOTP_def expireOTP_def revokeOTP_def checkCorrectOTP_def

lemma obeys_updateOTP [intro!]:
  assumes "s \<noteq> OtpActive"
  shows "obeys otps_later (updateOTP now i s)" "obeys otp_keys_same (updateOTP now i s)" "obeys dids_later (updateOTP now i s)"
  using assms by (auto simp: updateOTP_def otps_later_def otp_keys_same_def split: option.split)

lemma obeys_expire_all [intro!]:
  "obeys otps_later (expire_all now is)" "obeys otp_keys_same (expire_all now is)" "obeys dids_later (expire_all now is)"
  by (induction "is") (auto simp: expireOTP_def)

lemma obeys_getActiveOTPs [intro!]:
  "obeys otps_later (getActiveOTPs page email)" "obeys otp_keys_same (getActiveOTPs page email)"
  "obeys dids_later (getActiveOTPs page email)"
  by (auto simp: getActiveOTPs_def otp_keys_same_def)

lemma obeys_checkCorrectOTP [intro!]:
  "obeys otps_later (checkCorrectOTP now email otp)" "obeys otp_keys_same (checkCorrectOTP now email otp)"
  "obeys dids_later (checkCorrectOTP now email otp)"
  by (auto simp: checkCorrectOTP_def otps_later_def otp_keys_same_def split: option.split)

lemma obeys_addOTP [intro!]: "obeys dids_later (addOTP now email otp)"
  by (auto simp: addOTP_def)

lemma obeys_code [intro!]: "obeys dids_later (createEmailVerificationCode page now otp email)"
  by (auto simp: createEmailVerificationCode_def new_verification_code_def)

lemma obeys_put_new_did [intro!]:
  "obeys dids_later (put_new_did i)" "obeys otps_later (put_new_did i)"
  by (auto simp: put_new_did_def dids_later_def)

lemma obeys_getDIDRegistration [intro!]:
  "obeys dids_later (getDIDRegistration did wanted)" "obeys otps_later (getDIDRegistration did wanted)"
  by (auto simp: getDIDRegistration_def split: option.split)

lemma obeys_addNonce [intro!]:
  "obeys dids_later (addNonce now did nonce)" "obeys otps_later (addNonce now did nonce)"
  by (auto simp: addNonce_def split: option.split)

lemma obeys_registerDID [intro!]:
  "obeys dids_later (registerDID now email otp did b)" "obeys otps_later (registerDID now email otp did b)"
  by (auto simp: registerDID_def)

lemma obeys_register_each [intro!]:
  "obeys dids_later (register_each now email otp ds)" "obeys otps_later (register_each now email otp ds)"
  by (induction ds) auto

lemma obeys_registerDIDs [intro!]:
  "obeys dids_later (registerDIDs now email otp ds b)" "obeys otps_later (registerDIDs now email otp ds b)"
  by (auto simp: registerDIDs_def split: option.split)

lemma obeys_revoke_command [intro!]:
  "obeys dids_later (revoke_command now email did)" "obeys otps_later (revoke_command now email did)"
  by (auto simp: revoke_command_def dids_later_def split: option.split)

lemma obeys_revokeDID [intro!]:
  "obeys dids_later (revokeDID now email otp did)" "obeys otps_later (revokeDID now email otp did)"
  by (auto simp: revokeDID_def)

lemma obeys_updateConfig [intro!]:
  "obeys dids_later (updateConfig now k v)" "obeys otps_later (updateConfig now k v)"
  by (auto simp: updateConfig_def)

section \<open>Interleaved clients\<close>

text \<open>
  The registry as its clients change it, one command at a time, in any order. A new password has not
  been used before (\<open>randomUUID\<close>); registrations without a password are those of an administrator.
\<close>

inductive registry_step :: "registry \<Rightarrow> registry \<Rightarrow> bool" where
  retire_otp: "s \<noteq> OtpActive \<Longrightarrow> registry_step db (snd (updateOTP now i s db))"
| new_otp: "get_item otp_key (email, otp) (otps db) = None \<Longrightarrow> registry_step db (snd (addOTP now email otp db))"
| use_otp: "registry_step db (snd (checkCorrectOTP now email otp db))"
| new_did: "registry_step db (snd (put_new_did (registration now email did) db))"
| new_nonce: "registry_step db (snd (put_new_did (nonce_item now did nonce) db))"
| revoke: "registry_step db (snd (revoke_command now email did db))"
| set_config: "registry_step db (snd (updateConfig now k v db))"
| weather: "registry_step db (db\<lparr>faults := fs\<rparr>)"

lemma step_history: "registry_step a b \<Longrightarrow> dids_later a b \<and> otps_later a b"
proof (induction rule: registry_step.induct)
  case (new_otp email otp db now)
  have "otps_later db (snd (addOTP now email otp db))"
    using new_otp by (auto simp: addOTP_def send_def otps_later_def split: list.split fault.split)
  then show ?case using obeys_addOTP by (auto simp: obeys_def)
qed (use obeys_updateOTP obeys_checkCorrectOTP obeys_put_new_did obeys_revoke_command obeys_updateConfig
     in \<open>auto simp: obeys_def\<close>)

lemma run_history:
  assumes "registry_step\<^sup>*\<^sup>* a b"
  shows "dids_later a b" "otps_later a b"
proof -
  from assms have "dids_later a b \<and> otps_later a b"
  proof (induction rule: rtranclp_induct)
    case base
    then show ?case by (simp add: did_history.later_refl otp_history.later_refl)
  next
    case (step y z)
    then show ?case using step_history did_history.later_trans otp_history.later_trans by blast
  qed
  then show "dids_later a b" "otps_later a b" by simp_all
qed

text \<open>Every operation, run alone, is a run of such commands.\<close>

interpretation runs: history "registry_step\<^sup>*\<^sup>*"
  by unfold_locales (auto intro: registry_step.weather)

lemma commands_run [intro!]:
  "obeys registry_step\<^sup>*\<^sup>* (checkCorrectOTP now email otp)"
  "obeys registry_step\<^sup>*\<^sup>* (put_new_did (registration now email did))"
  "obeys registry_step\<^sup>*\<^sup>* (put_new_did (nonce_item now did nonce))"
  "obeys registry_step\<^sup>*\<^sup>* (revoke_command now email did)"
  "obeys registry_step\<^sup>*\<^sup>* (getDIDRegistration did wanted)"
  unfolding obeys_def by (blast intro: registry_step.intros)+
    (use runs.later_refl in \<open>auto simp: getDIDRegistration_def simp flip: obeys_def split: option.split\<close>)

lemma register_each_run [intro!]: "obeys registry_step\<^sup>*\<^sup>* (register_each now email otp ds)"
  by (induction ds) (auto simp: registerDID_def)

lemma operations_run:
  "obeys registry_step\<^sup>*\<^sup>* (registerDIDs now email otp ds skip)"
  "obeys registry_step\<^sup>*\<^sup>* (revokeDID now email otp did)"
  "obeys registry_step\<^sup>*\<^sup>* (addNonce now did nonce)"
  by (auto simp: registerDIDs_def revokeDID_def addNonce_def)

section \<open>Passwords and nonces are used once\<close>

lemma send_Inr:
  assumes "send run db = (Inr x, db')"
  shows "\<exists>fs. run (db\<lparr>faults := fs\<rparr>) = (Inr x, db')"
proof (cases "faults db")
  case Nil
  have "db\<lparr>faults := faults db\<rparr> = db" by simp
  moreover have "send run db = run db" using Nil by (simp add: send_def)
  ultimately show ?thesis using assms by metis
next
  case (Cons f fs)
  then show ?thesis using assms by (cases f) (auto simp: send_def)
qed

lemma andThen_Inr: "andThen m f db = (Inr y, db') \<longleftrightarrow> (\<exists>x db1. m db = (Inr x, db1) \<and> f x db1 = (Inr y, db'))"
  by (auto simp: andThen_def split: prod.splits sum.splits)

lemma handled_Inr: "handled m h db = (Inr y, db') \<longleftrightarrow>
    m db = (Inr y, db') \<or> (\<exists>e db1. m db = (Inl e, db1) \<and> h e db1 = (Inr y, db'))"
  by (auto simp: handled_def split: prod.splits sum.splits)

lemma plain_commands [simp]:
  "giveBack x db = (r, db') \<longleftrightarrow> r = Inr x \<and> db' = db" "raise_error e db = (r, db') \<longleftrightarrow> r = Inl e \<and> db' = db"
  by (auto simp: giveBack_def raise_error_def)

lemmas command_results = andThen_Inr handled_Inr

lemma checkCorrectOTP_True:
  assumes "checkCorrectOTP now email otp db = (Inr True, db')"
  obtains i j where "get_item otp_key (email, otp) (otps db) = Some i" and "otp_status i = OtpActive"
    and "now < otp_expires i" and "get_item otp_key (email, otp) (otps db') = Some j" and "otp_status j = OtpUsed"
    and "dids db' = dids db"
  using assms
  by (auto simp: checkCorrectOTP_def handled_Inr dest!: send_Inr split: option.splits if_splits)

lemma checkCorrectOTP_spent:
  assumes "get_item otp_key (email, otp) (otps db) = Some i" and "otp_status i \<noteq> OtpActive"
  shows "fst (checkCorrectOTP now email otp db) \<noteq> Inr True \<and> dids (snd (checkCorrectOTP now email otp db)) = dids db"
  using assms by (auto simp: checkCorrectOTP_def command_defs send_def split: list.splits fault.splits)

lemma put_new_did_done:
  assumes "put_new_did i db = (Inr x, db')"
  shows "get_item did_key (did_key i) (dids db) = None \<and> get_item did_key (did_key i) (dids db') = Some i"
  using assms by (auto simp: put_new_did_def dest!: send_Inr split: if_splits)

lemma put_new_did_taken:
  assumes "get_item did_key (did_key i) (dids db) = Some j"
  shows "fst (put_new_did i db) \<noteq> Inr x"
proof
  assume "fst (put_new_did i db) = Inr x"
  then have "put_new_did i db = (Inr x, snd (put_new_did i db))" by (simp add: prod_eq_iff)
  from put_new_did_done [OF this] assms show False by simp
qed

lemma getDIDRegistration_Some:
  assumes "getDIDRegistration did wanted db = (Inr (Some i), db')"
  shows "get_item did_key (did, INITIAL_NONCE) (dids db) = Some i \<and> did_status i = wanted \<and> dids db' = dids db"
  using assms
  by (auto simp: getDIDRegistration_def command_results dest!: send_Inr split: option.splits if_splits)

lemma handled_defined:
  assumes "\<And>e db. \<exists>x. fst (h e db) = Inr x"
  shows "\<exists>x. fst (handled m h db) = Inr x"
  using assms by (auto simp: handled_def split: prod.split sum.split)

lemma addNonce_defined: "\<exists>v. fst (addNonce now did nonce db) = Inr v"
proof -
  obtain v where v: "fst (getDIDRegistration did (Some DidActive) db) = Inr v"
    unfolding getDIDRegistration_def using handled_defined [where h = "\<lambda>_. giveBack None"] by (auto simp: giveBack_def)
  obtain db' where "getDIDRegistration did (Some DidActive) db = (Inr v, db')"
    using v by (metis prod.collapse)
  then show ?thesis
    using handled_defined [where h = "\<lambda>_. giveBack None"]
    by (auto simp: addNonce_def andThen_def giveBack_def split: option.split)
qed

lemma addNonce_Some:
  assumes "addNonce now did nonce db = (Inr (Some r), db')"
  obtains i where "get_item did_key (did, INITIAL_NONCE) (dids db) = Some i" and "did_status i = Some DidActive"
    and "get_item did_key (did, nonce) (dids db) = None"
    and "get_item did_key (did, nonce) (dids db') = Some (nonce_item now did nonce)"
proof -
  obtain i db1 where i: "getDIDRegistration did (Some DidActive) db = (Inr (Some i), db1)"
    and put: "put_new_did (nonce_item now did nonce) db1 = (Inr (), db')"
    using assms by (auto simp: addNonce_def command_results split: option.splits)
  show ?thesis
    using that [of i] getDIDRegistration_Some [OF i] put_new_did_done [OF put] by (simp add: nonce_item_def)
qed

lemma addNonce_refused:
  assumes "\<And>r db'. addNonce now did nonce db \<noteq> (Inr (Some r), db')"
  shows "fst (addNonce now did nonce db) = Inr None"
  using addNonce_defined [of now did nonce db] assms by (metis option.exhaust prod.collapse)


lemma revoke_command_done:
  assumes "revoke_command now email did db = (Inr r, db')"
  obtains i j where "get_item did_key (did, INITIAL_NONCE) (dids db) = Some i" and "did_status i \<noteq> Some DidRevoked"
    and "\<exists>e. did_email i = Some e \<and> js_includes e email" and "r = (did_email i, did, Some DidRevoked)"
    and "get_item did_key (did, INITIAL_NONCE) (dids db') = Some j" and "did_status j = Some DidRevoked"
  using assms by (auto simp: revoke_command_def dest!: send_Inr split: option.splits if_splits)

lemma revokeDID_Some:
  assumes "revokeDID now email otp did db = (Inr (Some r), db')"
  obtains db1 where "checkCorrectOTP now email otp db = (Inr True, db1)" and "revoke_command now email did db1 = (Inr r, db')"
  using assms by (auto simp: revokeDID_def command_results split: if_splits)

text \<open>Registering changes no item that is there.\<close>

definition dids_kept :: "registry \<Rightarrow> registry \<Rightarrow> bool" where
  "dids_kept a b \<longleftrightarrow> (\<forall>k i. get_item did_key k (dids a) = Some i \<longrightarrow> get_item did_key k (dids b) = Some i)"

interpretation kept_history: history dids_kept
  by unfold_locales (simp_all add: dids_kept_def)

lemma obeys_kept [intro!]:
  "obeys dids_kept (put_new_did i)" "obeys dids_kept (checkCorrectOTP now email otp)"
  by (auto simp: put_new_did_def checkCorrectOTP_def dids_kept_def split: option.split)

lemma obeys_kept_register [intro!]: "obeys dids_kept (registerDID now email otp did b)"
  by (auto simp: registerDID_def)

lemma obeys_kept_each [intro!]: "obeys dids_kept (register_each now email otp ds)"
  by (induction ds) auto

lemma registerDID_Some:
  assumes "registerDID now email otp did False db = (Inr (Some r), db')"
  shows "r = \<lparr>dr_email = email, dr_did = did, dr_nonce = INITIAL_NONCE, dr_status = DidActive\<rparr>
    \<and> get_item did_key (did, INITIAL_NONCE) (dids db) = None
    \<and> get_item did_key (did, INITIAL_NONCE) (dids db') = Some (registration now email did)"
proof -
  have put: "put_new_did (registration now email did) db = (Inr (), db')"
    and "r = \<lparr>dr_email = email, dr_did = did, dr_nonce = INITIAL_NONCE, dr_status = DidActive\<rparr>"
    using assms by (auto simp: registerDID_def command_results)
  then show ?thesis using put_new_did_done [OF put] by (simp add: registration_def)
qed

text \<open>What a client may conclude from the result of a registration.\<close>

definition newly_registered :: "int \<Rightarrow> string \<Rightarrow> registry \<Rightarrow> registry \<Rightarrow> did_result \<Rightarrow> bool" where
  "newly_registered now email before after r \<longleftrightarrow>
     r = \<lparr>dr_email = email, dr_did = dr_did r, dr_nonce = INITIAL_NONCE, dr_status = DidActive\<rparr>
     \<and> get_item did_key (dr_did r, INITIAL_NONCE) (dids before) = None
     \<and> get_item did_key (dr_did r, INITIAL_NONCE) (dids after) = Some (registration now email (dr_did r))"

lemma newly_registered_mono:
  assumes "newly_registered now email b c r" and "dids_kept a b" and "dids_kept c d"
  shows "newly_registered now email a d r"
  using assms unfolding newly_registered_def dids_kept_def by (metis not_Some_eq)

lemma register_each_results:
  assumes "register_each now email otp ds db = (Inr rs, db')"
  shows "\<forall>r\<in>set rs. dr_did r \<in> set ds \<and> newly_registered now email db db' r"
  using assms
proof (induction ds arbitrary: db rs)
  case Nil
  then show ?case by simp
next
  case (Cons did ds)
  obtain v db1 rs1 where first: "registerDID now email otp did False db = (Inr v, db1)"
    and rest: "register_each now email otp ds db1 = (Inr rs1, db')"
    and rs: "rs = (case v of Some r \<Rightarrow> r # rs1 | None \<Rightarrow> rs1)"
    using Cons.prems by (auto simp: andThen_Inr)
  have kept: "dids_kept db db1" "dids_kept db1 db'"
    using kept_history.obeysD [OF obeys_kept_register first] kept_history.obeysD [OF obeys_kept_each rest] .
  have "\<forall>r\<in>set rs1. dr_did r \<in> set (did # ds) \<and> newly_registered now email db db' r"
    using Cons.IH [OF rest] newly_registered_mono [OF _ kept(1) kept_history.later_refl] by auto
  moreover have "dr_did r = did \<and> newly_registered now email db db' r" if "v = Some r" for r
  proof -
    have "newly_registered now email db db1 r" and "dr_did r = did"
      using registerDID_Some [of now email otp did db r db1] first that by (simp_all add: newly_registered_def)
    then show ?thesis using newly_registered_mono [OF _ kept_history.later_refl kept(2)] by blast
  qed
  ultimately show ?case using rs by (auto split: option.splits)
qed

lemma registerDIDs_Inr:
  assumes "registerDIDs now email otp ds skip db = (Inr rs, db')"
  obtains db1 where "if skip then db1 = db else checkCorrectOTP now email otp db = (Inr True, db1)"
    and "list_all didRegex ds" and "register_each now email otp ds db1 = (Inr rs, db')"
  using assms
  by (auto simp: registerDIDs_def andThen_Inr find_none_iff list_all_iff split: if_splits option.splits)

text \<open>
  DynamoDB.registerDIDs: a registration without an administrator's credentials needs an active,
  unexpired password of the email, which is used up; every DID it returns is one of those asked for,
  was not registered before, and is active for that email afterwards; no other item is touched.
\<close>

theorem registerDIDs_results:
  assumes "registerDIDs now email otp ds False db = (Inr rs, db')"
  shows "(\<exists>i. get_item otp_key (email, otp) (otps db) = Some i \<and> otp_status i = OtpActive \<and> now < otp_expires i)
    \<and> (\<exists>j. get_item otp_key (email, otp) (otps db') = Some j \<and> otp_status j \<noteq> OtpActive)
    \<and> list_all didRegex ds \<and> dids_kept db db'
    \<and> (\<forall>r\<in>set rs. dr_did r \<in> set ds \<and> newly_registered now email db db' r)"
proof -
  obtain db1 where otp: "checkCorrectOTP now email otp db = (Inr True, db1)" and valid: "list_all didRegex ds"
    and each: "register_each now email otp ds db1 = (Inr rs, db')"
    using registerDIDs_Inr [OF assms] by auto
  obtain i j where i: "get_item otp_key (email, otp) (otps db) = Some i" "otp_status i = OtpActive" "now < otp_expires i"
    and j: "get_item otp_key (email, otp) (otps db1) = Some j" "otp_status j = OtpUsed" and same: "dids db1 = dids db"
    using checkCorrectOTP_True [OF otp] .
  have "otps_later db1 db'" using otp_history.obeysD [OF obeys_register_each(2) each] .
  then have "\<exists>j. get_item otp_key (email, otp) (otps db') = Some j \<and> otp_status j \<noteq> OtpActive"
    using j unfolding otps_later_def by (metis otp_status.distinct(5))
  moreover have "dids_kept db db'"
    using kept_history.obeysD [OF obeys_kept_each each] same by (simp add: dids_kept_def)
  moreover have "\<forall>r\<in>set rs. dr_did r \<in> set ds \<and> newly_registered now email db db' r"
    using register_each_results [OF each] same by (simp add: newly_registered_def)
  ultimately show ?thesis using i valid by blast
qed


text \<open>
  C28 (DynamoDB._checkCorrectOTP): a password that let a registration or a revocation through lets
  no other one through, ever: later registrations with it fail, later revocations give nothing, and
  neither changes a DID.
\<close>

theorem otp_used_once:
  assumes "(\<exists>ds rs. registerDIDs now email otp ds False db = (Inr rs, db1))
      \<or> (\<exists>did r. revokeDID now email otp did db = (Inr (Some r), db1))"
    and "registry_step\<^sup>*\<^sup>* db1 db2"
  shows "(\<forall>rs db3. registerDIDs now2 email otp ds2 False db2 \<noteq> (Inr rs, db3))
    \<and> (\<forall>r db3. revokeDID now2 email otp did2 db2 \<noteq> (Inr (Some r), db3))
    \<and> dids (snd (registerDIDs now2 email otp ds2 False db2)) = dids db2
    \<and> dids (snd (revokeDID now2 email otp did2 db2)) = dids db2"
proof -
  have "\<exists>j. get_item otp_key (email, otp) (otps db1) = Some j \<and> otp_status j \<noteq> OtpActive"
    using assms(1)
  proof (elim disjE exE)
    fix did r
    assume "revokeDID now email otp did db = (Inr (Some r), db1)"
    then obtain db0 where otp: "checkCorrectOTP now email otp db = (Inr True, db0)"
      and rev: "revoke_command now email did db0 = (Inr r, db1)" by (rule revokeDID_Some)
    obtain j where "get_item otp_key (email, otp) (otps db0) = Some j" "otp_status j = OtpUsed"
      using checkCorrectOTP_True [OF otp] .
    then show ?thesis
      using otp_history.obeysD [OF obeys_revoke_command(2) rev] unfolding otps_later_def
      by (metis otp_status.distinct(5))
  qed (use registerDIDs_results in blast)
  then obtain j where j: "get_item otp_key (email, otp) (otps db2) = Some j" "otp_status j \<noteq> OtpActive"
    using run_history(2) [OF assms(2)] unfolding otps_later_def by metis
  obtain v db3 where v: "checkCorrectOTP now2 email otp db2 = (v, db3)" by (cases "checkCorrectOTP now2 email otp db2")
  have "v \<noteq> Inr True" "dids db3 = dids db2"
    using checkCorrectOTP_spent [OF j, of now2] v by simp_all
  then show ?thesis
    using v by (auto simp: registerDIDs_def revokeDID_def andThen_def giveBack_def raise_error_def split: sum.splits)
qed

text \<open>
  C30 (DynamoDB.revokeDID): when no command fails, a revocation succeeds exactly with an active,
  unexpired password of the email, for a registered DID that is not revoked and whose email
  \emph{contains} the given one; the answer names the email of the registration.
\<close>

theorem revokeDID_iff:
  assumes "faults db = []"
  shows "(\<exists>db'. revokeDID now email otp did db = (Inr (Some (e, d, s)), db')) \<longleftrightarrow>
    (\<exists>i. get_item otp_key (email, otp) (otps db) = Some i \<and> otp_status i = OtpActive \<and> now < otp_expires i)
    \<and> (\<exists>i owner. get_item did_key (did, INITIAL_NONCE) (dids db) = Some i \<and> did_status i \<noteq> Some DidRevoked
         \<and> did_email i = Some owner \<and> js_includes owner email \<and> (e, d, s) = (Some owner, did, Some DidRevoked))"
  (is "?L \<longleftrightarrow> ?R")
proof
  assume ?L
  then obtain db1 where otp: "checkCorrectOTP now email otp db = (Inr True, db1)"
    and rev: "\<exists>db'. revoke_command now email did db1 = (Inr (e, d, s), db')" using revokeDID_Some by metis
  obtain i where "get_item otp_key (email, otp) (otps db) = Some i" "otp_status i = OtpActive" "now < otp_expires i"
    and same: "dids db1 = dids db" using checkCorrectOTP_True [OF otp] by metis
  then show ?R using rev by (auto simp flip: same elim!: revoke_command_done)
next
  assume ?R
  then obtain i j owner where i: "get_item otp_key (email, otp) (otps db) = Some i" "otp_status i = OtpActive" "now < otp_expires i"
    and j: "get_item did_key (did, INITIAL_NONCE) (dids db) = Some j" "did_status j \<noteq> Some DidRevoked"
      "did_email j = Some owner" "js_includes owner email" "e = Some owner" "d = did" "s = Some DidRevoked" by auto
  have "\<exists>db1. checkCorrectOTP now email otp db = (Inr True, db1) \<and> dids db1 = dids db \<and> faults db1 = []"
    using assms i by (simp add: checkCorrectOTP_def handled_def send_def)
  then obtain db1 where otp: "checkCorrectOTP now email otp db = (Inr True, db1)" "dids db1 = dids db" "faults db1 = []"
    by blast
  have "\<exists>db'. revoke_command now email did db1 = (Inr (e, d, s), db')"
    using otp(2,3) j by (auto simp: revoke_command_def send_def split: option.split)
  with otp(1) show ?L by (auto simp: revokeDID_def command_defs)
qed

lemma emails_under_first_nonce:
  assumes "registry_step\<^sup>*\<^sup>* \<lparr>otps = [], dids = [], configs = [], faults = fs\<rparr> db"
  shows "\<forall>i\<in>set (dids db). did_email i = None \<or> snd (did_key i) = INITIAL_NONCE"
  using assms
proof (induction rule: rtranclp_induct)
  case (step a b)
  have put: "\<forall>i\<in>set (dids (snd (put_new_did x a))). did_email i = None \<or> snd (did_key i) = INITIAL_NONCE"
    if "did_email x = None \<or> snd (did_key x) = INITIAL_NONCE" for x
    using step.IH that by (auto simp: put_new_did_def send_def put_item_def split: list.split fault.split)
  from step(2) show ?case
  proof (cases rule: registry_step.cases)
    case (revoke now email did)
    then show ?thesis using step.IH
      by (auto simp: revoke_command_def send_def change_item_def split: list.split fault.split option.split)
  next
    case (new_did now email did)
    then show ?thesis using put [of "registration now email did"] by (simp add: registration_def)
  next
    case (new_nonce now did nonce)
    then show ?thesis using put [of "nonce_item now did nonce"] by (simp add: nonce_item_def)
  qed (use step.IH in \<open>auto simp: updateOTP_def addOTP_def checkCorrectOTP_def updateConfig_def handled_def send_def
      command_defs split: list.split fault.split option.split\<close>)
qed simp

text \<open>
  DynamoDB.getEmail: it looks under the key of the DID twice, while registrations are stored
  under the DID and the first nonce: in every state the registry can reach, no email is found.
\<close>

theorem getEmail_finds_nothing:
  assumes "registry_step\<^sup>*\<^sup>* \<lparr>otps = [], dids = [], configs = [], faults = fs\<rparr> db" and "did \<noteq> INITIAL_NONCE"
  shows "fst (getEmail did db) = Inr None"
proof -
  have "did_email i = None" if "get_item did_key (did, did) (dids db) = Some i" for i
    using emails_under_first_nonce [OF assms(1)] assms(2) that
    by (auto simp: get_item_def dest!: find_some_mem)
  then show ?thesis
    by (auto simp: getEmail_def handled_def andThen_def send_def giveBack_def split: list.split fault.split option.split)
qed

section \<open>Verification codes\<close>

definition active_otps :: "string \<Rightarrow> registry \<Rightarrow> otp_item list" where
  "active_otps email db = filter (\<lambda>i. fst (otp_key i) = email \<and> otp_status i = OtpActive) (otps db)"

lemma getActiveOTPs_run:
  assumes "faults db = []" and "length (filter (\<lambda>i. fst (otp_key i) = email) (otps db)) \<le> page"
  shows "getActiveOTPs page email db = (Inr (active_otps email db), db)"
  using assms by (simp add: getActiveOTPs_def send_def active_otps_def conj_commute)

definition expire_items :: "int \<Rightarrow> item_key set \<Rightarrow> otp_item list \<Rightarrow> otp_item list" where
  "expire_items now ks = map (\<lambda>i. if otp_key i \<in> ks then i\<lparr>otp_status := OtpExpired, otp_updated := now\<rparr> else i)"

lemma expire_all_run:
  assumes "faults db = []" and "distinct (map otp_key is)"
    and "\<forall>i\<in>set is. \<exists>j. get_item otp_key (otp_key i) (otps db) = Some j \<and> otp_status j \<noteq> OtpExpired"
  shows "expire_all now is db = (Inr (), db\<lparr>otps := expire_items now (otp_key ` set is) (otps db)\<rparr>)"
  using assms
proof (induction "is" arbitrary: db)
  case Nil
  have "expire_items now {} = (\<lambda>xs. xs)" by (simp add: expire_items_def)
  then show ?case by (simp add: giveBack_def)
next
  case (Cons i "is")
  define db1 where "db1 = db\<lparr>otps := change_item otp_key (otp_key i)
      (\<lambda>j. j\<lparr>otp_status := OtpExpired, otp_updated := now\<rparr>) (otps db)\<rparr>"
  have one: "expireOTP now i db = (Inr (), db1)"
    using Cons.prems(1,3) by (auto simp: expireOTP_def updateOTP_def send_def db1_def)
  have "expire_all now is db1 = (Inr (), db1\<lparr>otps := expire_items now (otp_key ` set is) (otps db1)\<rparr>)"
  proof (rule Cons.IH)
    show "\<forall>x\<in>set is. \<exists>j. get_item otp_key (otp_key x) (otps db1) = Some j \<and> otp_status j \<noteq> OtpExpired"
      using Cons.prems(2,3) by (auto simp: db1_def image_iff)
  qed (use Cons.prems in \<open>auto simp: db1_def\<close>)
  then show ?case
    using one by (auto simp: andThen_def db1_def expire_items_def change_item_def comp_def intro!: registry.equality)
qed

lemma expire_items_others:
  assumes "\<forall>k\<in>ks. fst k = email"
  shows "filter (\<lambda>i. fst (otp_key i) \<noteq> email) (expire_items now ks xs) = filter (\<lambda>i. fst (otp_key i) \<noteq> email) xs"
  using assms by (induction xs) (auto simp: expire_items_def)

text \<open>
  createEmailVerificationCode: when no command fails and the passwords of the email fit into
  one page, the code that was sent is afterwards the only active password of the email, it expires
  in half an hour, and the passwords of other emails are as before.
\<close>

theorem verification_code_only_active:
  assumes "faults db = []" and "distinct (map otp_key (otps db))"
    and "length (filter (\<lambda>i. fst (otp_key i) = email) (otps db)) \<le> page"
    and "createEmailVerificationCode page now otp email db = (r, db')"
  shows "r = Inr (Some otp) \<and> map otp_key (active_otps email db') = [(email, otp)]
    \<and> (\<forall>i\<in>set (active_otps email db'). otp_expires i = now + 1800)
    \<and> filter (\<lambda>i. fst (otp_key i) \<noteq> email) (otps db') = filter (\<lambda>i. fst (otp_key i) \<noteq> email) (otps db)"
proof -
  let ?active = "active_otps email db" and ?new = "\<lparr>otp_key = (email, otp), otp_attempts = 0, otp_status = OtpActive,
        otp_created = now, otp_updated = now, otp_expires = now + 30 * 60\<rparr>"
  define expired where "expired = expire_items now (otp_key ` set ?active) (otps db)"
  have sub: "i \<in> set (otps db) \<and> otp_status i = OtpActive" if "i \<in> set ?active" for i
    using that by (simp add: active_otps_def)
  have "expire_all now ?active db = (Inr (), db\<lparr>otps := expired\<rparr>)"
    unfolding expired_def
  proof (rule expire_all_run [OF assms(1)])
    show "distinct (map otp_key ?active)"
      using assms(2) by (simp add: active_otps_def distinct_map_filter)
    show "\<forall>i\<in>set ?active. \<exists>j. get_item otp_key (otp_key i) (otps db) = Some j \<and> otp_status j \<noteq> OtpExpired"
      using sub assms(2) find_unique_key [of otp_key "otps db"] by (fastforce simp: get_item_def)
  qed
  then have run: "createEmailVerificationCode page now otp email db
      = (Inr (Some otp), db\<lparr>otps := put_item otp_key ?new expired\<rparr>)"
    using getActiveOTPs_run [OF assms(1,3)] assms(1)
    by (simp add: createEmailVerificationCode_def new_verification_code_def addOTP_def send_def command_defs)
  have none: "\<not> (fst (otp_key i) = email \<and> otp_status i = OtpActive)" if mem: "i \<in> set expired" for i
  proof -
    obtain j where j: "j \<in> set (otps db)"
      "i = (if otp_key j \<in> otp_key ` set ?active then j\<lparr>otp_status := OtpExpired, otp_updated := now\<rparr> else j)"
      using mem unfolding expired_def expire_items_def set_map by blast
    show ?thesis
    proof (cases "j \<in> set ?active")
      case False
      then have "\<not> (fst (otp_key j) = email \<and> otp_status j = OtpActive)" using j(1) by (simp add: active_otps_def)
      then show ?thesis using j(2) by (simp split: if_splits)
    qed (use j(2) in simp)
  qed
  have others: "filter (\<lambda>i. fst (otp_key i) \<noteq> email) expired = filter (\<lambda>i. fst (otp_key i) \<noteq> email) (otps db)"
    unfolding expired_def by (rule expire_items_others) (auto simp: active_otps_def)
  have "active_otps email (db\<lparr>otps := put_item otp_key ?new expired\<rparr>) = [?new]"
    using none by (auto simp: active_otps_def put_item_def filter_empty_conv)
  moreover have "filter (\<lambda>i. fst (otp_key i) \<noteq> email) (put_item otp_key ?new expired)
      = filter (\<lambda>i. fst (otp_key i) \<noteq> email) expired"
    by (auto simp: put_item_def intro!: filter_cong)
  ultimately show ?thesis using run others assms(4) by auto
qed

section \<open>Examples\<close>

text \<open>
  Two registered DIDs and an active password each of two emails, one of which is contained in
  the other.
\<close>

definition example_registry :: registry where
  "example_registry = \<lparr>
     otps = [\<lparr>otp_key = (''bob@x.io'', ''p1''), otp_attempts = 0, otp_status = OtpActive, otp_created = 0,
                otp_updated = 0, otp_expires = 1800\<rparr>,
             \<lparr>otp_key = (''notbob@x.io'', ''p2''), otp_attempts = 0, otp_status = OtpActive, otp_created = 0,
                otp_updated = 0, otp_expires = 1800\<rparr>],
     dids = [registration 0 ''bob@x.io'' ''did:key:b'', registration 0 ''notbob@x.io'' ''did:key:n''],
     configs = [], faults = []\<rparr>"

definition example_after_nonce :: registry where
  "example_after_nonce = snd (addNonce 5 ''did:key:b'' ''n1'' example_registry)"

definition example_after_register :: registry where
  "example_after_register = snd (registerDIDs 5 ''bob@x.io'' ''p1'' [''did:key:c'', ''did:key:n''] False example_registry)"

definition example_after_revoke :: registry where
  "example_after_revoke = snd (revokeDID 5 ''bob@x.io'' ''p1'' ''did:key:n'' example_registry)"


lemma example_register_run:
  "registerDIDs 5 ''bob@x.io'' ''p1'' [''did:key:c'', ''did:key:n''] False example_registry
     = (Inr [\<lparr>dr_email = ''bob@x.io'', dr_did = ''did:key:c'', dr_nonce = ''0'', dr_status = DidActive\<rparr>],
        example_after_register)"
proof -
  have "fst (registerDIDs 5 ''bob@x.io'' ''p1'' [''did:key:c'', ''did:key:n''] False example_registry)
     = Inr [\<lparr>dr_email = ''bob@x.io'', dr_did = ''did:key:c'', dr_nonce = ''0'', dr_status = DidActive\<rparr>]"
    by code_simp
  then show ?thesis by (simp add: example_after_register_def prod_eq_iff)
qed

lemma example_revoke_run:
  "revokeDID 5 ''bob@x.io'' ''p1'' ''did:key:n'' example_registry
     = (Inr (Some (Some ''notbob@x.io'', ''did:key:n'', Some DidRevoked)), example_after_revoke)"
proof -
  have "fst (revokeDID 5 ''bob@x.io'' ''p1'' ''did:key:n'' example_registry)
     = Inr (Some (Some ''notbob@x.io'', ''did:key:n'', Some DidRevoked))" by code_simp
  then show ?thesis by (simp add: example_after_revoke_def prod_eq_iff)
qed

theorem registerDIDs_results_witness:
  "newly_registered 5 ''bob@x.io'' example_registry example_after_register
     \<lparr>dr_email = ''bob@x.io'', dr_did = ''did:key:c'', dr_nonce = ''0'', dr_status = DidActive\<rparr>"
  using registerDIDs_results [OF example_register_run] by simp


theorem otp_used_once_witness:
  "\<exists>db. db = example_after_register
    \<and> fst (revokeDID 6 ''bob@x.io'' ''p1'' ''did:key:b'' db) \<noteq> Inr (Some (Some ''bob@x.io'', ''did:key:b'', Some DidRevoked))
    \<and> dids (snd (revokeDID 6 ''bob@x.io'' ''p1'' ''did:key:b'' db)) = dids db"
proof -
  have "\<exists>ds rs. registerDIDs 5 ''bob@x.io'' ''p1'' ds False example_registry = (Inr rs, example_after_register)"
    using example_register_run by blast
  from otp_used_once [OF disjI1 [OF this] rtranclp.rtrancl_refl, of 6 "[]" "''did:key:b''"] show ?thesis
    by (metis prod.collapse)
qed

theorem revokeDID_iff_witness:
  "\<exists>i. get_item did_key (''did:key:n'', INITIAL_NONCE) (dids example_registry) = Some i
    \<and> did_email i = Some ''notbob@x.io'' \<and> js_includes ''notbob@x.io'' ''bob@x.io''"
proof -
  have "faults example_registry = []" by (simp add: example_registry_def)
  from revokeDID_iff [OF this, of 5 "''bob@x.io''" "''p1''" "''did:key:n''" "Some ''notbob@x.io''" "''did:key:n''" "Some DidRevoked"]
  show ?thesis using example_revoke_run by auto
qed

theorem getEmail_finds_nothing_witness:
  "fst (getEmail ''did:key:b'' (snd (put_new_did (registration 0 ''bob@x.io'' ''did:key:b'')
     \<lparr>otps = [], dids = [], configs = [], faults = []\<rparr>))) = Inr None"
  by (rule getEmail_finds_nothing, rule r_into_rtranclp, rule registry_step.new_did) (simp add: INITIAL_NONCE_def)

theorem verification_code_only_active_witness:
  "\<exists>db'. createEmailVerificationCode 100 5 ''p3'' ''bob@x.io'' example_registry = (Inr (Some ''p3''), db')
    \<and> map otp_key (active_otps ''bob@x.io'' db') = [(''bob@x.io'', ''p3'')]"
proof -
  obtain r db' where run: "createEmailVerificationCode 100 5 ''p3'' ''bob@x.io'' example_registry = (r, db')"
    by (cases "createEmailVerificationCode 100 5 ''p3'' ''bob@x.io'' example_registry")
  have "faults example_registry = []" "distinct (map otp_key (otps example_registry))"
    "length (filter (\<lambda>i. fst (otp_key i) = ''bob@x.io'') (otps example_registry)) \<le> 100"
    by (simp_all add: example_registry_def)
  from verification_code_only_active [OF this run] run show ?thesis by (intro exI [of _ db']) simp
qed

end
