(* ===== verification/Auth_App.thy ===== *)
theory Auth_App
  imports Did_Registry_Laws Auth_Middleware
begin

text \<open>
  The authorization application around the registry: administrator credentials
  (\<open>src/auth/src/utils/auth.ts\<close>), the Lambda authorizer of the gateway
  (\<open>src/auth/src/authorizers\<close>), and the routes that hand out passwords, register and revoke DIDs and
  change the configuration (\<open>src/auth/src/routes\<close>, \<open>src/auth/src/services/aws/apiGateway.ts\<close>).
\<close>

section \<open>Administrator credentials\<close>

text \<open>
  Base 64 and SHA-256 (as \<open>0x\<close> and base 16) come from packages. Numbers are read as JavaScript's
  \<open>Number\<close> reads decimal integers; \<open>other_number\<close> stands for its reading of every other numeral.
\<close>

record cred_lib =
  base64 :: "string \<Rightarrow> string"
  unbase64 :: "string \<Rightarrow> string"
  sha256_hex :: "string \<Rightarrow> string"
  other_number :: "string \<Rightarrow> int option"

definition all_digits :: "string \<Rightarrow> bool" where
  "all_digits s \<longleftrightarrow> s \<noteq> [] \<and> list_all is_digit s"

definition js_number :: "cred_lib \<Rightarrow> string \<Rightarrow> int option" where
  "js_number lib s =
     (let t = js_trim s
      in if t = [] then Some 0
         else if all_digits t then Some (int (digits_val t))
         else if hd t = CHR ''-'' \<and> all_digits (tl t) then Some (- int (digits_val (tl t)))
         else other_number lib s)"

text \<open>\<open>xs[i]\<close> of an array that may be shorter.\<close>

definition part :: "nat \<Rightarrow> string list \<Rightarrow> string option" where
  "part i xs = list_get xs i"

record credentials =
  cr_username :: string
  cr_password :: "string option"
  cr_expiration :: int

text \<open>\<open>Number(undefined)\<close> is \<open>NaN\<close>, and a credential without a number is an error.\<close>

definition decodeAdminCredentials :: "cred_lib \<Rightarrow> string \<Rightarrow> credentials option" where
  "decodeAdminCredentials lib creds =
     (let parts = js_split (CHR '':'') (unbase64 lib creds);
          front = js_split (CHR ''#'') (hd parts)
      in case Option.bind (part 1 front) (js_number lib) of
           None \<Rightarrow> None
         | Some expiration \<Rightarrow>
             Some \<lparr>cr_username = hd front, cr_password = part 1 parts, cr_expiration = expiration\<rparr>)"

definition encodeAdminCredentials :: "cred_lib \<Rightarrow> int \<Rightarrow> string \<Rightarrow> string \<Rightarrow> int option \<Rightarrow> string" where
  "encodeAdminCredentials lib now username password expiration =
     (let e = (case expiration of Some t \<Rightarrow> if t = 0 then now + 4 * 3600 else t | None \<Rightarrow> now + 4 * 3600)
      in base64 lib (sha256_hex lib username @ ''#'' @ int_to_string e @ '':'' @ sha256_hex lib password))"

datatype admin_answer = Admin | NotAdmin | MalformedCredentials

text \<open>
  \<open>checkUserIsAdmin\<close>, for the name and password configured in the environment. The pattern
  \<open>/Basic .*/\<close> only asks for the word somewhere in the header; a missing second word makes
  \<open>Buffer.from(undefined)\<close> throw.
\<close>

definition checkUserIsAdmin :: "cred_lib \<Rightarrow> int \<Rightarrow> string option \<Rightarrow> string option \<Rightarrow> string \<Rightarrow> admin_answer" where
  "checkUserIsAdmin lib now admin_user admin_password authorization =
     (case (given admin_user, given admin_password) of
        (Some user, Some pass) \<Rightarrow>
          (if \<not> js_includes authorization ''Basic '' then NotAdmin
           else case Option.bind (part 1 (js_split (CHR '' '') authorization)) (decodeAdminCredentials lib) of
             None \<Rightarrow> MalformedCredentials
           | Some creds \<Rightarrow>
               (if cr_expiration creds < now then NotAdmin
                else if sha256_hex lib user = cr_username creds \<and> Some (sha256_hex lib pass) = cr_password creds
                then Admin else NotAdmin))
      | _ \<Rightarrow> NotAdmin)"

section \<open>The authorizer of the gateway\<close>

definition ALLOWED_IP_ADDRESSES :: "string list" where
  "ALLOWED_IP_ADDRESSES =
    [''40.86.207.149'', ''18.167.27.19'', ''44.196.239.180'', ''54.221.229.208'', ''47.241.24.129'',
     ''34.65.245.112'', ''34.88.123.94'', ''34.146.78.211'', ''45.63.127.179'', ''54.187.88.115'',
     ''44.239.24.88'', ''100.21.52.83'', ''52.89.209.47'', ''13.127.142.35'', ''40.69.126.140'',
     ''54.221.201.58'', ''44.195.240.8'', ''52.2.139.155'', ''52.20.196.100'', ''3.97.102.154'',
     ''3.98.11.18'', ''3.98.134.203'', ''217.102.168.211'', ''34.85.157.166'', ''54.163.72.187'',
     ''51.222.108.215'', ''3.211.186.83'', ''18.119.7.104'', ''157.90.36.57'', ''134.209.162.183'',
     ''134.209.170.202'', ''134.209.162.97'', ''101.35.25.157'', ''143.198.249.20'', ''3.223.132.101'',
     ''209.250.224.39'', ''185.130.44.194'', ''167.160.89.96'', ''162.55.216.67'', ''34.236.75.99'',
     ''35.170.181.124'', ''144.202.24.120'', ''64.225.91.133'', ''143.198.245.21'', ''137.184.244.223'',
     ''52.69.45.131'', ''52.22.126.62'', ''167.99.230.169'', ''13.41.237.174'', ''35.224.77.11'',
     ''52.14.160.9'', ''54.211.141.15'', ''3.215.201.143'', ''51.178.134.66'', ''18.219.208.129'',
     ''144.126.248.72'', ''157.245.135.141'', ''157.230.181.252'', ''157.230.181.128'', ''146.190.196.39'',
     ''206.189.255.126'', ''45.32.91.151'', ''35.84.164.207'', ''50.17.239.165'', ''167.99.152.53'']"

text \<open>The event the gateway passes on, and the documented behaviour of the packages it needs.\<close>

record gateway_event =
  ge_sourceIp :: string
  ge_methodArn :: string
  ge_authorization :: "string option"

record verify_lib =
  vl_jws :: "string \<Rightarrow> cas_error + jws_result"
  vl_uuid :: "string \<Rightarrow> bool"

text \<open>
  The policy that is returned, with the context the gateway forwards to the service as headers;
  \<open>Unauthorized\<close> is the callback with an error.
\<close>

record policy =
  pl_principal :: string
  pl_statement :: "(string \<times> string) option"      \<comment> \<open>effect and resource\<close>
  pl_usage_key :: "string option"
  pl_context :: "(string \<times> js_value) list"

definition generatePolicy :: "string \<Rightarrow> (string \<times> string) option \<Rightarrow> string option \<Rightarrow> (string \<times> js_value) list \<Rightarrow> policy" where
  "generatePolicy principalId statement usage_key ctx =
     \<lparr>pl_principal = principalId, pl_statement = statement, pl_usage_key = given usage_key,
      pl_context = (if given usage_key = None then [] else ctx)\<rparr>"

definition allowIp :: "gateway_event \<Rightarrow> policy" where
  "allowIp event = generatePolicy (ge_sourceIp event) (Some (''Allow'', ge_methodArn event)) (Some (ge_sourceIp event))
     [(''sourceIp'', Some (IString (ge_sourceIp event)))]"

text \<open>\<open>value.authorization.split('Bearer ')[1]\<close>\<close>

fun until_bearer :: "string \<Rightarrow> string" where
  "until_bearer [] = []"
| "until_bearer (c # cs) = (if js_starts_with (c # cs) ''Bearer '' then [] else c # until_bearer cs)"

fun after_bearer :: "string \<Rightarrow> string option" where
  "after_bearer [] = None"
| "after_bearer (c # cs) =
     (if js_starts_with (c # cs) ''Bearer '' then Some (until_bearer (drop 7 (c # cs))) else after_bearer cs)"

text \<open>\<open>utils/did.ts\<close>: the verifier is a package, whose errors \<open>checkValidSignature\<close> logs.\<close>

definition parseSignature :: "verify_lib \<Rightarrow> string \<Rightarrow> cas_error + jws_result" where
  "parseSignature lib jws = vl_jws lib jws"

definition checkValidDID :: "string \<Rightarrow> bool" where
  "checkValidDID did = didRegex did"

definition checkValidSignature :: "verify_lib \<Rightarrow> string \<Rightarrow> string \<Rightarrow> bool" where
  "checkValidSignature lib did jws =
     (if did \<noteq> [] \<and> jws \<noteq> []
      then (case parseSignature lib jws of Inl err \<Rightarrow> False | Inr result \<Rightarrow> jws_did result = Some did)
      else False)"

definition allowRegisteredDID :: "verify_lib \<Rightarrow> int \<Rightarrow> gateway_event \<Rightarrow> string \<Rightarrow> policy option command" where
  "allowRegisteredDID lib now event jws =
     (case parseSignature lib jws of
        Inl err \<Rightarrow> giveBack None
      | Inr result \<Rightarrow>
          (case (given (jws_did result), opt_prop (jws_payload result) ''nonce'') of
             (Some did, Some (IString nonce)) \<Rightarrow>
               (if nonce = [] \<or> \<not> didRegex did \<or> \<not> vl_uuid lib nonce then giveBack None
                else andThen (addNonce now did nonce) (\<lambda>added.
                  giveBack (if added = Some (did, nonce)
                    then Some (generatePolicy did (Some (''Allow'', ge_methodArn event)) (Some did)
                      [(''did'', Some (IString did)), (''digest'', opt_prop (jws_payload result) ''digest''),
                       (''sourceIp'', Some (IString (ge_sourceIp event)))])
                    else None)))
           | _ \<Rightarrow> giveBack None))"

definition authorize :: "verify_lib \<Rightarrow> bool \<Rightarrow> int \<Rightarrow> gateway_event \<Rightarrow> policy option command" where
  "authorize lib testnet now event =
     (if testnet then giveBack (Some (allowIp event))
      else if ge_sourceIp event \<in> set ALLOWED_IP_ADDRESSES then giveBack (Some (allowIp event))
      else case given (ge_authorization event) of
        None \<Rightarrow> giveBack None
      | Some auth_header \<Rightarrow>
          (if \<not> js_includes auth_header ''Bearer '' then giveBack None
           else case Option.bind (after_bearer auth_header) (\<lambda>t. given (Some t)) of
             None \<Rightarrow> giveBack None
           | Some jws \<Rightarrow> allowRegisteredDID lib now event jws))"

section \<open>Credentials round trip\<close>

text \<open>What the packages document: base 64 can be decoded, and a hash is a word of letters and digits.\<close>

definition faithful_creds :: "cred_lib \<Rightarrow> bool" where
  "faithful_creds lib \<longleftrightarrow> (\<forall>s. unbase64 lib (base64 lib s) = s) \<and> (\<forall>s. CHR '' '' \<notin> set (base64 lib s))
     \<and> (\<forall>s. CHR '':'' \<notin> set (sha256_hex lib s) \<and> CHR ''#'' \<notin> set (sha256_hex lib s))"

lemma js_trim_plain: "\<forall>c\<in>set s. \<not> is_space c \<Longrightarrow> js_trim s = s"
  by (simp add: js_trim_def dropWhile_eq_self_iff hd_in_set flip: hd_rev)
    (metis dropWhile_eq_self_iff hd_in_set list.set_intros(1) rev_is_rev_conv rev_rev_ident set_rev)

lemma digit_plain: "is_digit c \<Longrightarrow> \<not> is_space c \<and> c \<noteq> CHR '':'' \<and> c \<noteq> CHR ''#'' \<and> c \<noteq> CHR ''-''"
  by (auto simp: is_digit_def is_space_def)

lemma int_to_string_chars:
  assumes "c \<in> set (int_to_string n)"
  shows "\<not> is_space c \<and> c \<noteq> CHR '':'' \<and> c \<noteq> CHR ''#''"
proof (cases "c = CHR ''-''")
  case False
  then have "is_digit c" using assms by (auto simp: int_to_string_def nat_to_string_digits split: if_splits)
  then show ?thesis by (simp add: digit_plain)
qed (simp add: is_space_def)

lemma int_to_string_no_sep: "CHR '':'' \<notin> set (int_to_string n)" "CHR ''#'' \<notin> set (int_to_string n)"
  using int_to_string_chars by blast+

lemma all_digits_nat [simp]: "all_digits (nat_to_string n)"
  by (simp add: all_digits_def list_all_iff nat_to_string_digits)

lemma js_number_int: "js_number lib (int_to_string n) = Some n"
proof -
  have trim: "js_trim (int_to_string n) = int_to_string n"
    using int_to_string_chars by (blast intro: js_trim_plain)
  show ?thesis
    using trim by (auto simp: js_number_def Let_def int_to_string_def digits_val_nat_to_string all_digits_def is_digit_def
        list_all_iff dest: nat_to_string_digits)
qed

lemma decode_credentials:
  assumes "faithful_creds lib"
  shows "decodeAdminCredentials lib (base64 lib (sha256_hex lib u @ ''#'' @ int_to_string t @ '':'' @ sha256_hex lib p))
     = Some \<lparr>cr_username = sha256_hex lib u, cr_password = Some (sha256_hex lib p), cr_expiration = t\<rparr>"
proof -
  let ?u = "sha256_hex lib u" and ?p = "sha256_hex lib p"
  have "CHR '':'' \<notin> set (?u @ CHR ''#'' # int_to_string t)"
    using assms int_to_string_no_sep by (auto simp: faithful_creds_def)
  then have parts: "js_split (CHR '':'') ((?u @ CHR ''#'' # int_to_string t) @ CHR '':'' # ?p)
      = [?u @ CHR ''#'' # int_to_string t, ?p]"
    using assms by (subst js_split_append_sep) (auto simp: js_split_plain faithful_creds_def)
  have "js_split (CHR ''#'') (?u @ CHR ''#'' # int_to_string t) = [?u, int_to_string t]"
    using assms int_to_string_no_sep by (subst js_split_append_sep) (auto simp: js_split_plain faithful_creds_def)
  then show ?thesis
    using assms parts by (simp add: decodeAdminCredentials_def faithful_creds_def part_def list_get_def js_number_int)
qed

text \<open>
  utils/auth.ts: the credentials made for a name and a password count as the administrator's
  exactly until they expire, and exactly when both hash like the configured ones; without an explicit
  time they expire four hours after they were made.
\<close>

theorem admin_credentials_roundtrip:
  assumes "faithful_creds lib" and "user \<noteq> []" and "pass \<noteq> []"
  shows "checkUserIsAdmin lib now (Some user) (Some pass) (''Basic '' @ encodeAdminCredentials lib made name word expiration)
    = (if (case expiration of Some t \<Rightarrow> if t = 0 then made + 14400 else t | None \<Rightarrow> made + 14400) \<ge> now
          \<and> sha256_hex lib user = sha256_hex lib name \<and> sha256_hex lib pass = sha256_hex lib word
       then Admin else NotAdmin)"
proof -
  define e where "e = (case expiration of Some t \<Rightarrow> if t = 0 then made + 14400 else t | None \<Rightarrow> made + 14400)"
  define creds where "creds = base64 lib (sha256_hex lib name @ ''#'' @ int_to_string e @ '':'' @ sha256_hex lib word)"
  have encode: "encodeAdminCredentials lib made name word expiration = creds"
    by (simp add: encodeAdminCredentials_def e_def creds_def Let_def split: option.split)
  have "CHR '' '' \<notin> set creds" using assms(1) by (simp add: faithful_creds_def creds_def)
  then have "js_split (CHR '' '') (''Basic '' @ creds) = [''Basic'', creds]"
    by (simp add: js_split_plain)
  moreover have "js_includes (''Basic '' @ creds) ''Basic ''" by (auto simp: js_includes_iff)
  ultimately show ?thesis
    using assms decode_credentials [OF assms(1), of name e word, folded creds_def]
    unfolding encode by (simp add: checkUserIsAdmin_def part_def list_get_def flip: e_def)
qed

section \<open>The authorizer admits a signature once\<close>

lemma allowRegisteredDID_Some:
  assumes "allowRegisteredDID lib now event jws db = (Inr (Some p), db')"
  obtains result did nonce where "vl_jws lib jws = Inr result" and "jws_did result = Some did"
    and "opt_prop (jws_payload result) ''nonce'' = Some (IString nonce)"
    and "addNonce now did nonce db = (Inr (Some (did, nonce)), db')"
    and "p = generatePolicy did (Some (''Allow'', ge_methodArn event)) (Some did)
      [(''did'', Some (IString did)), (''digest'', opt_prop (jws_payload result) ''digest''),
       (''sourceIp'', Some (IString (ge_sourceIp event)))]"
  using assms
  by (auto simp: allowRegisteredDID_def parseSignature_def andThen_Inr split: sum.splits option.splits ipld.splits if_splits)

lemma authorize_Some:
  assumes "authorize lib False now event db = (Inr (Some p), db')" and "ge_sourceIp event \<notin> set ALLOWED_IP_ADDRESSES"
  obtains h jws where "given (ge_authorization event) = Some h" and "after_bearer h = Some jws" and "jws \<noteq> []"
    and "allowRegisteredDID lib now event jws db = (Inr (Some p), db')"
  using assms
  by (auto simp: authorize_def giveBack_def given_Some split: option.splits if_splits bind_splits)

lemma authorize_defined: "\<exists>v. fst (authorize lib testnet now event db) = Inr v"
proof -
  have "\<exists>v. fst (allowRegisteredDID lib now event jws db) = Inr v" for jws
    using addNonce_defined
    by (auto simp: allowRegisteredDID_def andThen_def giveBack_def split: sum.split option.split ipld.split prod.split)
      (metis Inl_Inr_False fst_conv)+
  then show ?thesis
    by (auto simp: authorize_def giveBack_def split: option.split)
qed


section \<open>Examples\<close>

text \<open>A code without white space that can be undone: each character as two letters.\<close>

definition letter :: "nat \<Rightarrow> char" where
  "letter n = char_of (65 + n)"

fun two_letters :: "string \<Rightarrow> string" where
  "two_letters [] = []"
| "two_letters (c # cs) = letter (of_char c div 16) # letter (of_char c mod 16) # two_letters cs"

fun from_letters :: "string \<Rightarrow> string" where
  "from_letters (a # b # cs) = char_of ((of_char a - 65) * 16 + (of_char b - 65) :: nat) # from_letters cs"
| "from_letters cs = []"

lemma of_char_letter: "n < 16 \<Longrightarrow> (of_char (letter n) :: nat) = 65 + n"
  by (simp add: letter_def)

lemma of_char_256: "(of_char (c :: char) :: nat) < 256"
  using of_char_mod_256 [of c, where 'a = nat] by (metis mod_less_divisor zero_less_numeral)

lemma from_two_letters: "from_letters (two_letters s) = s"
proof (induction s)
  case (Cons c cs)
  have "(of_char c :: nat) div 16 < 16" "(of_char c :: nat) mod 16 < 16"
    using of_char_256 [of c] by (simp_all add: div_less_iff_less_mult)
  then show ?case using Cons by (simp add: of_char_letter)
qed simp

lemma two_letters_plain: "CHR '' '' \<notin> set (two_letters s)"
proof (induction s)
  case (Cons c cs)
  have plain: "CHR '' '' \<noteq> letter n" if "n < 16" for n
  proof
    assume "CHR '' '' = letter n"
    then have "(of_char (CHR '' '') :: nat) = 65 + n" using of_char_letter [OF that] by simp
    then show False by simp
  qed
  have "(of_char c :: nat) div 16 < 16" "(of_char c :: nat) mod 16 < 16"
    using of_char_256 [of c] by (simp_all add: div_less_iff_less_mult)
  then show ?case using Cons plain by simp
qed simp

definition example_base64 :: cred_lib where
  "example_base64 = \<lparr>base64 = two_letters, unbase64 = from_letters,
     sha256_hex = (\<lambda>s. if s = ''root'' then ''0x1'' else ''0x2''), other_number = (\<lambda>_. None)\<rparr>"

theorem admin_credentials_roundtrip_witness:
  "checkUserIsAdmin example_base64 20000 (Some ''root'') (Some ''secret'')
      (''Basic '' @ encodeAdminCredentials example_base64 10000 ''root'' ''secret'' None) = Admin"
proof -
  have "faithful_creds example_base64"
    using from_two_letters two_letters_plain by (simp add: faithful_creds_def example_base64_def)
  then show ?thesis by (subst admin_credentials_roundtrip) simp_all
qed

definition example_verify :: verify_lib where
  "example_verify = \<lparr>vl_jws = (\<lambda>t. if t = ''jws'' then Inr \<lparr>jws_did = Some ''did:key:b'',
        jws_payload = Some (IMap [(''nonce'', IString ''n1''), (''digest'', IString ''0xab'')])\<rparr>
      else Inl (LibraryError ''invalid signature'')), vl_uuid = (\<lambda>_. True)\<rparr>"

definition example_event :: gateway_event where
  "example_event = \<lparr>ge_sourceIp = ''10.0.0.1'', ge_methodArn = ''arn'', ge_authorization = Some ''Bearer jws''\<rparr>"


end
