(* ===== verification/Auth_Routes.thy ===== *)
theory Auth_Routes
  imports Auth_App
begin

text \<open>
  The routes of the authorization application (\<open>src/auth/src/routes\<close>) over the registry, the keys of
  the API gateway (\<open>src/auth/src/services/aws/apiGateway.ts\<close>) and the mails it sends.
\<close>

section \<open>API keys\<close>

record api_key =
  key_id :: nat
  key_user :: string
  key_value :: string
  key_enabled :: bool

text \<open>
  The gateway: its keys, the keys of the usage plan, the next fresh id, and which of the next
  calls fail (without effect).
\<close>

record gateway =
  gw_keys :: "api_key list"
  gw_plan :: "nat list"
  gw_next :: nat
  gw_fails :: "bool list"

definition gateway_call :: "(gateway \<Rightarrow> 'a \<times> gateway) \<Rightarrow> gateway \<Rightarrow> 'a option \<times> gateway" where
  "gateway_call run gw =
     (case gw_fails gw of
        True # fs \<Rightarrow> (None, gw\<lparr>gw_fails := fs\<rparr>)
      | False # fs \<Rightarrow> (case run (gw\<lparr>gw_fails := fs\<rparr>) of (x, gw') \<Rightarrow> (Some x, gw'))
      | [] \<Rightarrow> (case run gw of (x, gw') \<Rightarrow> (Some x, gw')))"

definition registerAPIKey :: "string \<Rightarrow> string \<Rightarrow> gateway \<Rightarrow> nat option \<times> gateway" where
  "registerAPIKey user v gw =
     (case gateway_call (\<lambda>gw. (gw_next gw, gw\<lparr>gw_next := gw_next gw + 1,
             gw_keys := gw_keys gw @ [\<lparr>key_id = gw_next gw, key_user = user, key_value = v, key_enabled = True\<rparr>]\<rparr>)) gw of
        (None, gw1) \<Rightarrow> (None, gw1)
      | (Some i, gw1) \<Rightarrow> gateway_call (\<lambda>gw. (i, gw\<lparr>gw_plan := gw_plan gw @ [i]\<rparr>)) gw1)"

text \<open>\<open>createApiKeys\<close> stops at the first call that fails; \<open>False\<close> is the error.\<close>

fun createApiKeys :: "(string \<times> string) list \<Rightarrow> gateway \<Rightarrow> bool \<times> gateway" where
  "createApiKeys [] gw = (True, gw)"
| "createApiKeys ((user, v) # users) gw =
     (case registerAPIKey user v gw of
        (None, gw1) \<Rightarrow> (False, gw1)
      | (Some _, gw1) \<Rightarrow> createApiKeys users gw1)"

definition PAGE_LIMIT :: nat where
  "PAGE_LIMIT = 100"

text \<open>
  The search of \<open>disableApiKey\<close> through the answers to \<open>getApiKeys\<close>: every round sends the same request.
  \<open>None\<close>: still searching when the given answers are used up.
\<close>

fun search_key :: "string \<Rightarrow> api_key list option list \<Rightarrow> api_key option option" where
  "search_key v [] = None"
| "search_key v (None # answers) = Some None"
| "search_key v (Some items # answers) =
     (case find (\<lambda>k. key_value k = v) items of
        Some k \<Rightarrow> Some (Some k)
      | None \<Rightarrow> if length items < PAGE_LIMIT then Some None else search_key v answers)"

text \<open>
  ApiGateway.disableApiKey: the search ends with a key that has the value, or without one after
  an answer that is not a full page; but as long as the gateway gives the same full page without the
  value, which is what it does for a request that never changes, it does not end.
\<close>

theorem search_key_loops:
  shows "(search_key v answers = Some (Some k) \<longrightarrow> key_value k = v \<and> (\<exists>items. Some items \<in> set answers \<and> k \<in> set items))
    \<and> (search_key v answers = Some None \<longrightarrow>
         (\<exists>a\<in>set answers. case a of None \<Rightarrow> True | Some items \<Rightarrow> length items < PAGE_LIMIT \<and> (\<forall>k\<in>set items. key_value k \<noteq> v)))
    \<and> (PAGE_LIMIT \<le> length full \<and> (\<forall>k\<in>set full. key_value k \<noteq> v) \<longrightarrow> search_key v (replicate n (Some full)) = None)"
proof (intro conjI impI)
  show "search_key v answers = Some (Some k) \<Longrightarrow> key_value k = v"
    and "search_key v answers = Some (Some k) \<Longrightarrow> \<exists>items. Some items \<in> set answers \<and> k \<in> set items"
    by (induction v answers rule: search_key.induct) (auto split: option.splits if_splits dest: find_some_mem)
  show "search_key v answers = Some None \<Longrightarrow>
      \<exists>a\<in>set answers. case a of None \<Rightarrow> True | Some items \<Rightarrow> length items < PAGE_LIMIT \<and> (\<forall>k\<in>set items. key_value k \<noteq> v)"
    by (induction v answers rule: search_key.induct) (auto simp: find_none_iff split: option.splits if_splits)
  show "PAGE_LIMIT \<le> length full \<and> (\<forall>k\<in>set full. key_value k \<noteq> v) \<Longrightarrow> search_key v (replicate n (Some full)) = None"
    by (induction n) (auto simp: find_none_iff [THEN iffD2])
qed

definition disable_key :: "nat \<Rightarrow> gateway \<Rightarrow> gateway" where
  "disable_key i gw = gw\<lparr>gw_keys := map (\<lambda>k. if key_id k = i then k\<lparr>key_enabled := False\<rparr> else k) (gw_keys gw)\<rparr>"

section \<open>Routes\<close>

record auth_world =
  aw_db :: registry
  aw_gateway :: gateway
  aw_mails :: "(string \<times> string) list"

datatype auth_reply =
    CodeSent
  | AtCapacity
  | Registered "did_result list"
  | Revoked "string option" string "did_status option"
  | ConfigIs js_value
  | RegistrationFailed registry_error   \<comment> \<open>the errors below are answered with status 400\<close>
  | NoNewDIDs
  | GatewayFailed
  | NotRevoked
  | Unavailable
  | Unauthorized
  | Failed
  | InternalError

text \<open>A command of the registry in the world of the routes.\<close>

definition on_db :: "'a command \<Rightarrow> auth_world \<Rightarrow> (registry_error + 'a) \<times> auth_world" where
  "on_db m w = (case m (aw_db w) of (r, db) \<Rightarrow> (r, w\<lparr>aw_db := db\<rparr>))"

definition post_verification :: "nat \<Rightarrow> int \<Rightarrow> string \<Rightarrow> bool \<Rightarrow> string \<Rightarrow> auth_world \<Rightarrow> auth_reply \<times> auth_world" where
  "post_verification page now otp mail_fails email w =
     (case on_db (createEmailVerificationCode page now otp email) w of
        (Inr (Some code), w1) \<Rightarrow>
          (if code = [] then (Unavailable, w1)
           else if mail_fails then (InternalError, w1)
           else (CodeSent, w1\<lparr>aw_mails := aw_mails w1 @ [(email, code)]\<rparr>))
      | (_, w1) \<Rightarrow> (Unavailable, w1))"

text \<open>JavaScript's \<open>v == false\<close>, by way of numbers: \<open>null\<close>, \<open>undefined\<close> and objects are not equal to it.\<close>

fun loosely_false :: "cred_lib \<Rightarrow> js_value \<Rightarrow> bool" where
  "loosely_false lib None = False"
| "loosely_false lib (Some (IBool b)) = (\<not> b)"
| "loosely_false lib (Some (IInt i)) = (i = 0)"
| "loosely_false lib (Some (IString s)) = (js_number lib s = Some 0)"
| "loosely_false lib (Some (IBytes bs)) = (bs = [] \<or> bs = [0])"
| "loosely_false lib (Some (ILink c)) = False"
| "loosely_false lib (Some (IMap fs)) = False"
| "loosely_false lib (Some (IList [])) = True"
| "loosely_false lib (Some (IList [v])) = (case v of IBool b \<Rightarrow> False | _ \<Rightarrow> loosely_false lib (Some v))"
| "loosely_false lib (Some (IList (u # v # vs))) = False"

definition REGISTRATION_ENABLED :: string where
  "REGISTRATION_ENABLED = ''RegistrationEnabled''"

text \<open>Whether the caller is the administrator: no header is the same as no administrator.\<close>

definition caller :: "cred_lib \<Rightarrow> int \<Rightarrow> string option \<Rightarrow> string option \<Rightarrow> string option \<Rightarrow> admin_answer" where
  "caller lib now user pass authorization =
     (case given authorization of None \<Rightarrow> NotAdmin | Some h \<Rightarrow> checkUserIsAdmin lib now user pass h)"

definition register_and_key :: "int \<Rightarrow> string \<Rightarrow> string \<Rightarrow> string list \<Rightarrow> bool \<Rightarrow> auth_world \<Rightarrow> auth_reply \<times> auth_world" where
  "register_and_key now email otp ds skipOTP w =
     (case on_db (registerDIDs now email otp ds skipOTP) w of
        (Inl err, w1) \<Rightarrow> (RegistrationFailed err, w1)
      | (Inr [], w1) \<Rightarrow> (NoNewDIDs, w1)
      | (Inr (r # rs), w1) \<Rightarrow>
          (case createApiKeys (map (\<lambda>r. (dr_email r, dr_did r)) (r # rs)) (aw_gateway w1) of
             (True, gw) \<Rightarrow> (Registered (r # rs), w1\<lparr>aw_gateway := gw\<rparr>)
           | (False, gw) \<Rightarrow> (GatewayFailed, w1\<lparr>aw_gateway := gw\<rparr>)))"

definition post_did :: "cred_lib \<Rightarrow> int \<Rightarrow> string option \<Rightarrow> string option \<Rightarrow> string option \<Rightarrow> string \<Rightarrow> string \<Rightarrow> string list
    \<Rightarrow> auth_world \<Rightarrow> auth_reply \<times> auth_world" where
  "post_did lib now user pass authorization email otp ds w =
     (case caller lib now user pass authorization of
        MalformedCredentials \<Rightarrow> (InternalError, w)
      | Admin \<Rightarrow> register_and_key now email otp ds True w
      | NotAdmin \<Rightarrow>
          (case on_db (getConfig REGISTRATION_ENABLED) w of
             (Inl err, w1) \<Rightarrow> (InternalError, w1)
           | (Inr enabled, w1) \<Rightarrow>
               (if loosely_false lib (case enabled of Some v \<Rightarrow> v | None \<Rightarrow> None) then (AtCapacity, w1)
                else register_and_key now email otp ds False w1)))"

text \<open>
  \<open>PATCH /:did\<close>; the answers are those of the gateway's key search, and an error of the gateway is
  only logged. \<open>None\<close>: the search has not ended with these answers.
\<close>

definition patch_did :: "int \<Rightarrow> string \<Rightarrow> string \<Rightarrow> string \<Rightarrow> api_key list option list \<Rightarrow> auth_world
    \<Rightarrow> (auth_reply \<times> auth_world) option" where
  "patch_did now email otp did answers w =
     (case on_db (revokeDID now email otp did) w of
        (Inr (Some (owner, d, s)), w1) \<Rightarrow>
          (case search_key d answers of
             None \<Rightarrow> None
           | Some None \<Rightarrow> Some (Revoked owner d s, w1)
           | Some (Some k) \<Rightarrow>
               Some (Revoked owner d s,
                 w1\<lparr>aw_gateway := snd (gateway_call (\<lambda>gw. ((), disable_key (key_id k) gw)) (aw_gateway w1))\<rparr>))
      | (Inr None, w1) \<Rightarrow> Some (NotRevoked, w1)
      | (Inl err, w1) \<Rightarrow> Some (InternalError, w1))"

definition admin_only :: "cred_lib \<Rightarrow> int \<Rightarrow> string option \<Rightarrow> string option \<Rightarrow> string \<Rightarrow> (auth_world \<Rightarrow> auth_reply \<times> auth_world)
    \<Rightarrow> auth_world \<Rightarrow> auth_reply \<times> auth_world" where
  "admin_only lib now user pass authorization run w =
     (case checkUserIsAdmin lib now user pass authorization of
        Admin \<Rightarrow> run w
      | NotAdmin \<Rightarrow> (Unauthorized, w)
      | MalformedCredentials \<Rightarrow> (InternalError, w))"

definition get_config_key :: "string \<Rightarrow> auth_world \<Rightarrow> auth_reply \<times> auth_world" where
  "get_config_key key w =
     (case on_db (getConfig key) w of (Inr (Some v), w1) \<Rightarrow> (ConfigIs v, w1) | (_, w1) \<Rightarrow> (Failed, w1))"

definition put_config :: "int \<Rightarrow> string \<Rightarrow> js_value \<Rightarrow> auth_world \<Rightarrow> auth_reply \<times> auth_world" where
  "put_config now key v w =
     (case on_db (updateConfig now key v) w of (Inr (Some u), w1) \<Rightarrow> (ConfigIs u, w1) | (_, w1) \<Rightarrow> (Failed, w1))"

section \<open>Registrations and their keys\<close>

definition has_key :: "gateway \<Rightarrow> string \<Rightarrow> string \<Rightarrow> bool" where
  "has_key gw user v \<longleftrightarrow> (\<exists>k\<in>set (gw_keys gw). key_user k = user \<and> key_value k = v \<and> key_enabled k
     \<and> key_id k \<in> set (gw_plan gw))"

lemma gateway_call_Some:
  assumes "gateway_call run gw = (Some x, gw')"
  shows "\<exists>fs. run (gw\<lparr>gw_fails := fs\<rparr>) = (x, gw')"
proof (cases "gw_fails gw")
  case Nil
  have "gw\<lparr>gw_fails := gw_fails gw\<rparr> = gw" by simp
  moreover have "run gw = (x, gw')" using assms Nil by (simp add: gateway_call_def split: prod.splits)
  ultimately show ?thesis by metis
next
  case (Cons f fs)
  then show ?thesis using assms by (cases f) (auto simp: gateway_call_def split: prod.splits)
qed

lemma registerAPIKey_Some:
  assumes "registerAPIKey user v gw = (Some i, gw')"
  shows "has_key gw' user v \<and> (\<forall>u x. has_key gw u x \<longrightarrow> has_key gw' u x)"
  using assms
  by (auto simp: registerAPIKey_def has_key_def split: prod.splits option.splits dest!: gateway_call_Some)

lemma createApiKeys_done:
  "createApiKeys users gw = (True, gw') \<Longrightarrow>
     (\<forall>(user, v)\<in>set users. has_key gw' user v) \<and> (\<forall>u x. has_key gw u x \<longrightarrow> has_key gw' u x)"
proof (induction users gw rule: createApiKeys.induct)
  case (2 user v users gw)
  then obtain i gw1 where "registerAPIKey user v gw = (Some i, gw1)" "createApiKeys users gw1 = (True, gw')"
    by (auto split: prod.splits option.splits)
  with 2(1) registerAPIKey_Some show ?case by fastforce
qed auto

lemma getConfig_reads: "dids (snd (getConfig key db)) = dids db \<and> otps (snd (getConfig key db)) = otps db"
  by (auto simp: getConfig_def command_defs send_def split: list.split fault.split option.split)

lemma register_and_key_outcome:
  assumes "register_and_key now email otp ds False w = (reply, w')"
  shows "(\<forall>rs. reply = Registered rs \<longrightarrow> rs \<noteq> [] \<and> (\<forall>r\<in>set rs.
        dr_did r \<in> set ds \<and> newly_registered now email (aw_db w) (aw_db w') r \<and> has_key (aw_gateway w') email (dr_did r)))
    \<and> (reply = GatewayFailed \<longrightarrow> (\<exists>r. dr_did r \<in> set ds \<and> newly_registered now email (aw_db w) (aw_db w') r))
    \<and> reply \<noteq> AtCapacity"
proof (cases "registerDIDs now email otp ds False (aw_db w)")
  case (Pair v db)
  show ?thesis
  proof (cases v)
    case (Inl err)
    then show ?thesis using Pair assms by (auto simp: register_and_key_def on_db_def)
  next
    case (Inr rs)
    then have run: "registerDIDs now email otp ds False (aw_db w) = (Inr rs, db)" using Pair by simp
    obtain db1 where "checkCorrectOTP now email otp (aw_db w) = (Inr True, db1)"
      and each: "register_each now email otp ds db1 = (Inr rs, db)"
      using registerDIDs_Inr [OF run] by auto
    then have "dids db1 = dids (aw_db w)" using checkCorrectOTP_True by metis
    then have new: "\<forall>r\<in>set rs. dr_did r \<in> set ds \<and> newly_registered now email (aw_db w) db r"
      using register_each_results [OF each] by (simp add: newly_registered_def)
    then have emails: "\<forall>r\<in>set rs. dr_email r = email"
      unfolding newly_registered_def by (metis did_result.select_convs(1))
    show ?thesis
    proof (cases rs)
      case Nil
      then show ?thesis using run assms by (auto simp: register_and_key_def on_db_def)
    next
      case (Cons r rest)
      obtain b gw where keys: "createApiKeys (map (\<lambda>r. (dr_email r, dr_did r)) rs) (aw_gateway w) = (b, gw)"
        by (cases "createApiKeys (map (\<lambda>r. (dr_email r, dr_did r)) rs) (aw_gateway w)")
      have result: "reply = (if b then Registered rs else GatewayFailed)" "aw_db w' = db" "aw_gateway w' = gw"
        using assms run keys Cons by (auto simp: register_and_key_def on_db_def split: if_splits bool.splits)
      have "has_key gw email (dr_did r)" if "b" "r \<in> set rs" for r
        using createApiKeys_done keys that emails by fastforce
      then show ?thesis using result new Cons by auto
    qed
  qed
qed

text \<open>
  POST /did: for everyone but the administrator, a closed registration changes no DID and no
  password; an answer with registrations names DIDs that were asked for, are new, and have an enabled
  key in the usage plan; and when the gateway fails, DIDs have been registered all the same, so that
  repeating the request cannot give them a key.
\<close>

theorem post_did_outcome:
  assumes "post_did lib now user pass authorization email otp ds w = (reply, w')"
    and "caller lib now user pass authorization = NotAdmin"
  shows "(\<forall>i. faults (aw_db w) = [] \<and> get_item cfg_key (REGISTRATION_ENABLED, REGISTRATION_ENABLED) (configs (aw_db w)) = Some i
         \<and> loosely_false lib (cfg_value i) \<longrightarrow> reply = AtCapacity)
    \<and> (reply = AtCapacity \<longrightarrow> dids (aw_db w') = dids (aw_db w) \<and> otps (aw_db w') = otps (aw_db w)
         \<and> aw_gateway w' = aw_gateway w)
    \<and> (\<forall>rs. reply = Registered rs \<longrightarrow> rs \<noteq> [] \<and> (\<forall>r\<in>set rs.
         dr_did r \<in> set ds \<and> newly_registered now email (aw_db w) (aw_db w') r \<and> has_key (aw_gateway w') email (dr_did r)))
    \<and> (reply = GatewayFailed \<longrightarrow> (\<exists>r. dr_did r \<in> set ds \<and> newly_registered now email (aw_db w) (aw_db w') r))"
proof -
  obtain v db where cfg: "getConfig REGISTRATION_ENABLED (aw_db w) = (v, db)"
    by (cases "getConfig REGISTRATION_ENABLED (aw_db w)")
  then have same: "dids db = dids (aw_db w)" "otps db = otps (aw_db w)"
    using getConfig_reads [of REGISTRATION_ENABLED "aw_db w"] by simp_all
  define w1 where "w1 = w\<lparr>aw_db := db\<rparr>"
  define closed where "closed \<longleftrightarrow> (case v of Inr (Some u) \<Rightarrow> loosely_false lib u | _ \<Rightarrow> False)"
  obtain b where v: "v = Inr b"
    using cfg by (auto simp: getConfig_def handled_def giveBack_def split: prod.splits sum.splits)
  have run: "(reply, w') = (if closed then (AtCapacity, w1) else register_and_key now email otp ds False w1)"
    using assms cfg v by (auto simp: post_did_def on_db_def closed_def w1_def split: option.splits)
  have closes: "closed" if "faults (aw_db w) = []" "loosely_false lib (cfg_value i)"
    "get_item cfg_key (REGISTRATION_ENABLED, REGISTRATION_ENABLED) (configs (aw_db w)) = Some i" for i
    using cfg that by (auto simp: getConfig_def command_defs send_def closed_def)
  show ?thesis
  proof (cases closed)
    case True
    then show ?thesis using run same by (simp add: w1_def)
  next
    case False
    then have "register_and_key now email otp ds False w1 = (reply, w')" using run by simp
    note out = register_and_key_outcome [OF this]
    have "newly_registered now email (aw_db w1) x r = newly_registered now email (aw_db w) x r" for x r
      using same by (simp add: newly_registered_def w1_def)
    then show ?thesis using out closes False by auto
  qed
qed

section \<open>Examples\<close>

definition example_creds :: cred_lib where
  "example_creds = \<lparr>base64 = (\<lambda>s. s), unbase64 = (\<lambda>s. s), sha256_hex = (\<lambda>s. ''0xab''), other_number = (\<lambda>_. None)\<rparr>"

definition example_auth_world :: auth_world where
  "example_auth_world = \<lparr>aw_db = example_registry,
     aw_gateway = \<lparr>gw_keys = [], gw_plan = [], gw_next = 1, gw_fails = []\<rparr>, aw_mails = []\<rparr>"

definition example_post_did :: "auth_reply \<times> auth_world" where
  "example_post_did = post_did example_creds 5 None None None ''bob@x.io'' ''p1'' [''did:key:c''] example_auth_world"

theorem post_did_outcome_witness:
  "\<exists>rs. fst example_post_did = Registered rs \<and> rs \<noteq> []"
proof -
  have run: "post_did example_creds 5 None None None ''bob@x.io'' ''p1'' [''did:key:c''] example_auth_world
      = (fst example_post_did, snd example_post_did)" by (simp add: example_post_did_def)
  have "caller example_creds 5 None None None = NotAdmin" by (simp add: caller_def)
  note out = post_did_outcome [OF run this]
  have "case fst example_post_did of Registered rs \<Rightarrow> True | _ \<Rightarrow> False" by code_simp
  then obtain rs where "fst example_post_did = Registered rs" by (auto split: auth_reply.splits)
  with out show ?thesis by blast
qed

theorem search_key_loops_witness:
  "search_key ''did:key:b'' (replicate 3 (Some (replicate 100
     \<lparr>key_id = 1, key_user = ''bob@x.io'', key_value = ''other'', key_enabled = True\<rparr>))) = None"
  using search_key_loops [of "''did:key:b''" "[]" _ "replicate 100
     \<lparr>key_id = 1, key_user = ''bob@x.io'', key_value = ''other'', key_enabled = True\<rparr>" 3]
  by (simp add: PAGE_LIMIT_def)

end
