(* ===== verification/Auth_Api.thy ===== *)
theory Auth_Api
  imports Auth_Routes App_Config
begin

text \<open>
  The Lambda function of the registry: \<open>src/auth/src/handlers/api.ts\<close> with the validators of
  \<open>src/auth/src/validators\<close>, over the routes, and the tables that \<open>init\<close> of
  \<open>src/auth/src/services/aws/dynamodb.ts\<close> checks or creates before every event.
\<close>

section \<open>The tables\<close>

datatype dynamo_error = ResourceNotFound | ResourceInUse | MissingTableName string | DynamoFailure string

text \<open>The tables of the database, and the failures of the next commands.\<close>

record dynamo =
  dt_tables :: "string list"
  dt_failures :: "string option list"

definition dynamo_send :: "(dynamo \<Rightarrow> (dynamo_error + 'a) \<times> dynamo) \<Rightarrow> dynamo \<Rightarrow> (dynamo_error + 'a) \<times> dynamo" where
  "dynamo_send run d =
     (case dt_failures d of
        [] \<Rightarrow> run d
      | None # fs \<Rightarrow> run (d\<lparr>dt_failures := fs\<rparr>)
      | Some e # fs \<Rightarrow> (Inl (DynamoFailure e), d\<lparr>dt_failures := fs\<rparr>))"

definition describe_table :: "string \<Rightarrow> dynamo \<Rightarrow> (dynamo_error + unit) \<times> dynamo" where
  "describe_table t = dynamo_send (\<lambda>d. (if t \<in> set (dt_tables d) then Inr () else Inl ResourceNotFound, d))"

definition create_table :: "string \<Rightarrow> dynamo \<Rightarrow> (dynamo_error + unit) \<times> dynamo" where
  "create_table t = dynamo_send (\<lambda>d. if t \<in> set (dt_tables d) then (Inl ResourceInUse, d)
     else (Inr (), d\<lparr>dt_tables := dt_tables d @ [t]\<rparr>))"

definition checkTableExists :: "string \<Rightarrow> bool \<Rightarrow> dynamo \<Rightarrow> (dynamo_error + bool) \<times> dynamo" where
  "checkTableExists tableName shouldThrow d =
     (case describe_table tableName d of
        (Inr _, d1) \<Rightarrow> (Inr True, d1)
      | (Inl err, d1) \<Rightarrow> (if shouldThrow then Inl err else Inr False, d1))"

definition createTableIfNotExists :: "bool \<Rightarrow> string \<Rightarrow> dynamo \<Rightarrow> (dynamo_error + unit) \<times> dynamo" where
  "createTableIfNotExists offline tableName d =
     (let shouldthrow = (if offline then False else True)
      in case checkTableExists tableName shouldthrow d of
           (Inl err, d1) \<Rightarrow> (Inl err, d1)
         | (Inr True, d1) \<Rightarrow> (Inr (), d1)
         | (Inr False, d1) \<Rightarrow> create_table tableName d1)"

fun init_tables :: "bool \<Rightarrow> bool \<Rightarrow> string list \<Rightarrow> dynamo \<Rightarrow> (dynamo_error + unit) \<times> dynamo" where
  "init_tables should_create offline [] d = (Inr (), d)"
| "init_tables should_create offline (t # ts) d =
     (case (if should_create then createTableIfNotExists offline t d
            else (case checkTableExists t True d of (r, d1) \<Rightarrow> (map_sum id (\<lambda>_. ()) r, d1))) of
        (Inl err, d1) \<Rightarrow> (Inl err, d1)
      | (Inr _, d1) \<Rightarrow> init_tables should_create offline ts d1)"

text \<open>The names of the tables: of the environment, or offline made up with the time.\<close>

record auth_env =
  is_offline :: bool
  env_tables :: "string option list"

definition offline_names :: "string list" where
  "offline_names = [''cas-auth-config-'', ''cas-auth-did-'', ''cas-auth-otp-'']"

definition table_names :: "auth_env \<Rightarrow> int list \<Rightarrow> string list" where
  "table_names env nows =
     (if is_offline env then map2 (\<lambda>p t. p @ int_to_string t) offline_names nows
      else map (\<lambda>v. case v of Some s \<Rightarrow> s | None \<Rightarrow> []) (env_tables env))"

text \<open>The constructor.\<close>

definition newDynamoDB :: "string list \<Rightarrow> dynamo_error + string list" where
  "newDynamoDB names =
     (case find (\<lambda>(n, v). v = []) (zip [''DB_CONFIG_TABLE_NAME'', ''DB_DID_TABLE_NAME'', ''DB_OTP_TABLE_NAME''] names) of
        Some (v, _) \<Rightarrow> Inl (MissingTableName v)
      | None \<Rightarrow> Inr names)"

lemma checkTableExists_run:
  assumes "checkTableExists t b d = (r, d')"
  shows "dt_tables d' = dt_tables d" and "r = Inr True \<Longrightarrow> t \<in> set (dt_tables d)" and "r = Inr False \<Longrightarrow> \<not> b"
    and "dt_failures d = [] \<Longrightarrow> d' = d \<and> r = (if t \<in> set (dt_tables d) then Inr True else if b then Inl ResourceNotFound else Inr False)"
  using assms
  by (auto simp: checkTableExists_def describe_table_def dynamo_send_def split: list.splits option.splits if_splits)

text \<open>Online, to create a table that does not exist is to check that it exists.\<close>

lemma createTableIfNotExists_online:
  "createTableIfNotExists False t d = (case checkTableExists t True d of (r, d1) \<Rightarrow> (map_sum id (\<lambda>_. ()) r, d1))"
proof -
  obtain r d1 where check: "checkTableExists t True d = (r, d1)" by (cases "checkTableExists t True d")
  then have "r \<noteq> Inr False" using checkTableExists_run(3) by blast
  then show ?thesis using check by (auto simp: createTableIfNotExists_def split: sum.split bool.split)
qed

lemma init_tables_checks: "init_tables c False ts d = init_tables False False ts d"
  by (induction ts arbitrary: d) (simp_all add: createTableIfNotExists_online split: prod.split sum.split)

lemma init_tables_online:
  "init_tables False False ts d = (r, d') \<Longrightarrow> dt_tables d' = dt_tables d \<and> (r = Inr () \<longrightarrow> set ts \<subseteq> set (dt_tables d))"
proof (induction ts arbitrary: d)
  case (Cons t ts)
  obtain e d1 where check: "checkTableExists t True d = (e, d1)" by (cases "checkTableExists t True d")
  note tables = checkTableExists_run(1) [OF check]
  show ?case
  proof (cases e)
    case (Inl err)
    then show ?thesis using Cons.prems check tables by auto
  next
    case (Inr b)
    then have "b" using checkTableExists_run(3) [OF check] by (cases b) simp_all
    then have "t \<in> set (dt_tables d)" using checkTableExists_run(2) [OF check] Inr by simp
    moreover have "init_tables False False ts d1 = (r, d')" using Cons.prems check Inr by simp
    ultimately show ?thesis using Cons.IH [of d1] tables by simp
  qed
qed simp

lemma init_tables_offline:
  "dt_failures d = [] \<Longrightarrow> \<exists>d'. init_tables True True ts d = (Inr (), d') \<and> set (dt_tables d') = set (dt_tables d) \<union> set ts"
proof (induction ts arbitrary: d)
  case (Cons t ts)
  obtain e d1 where check: "checkTableExists t False d = (e, d1)" by (cases "checkTableExists t False d")
  note run = checkTableExists_run(4) [OF check Cons.prems]
  have "\<exists>d2. createTableIfNotExists True t d = (Inr (), d2) \<and> dt_failures d2 = []
      \<and> set (dt_tables d2) = insert t (set (dt_tables d))"
  proof (cases "t \<in> set (dt_tables d)")
    case True
    then have "createTableIfNotExists True t d = (Inr (), d)" using run check by (simp add: createTableIfNotExists_def)
    then show ?thesis using Cons.prems True by auto
  next
    case False
    then have "createTableIfNotExists True t d = create_table t d" using run check by (simp add: createTableIfNotExists_def)
    then show ?thesis using Cons.prems False by (simp add: create_table_def dynamo_send_def)
  qed
  then obtain d2 where d2: "createTableIfNotExists True t d = (Inr (), d2)" "dt_failures d2 = []"
    "set (dt_tables d2) = insert t (set (dt_tables d))" by blast
  from Cons.IH [OF d2(2)] obtain d' where "init_tables True True ts d2 = (Inr (), d')"
    "set (dt_tables d') = set (dt_tables d2) \<union> set ts" by blast
  then show ?case using d2(1,3) by simp
qed simp

text \<open>
  DynamoDB.init: with tables to be created if they do not exist, offline they all exist afterwards if no
  command fails, but online none is ever created: with one missing, the initialization fails, exactly as
  without the option.
\<close>

theorem init_creates_only_offline:
  "(dt_failures d = [] \<longrightarrow> (\<exists>d'. init_tables True True ts d = (Inr (), d') \<and> set (dt_tables d') = set (dt_tables d) \<union> set ts))
   \<and> dt_tables (snd (init_tables c False ts d)) = dt_tables d
   \<and> (fst (init_tables c False ts d) = Inr () \<longrightarrow> set ts \<subseteq> set (dt_tables d))
   \<and> init_tables True False ts d = init_tables False False ts d"
proof (intro conjI impI)
  show "\<exists>d'. init_tables True True ts d = (Inr (), d') \<and> set (dt_tables d') = set (dt_tables d) \<union> set ts"
    if "dt_failures d = []" by (rule init_tables_offline [OF that])
  obtain r d' where run: "init_tables False False ts d = (r, d')" by (cases "init_tables False False ts d")
  note online = init_tables_online [OF this]
  show "dt_tables (snd (init_tables c False ts d)) = dt_tables d"
    using online run by (simp add: init_tables_checks [of c])
  show "fst (init_tables c False ts d) = Inr () \<Longrightarrow> set ts \<subseteq> set (dt_tables d)"
    using online run by (simp add: init_tables_checks [of c])
  show "init_tables True False ts d = init_tables False False ts d" by (rule init_tables_checks)
qed

theorem init_creates_only_offline_witness:
  "fst (init_tables True False [''cfg'', ''did''] \<lparr>dt_tables = [''cfg''], dt_failures = []\<rparr>) \<noteq> Inr ()
   \<and> (\<exists>d'. init_tables True True [''cfg'', ''did''] \<lparr>dt_tables = [''cfg''], dt_failures = []\<rparr> = (Inr (), d')
        \<and> set (dt_tables d') = {''cfg'', ''did''})"
proof -
  let ?d = "\<lparr>dt_tables = [''cfg''], dt_failures = []\<rparr>" and ?ts = "[''cfg'', ''did'']"
  note out = init_creates_only_offline [of ?d ?ts True]
  have "\<not> set ?ts \<subseteq> set (dt_tables ?d)" by simp
  then have "fst (init_tables True False ?ts ?d) \<noteq> Inr ()" using out by blast
  moreover have "dt_failures ?d = []" by simp
  then obtain d' where "init_tables True True ?ts ?d = (Inr (), d')" "set (dt_tables d') = set (dt_tables ?d) \<union> set ?ts"
    using out by blast
  moreover have "set (dt_tables ?d) \<union> set ?ts = {''cfg'', ''did''}" by auto
  ultimately show ?thesis by blast
qed

section \<open>Validators\<close>

datatype string_rule = BasicAuth | DidPattern | EmailAddress | ValidKeys "string list"

datatype field_schema =
    StringField "string_rule list"
  | UniqueStrings nat "string_rule list"      \<comment> \<open>a list without repetitions, of at most so many strings\<close>
  | AnyField

text \<open>The members of an object, each with whether it is required, and whether others are allowed.\<close>

record object_schema =
  os_fields :: "(string \<times> bool \<times> field_schema) list"
  os_unknown :: bool

record validation =
  va_headers :: "object_schema option"
  va_params :: "object_schema option"
  va_body :: "object_schema option"

definition ConfigKeys :: "string list" where
  "ConfigKeys = [REGISTRATION_ENABLED]"

definition authorization_schema :: "bool \<Rightarrow> object_schema" where
  "authorization_schema required =
     \<lparr>os_fields = [(''authorization'', required, StringField [BasicAuth])], os_unknown = True\<rparr>"

definition key_field :: "string \<times> bool \<times> field_schema" where
  "key_field = (''PK'', True, StringField [ValidKeys ConfigKeys])"

definition getKeysValidation :: validation where
  "getKeysValidation = \<lparr>va_headers = Some (authorization_schema True), va_params = None, va_body = None\<rparr>"

definition getValueValidation :: validation where
  "getValueValidation = \<lparr>va_headers = Some (authorization_schema True),
     va_params = Some \<lparr>os_fields = [key_field], os_unknown = False\<rparr>, va_body = None\<rparr>"

definition putConfigValidation :: validation where
  "putConfigValidation = \<lparr>va_headers = Some (authorization_schema True), va_params = None,
     va_body = Some \<lparr>os_fields = [key_field, (''v'', True, AnyField)], os_unknown = False\<rparr>\<rparr>"

definition email_field :: "string \<times> bool \<times> field_schema" where
  "email_field = (''email'', True, StringField [EmailAddress])"

definition otp_field :: "string \<times> bool \<times> field_schema" where
  "otp_field = (''otp'', True, StringField [])"

definition registerValidation :: validation where
  "registerValidation = \<lparr>va_headers = Some (authorization_schema False), va_params = None,
     va_body = Some \<lparr>os_fields = [email_field, otp_field, (''dids'', True, UniqueStrings 4 [DidPattern])], os_unknown = False\<rparr>\<rparr>"

definition revokeValidation :: validation where
  "revokeValidation = \<lparr>va_headers = None, va_params = None,
     va_body = Some \<lparr>os_fields = [email_field, otp_field], os_unknown = False\<rparr>\<rparr>"

definition verifyValidation :: validation where
  "verifyValidation = \<lparr>va_headers = None, va_params = None,
     va_body = Some \<lparr>os_fields = [email_field], os_unknown = False\<rparr>\<rparr>"

text \<open>
  Package \<open>Joi\<close> decides; what it promises of an object it accepts: a field is there if it is required, and
  has its type and follows its rules. The rule for email addresses is its own.
\<close>

record joi =
  accepts :: "object_schema \<Rightarrow> js_value \<Rightarrow> bool"
  is_email :: "string \<Rightarrow> bool"

fun follows :: "joi \<Rightarrow> string_rule \<Rightarrow> string \<Rightarrow> bool" where
  "follows j BasicAuth s = js_includes s ''Basic ''"
| "follows j DidPattern s = didRegex s"
| "follows j EmailAddress s = is_email j s"
| "follows j (ValidKeys ks) s = (s \<in> set ks)"

fun field_ok :: "joi \<Rightarrow> field_schema \<Rightarrow> ipld \<Rightarrow> bool" where
  "field_ok j (StringField rules) (IString s) = list_all (\<lambda>r. follows j r s) rules"
| "field_ok j (UniqueStrings n rules) (IList vs) = (length vs \<le> n \<and> distinct vs
     \<and> list_all (\<lambda>v. case v of IString s \<Rightarrow> list_all (\<lambda>r. follows j r s) rules | _ \<Rightarrow> False) vs)"
| "field_ok j AnyField v = True"
| "field_ok j f v = False"

definition object_ok :: "joi \<Rightarrow> object_schema \<Rightarrow> js_value \<Rightarrow> bool" where
  "object_ok j schema v \<longleftrightarrow> (case v of
     Some (IMap fs) \<Rightarrow> list_all (\<lambda>(n, required, f). case map_of fs n of None \<Rightarrow> \<not> required | Some u \<Rightarrow> field_ok j f u)
       (os_fields schema)
   | _ \<Rightarrow> False)"

definition joi_sound :: "joi \<Rightarrow> bool" where
  "joi_sound j \<longleftrightarrow> (\<forall>schema v. accepts j schema v \<longrightarrow> object_ok j schema v)"

section \<open>The application\<close>

record api_event =
  ae_method :: string
  ae_path :: "string list"
  ae_authorization :: "string option"
  ae_body :: "string option"

text \<open>
  What the application uses of packages: whether \<open>body-parser\<close> takes the body, \<open>JSON.parse\<close>, the validation,
  and the credentials; and the environment.
\<close>

record api_lib =
  al_body_accepted :: "api_event \<Rightarrow> bool"
  al_json :: "string \<Rightarrow> cas_error + js_value"
  al_joi :: joi
  al_creds :: cred_lib
  al_user :: "string option"
  al_password :: "string option"

record api_answers =
  aa_now :: int
  aa_page :: nat
  aa_otp :: string
  aa_mail_fails :: bool
  aa_keys :: "api_key list option list"

datatype api_reply =
    Reply auth_reply
  | KeysAre "string list"
  | Invalid                \<comment> \<open>400, with the message of the validation\<close>
  | BadBody                \<comment> \<open>400, \<open>Internal Error\<close>\<close>
  | NotFound               \<comment> \<open>404\<close>

text \<open>\<open>JSON.parse\<close> of a missing body is that of \<open>null\<close>.\<close>

definition parseAsJson :: "api_lib \<Rightarrow> api_event \<Rightarrow> cas_error + js_value" where
  "parseAsJson al ev =
     (if ae_method ev \<in> {''POST'', ''PUT'', ''PATCH''}
      then (case ae_body ev of None \<Rightarrow> Inr None | Some t \<Rightarrow> al_json al t)
      else Inr (Some (IMap [])))"

definition headers_value :: "api_event \<Rightarrow> js_value" where
  "headers_value ev = Some (IMap (case ae_authorization ev of None \<Rightarrow> [] | Some a \<Rightarrow> [(''authorization'', IString a)]))"

definition params_value :: "(string \<times> string) list \<Rightarrow> js_value" where
  "params_value ps = Some (IMap (map (\<lambda>(n, v). (n, IString v)) ps))"

text \<open>\<open>validate\<close>: what a schema is given for must be accepted.\<close>

definition validated :: "joi \<Rightarrow> validation \<Rightarrow> api_event \<Rightarrow> (string \<times> string) list \<Rightarrow> js_value \<Rightarrow> bool" where
  "validated j va ev ps b \<longleftrightarrow>
     (case va_headers va of None \<Rightarrow> True | Some s \<Rightarrow> accepts j s (headers_value ev))
     \<and> (case va_params va of None \<Rightarrow> True | Some s \<Rightarrow> accepts j s (params_value ps))
     \<and> (case va_body va of None \<Rightarrow> True | Some s \<Rightarrow> accepts j s b)"

definition text_at :: "js_value \<Rightarrow> string \<Rightarrow> string" where
  "text_at v n = (case opt_prop v n of Some (IString s) \<Rightarrow> s | _ \<Rightarrow> [])"

definition texts_at :: "js_value \<Rightarrow> string \<Rightarrow> string list" where
  "texts_at v n = (case opt_prop v n of
     Some (IList vs) \<Rightarrow> concat (map (\<lambda>u. case u of IString s \<Rightarrow> [s] | _ \<Rightarrow> []) vs) | _ \<Rightarrow> [])"

definition API_ENDPOINT :: "string list" where
  "API_ENDPOINT = [''api'', ''v0'', ''auth'']"

datatype api_route = GetKeys | GetKey string | PutConfig | PostDid | PatchDid string | PostVerification

definition api_route_of :: "string \<Rightarrow> string list \<Rightarrow> api_route option" where
  "api_route_of m p =
     (if map js_lower (take 3 p) \<noteq> API_ENDPOINT then None
      else case drop 3 p of
        [a] \<Rightarrow>
          (if js_lower a = ''config'' \<and> m = ''PUT'' then Some PutConfig
           else if js_lower a = ''did'' \<and> m = ''POST'' then Some PostDid
           else if js_lower a = ''verification'' \<and> m = ''POST'' then Some PostVerification else None)
      | [a, b] \<Rightarrow>
          (if js_lower a = ''config'' \<and> js_lower b = ''keys'' \<and> m \<in> {''GET'', ''HEAD''} then Some GetKeys
           else if js_lower a = ''did'' \<and> m = ''PATCH'' then Some (PatchDid b) else None)
      | [a, b, c] \<Rightarrow> (if js_lower a = ''config'' \<and> js_lower b = ''key'' \<and> m \<in> {''GET'', ''HEAD''} then Some (GetKey c) else None)
      | _ \<Rightarrow> None)"

definition run_route :: "api_lib \<Rightarrow> api_answers \<Rightarrow> api_route \<Rightarrow> api_event \<Rightarrow> js_value \<Rightarrow> auth_world
    \<Rightarrow> (api_reply \<times> auth_world) option" where
  "run_route al ans r ev b w =
     (let checked = (\<lambda>va ps run. if validated (al_joi al) va ev ps b then run else Some (Invalid, w));
          replied = (\<lambda>(x, w1). Some (Reply x, w1));
          authorization = (case ae_authorization ev of Some a \<Rightarrow> a | None \<Rightarrow> ''undefined'');
          admin = admin_only (al_creds al) (aa_now ans) (al_user al) (al_password al) authorization
      in case r of
           GetKeys \<Rightarrow> checked getKeysValidation []
             (case checkUserIsAdmin (al_creds al) (aa_now ans) (al_user al) (al_password al) authorization of
                Admin \<Rightarrow> Some (KeysAre ConfigKeys, w)
              | NotAdmin \<Rightarrow> Some (Reply Unauthorized, w)
              | MalformedCredentials \<Rightarrow> Some (Reply InternalError, w))
         | GetKey k \<Rightarrow> checked getValueValidation [(''PK'', k)] (replied (admin (get_config_key k) w))
         | PutConfig \<Rightarrow> checked putConfigValidation []
             (replied (admin (put_config (aa_now ans) (text_at b ''PK'') (opt_prop b ''v'')) w))
         | PostDid \<Rightarrow> checked registerValidation []
             (replied (post_did (al_creds al) (aa_now ans) (al_user al) (al_password al) (ae_authorization ev)
               (text_at b ''email'') (text_at b ''otp'') (texts_at b ''dids'') w))
         | PatchDid d \<Rightarrow> checked revokeValidation [(''did'', d)]
             (map_option (\<lambda>(x, w1). (Reply x, w1))
               (patch_did (aa_now ans) (text_at b ''email'') (text_at b ''otp'') d (aa_keys ans) w))
         | PostVerification \<Rightarrow> checked verifyValidation []
             (replied (post_verification (aa_page ans) (aa_now ans) (aa_otp ans) (aa_mail_fails ans) (text_at b ''email'') w)))"

definition auth_app :: "api_lib \<Rightarrow> api_answers \<Rightarrow> api_event \<Rightarrow> auth_world \<Rightarrow> (api_reply \<times> auth_world) option" where
  "auth_app al ans ev w =
     (if \<not> al_body_accepted al ev then Some (BadBody, w)
      else case parseAsJson al ev of
        Inl e \<Rightarrow> Some (BadBody, w)
      | Inr b \<Rightarrow>
          (case api_route_of (ae_method ev) (ae_path ev) of
             None \<Rightarrow> Some (NotFound, w)
           | Some r \<Rightarrow> run_route al ans r ev b w))"

text \<open>The handler: the tables first, at every event; an error there is an error of the function.\<close>

definition auth_handler :: "bool \<Rightarrow> string list \<Rightarrow> api_lib \<Rightarrow> api_answers \<Rightarrow> api_event \<Rightarrow> dynamo \<times> auth_world
    \<Rightarrow> ((dynamo_error + api_reply) \<times> dynamo \<times> auth_world) option" where
  "auth_handler offline tables al ans ev s =
     (case init_tables True offline tables (fst s) of
        (Inl e, d) \<Rightarrow> Some (Inl e, d, snd s)
      | (Inr _, d) \<Rightarrow> map_option (\<lambda>(r, w). (Inr r, d, w)) (auth_app al ans ev (snd s)))"

section \<open>What an event can change\<close>

definition only_dids :: "string set \<Rightarrow> registry \<Rightarrow> registry \<Rightarrow> bool" where
  "only_dids ds a b \<longleftrightarrow> (\<forall>k. fst k \<notin> ds \<longrightarrow> get_item did_key k (dids b) = get_item did_key k (dids a))"

interpretation only_history: history "only_dids ds" for ds
  by unfold_locales (simp_all add: only_dids_def)

lemma only_dids_same: "dids b = dids a \<Longrightarrow> only_dids ds a b"
  by (simp add: only_dids_def)

lemma only_checkCorrectOTP [intro!]: "obeys (only_dids ds) (checkCorrectOTP now email otp)"
  by (auto simp: checkCorrectOTP_def intro!: only_dids_same split: option.split)

lemma only_put_new_did: "fst (did_key i) \<in> ds \<Longrightarrow> obeys (only_dids ds) (put_new_did i)"
  by (cases "did_key i") (auto simp: put_new_did_def only_dids_def)

lemma only_registerDID: "d \<in> ds \<Longrightarrow> obeys (only_dids ds) (registerDID now email otp d b)"
  by (auto simp: registerDID_def registration_def intro!: only_put_new_did)

lemma only_register_each: "set xs \<subseteq> ds \<Longrightarrow> obeys (only_dids ds) (register_each now email otp xs)"
  by (induction xs) (auto intro!: only_registerDID)

lemma only_registerDIDs: "obeys (only_dids (set xs)) (registerDIDs now email otp xs skip)"
  by (auto simp: registerDIDs_def intro!: only_register_each split: option.split)

lemma only_revokeDID: "obeys (only_dids {d}) (revokeDID now email otp d)"
  by (auto simp: revokeDID_def revoke_command_def only_dids_def split: option.split)

lemma on_db_only: "obeys (only_dids ds) m \<Longrightarrow> on_db m w = (r, w1) \<Longrightarrow> only_dids ds (aw_db w) (aw_db w1)"
  by (auto simp: on_db_def dest: only_history.obeysD split: prod.splits)

text \<open>The routes that leave the DIDs alone, and what the other two change.\<close>

lemma getConfig_dids: "on_db (getConfig k) w = (r, w1) \<Longrightarrow> dids (aw_db w1) = dids (aw_db w)"
  using getConfig_reads [of k "aw_db w"] by (auto simp: on_db_def split: prod.splits)

lemma register_and_key_only:
  assumes "register_and_key now email otp ds skip w = (x, w1)"
  shows "only_dids (set ds) (aw_db w) (aw_db w1)"
proof -
  obtain r w2 where r: "on_db (registerDIDs now email otp ds skip) w = (r, w2)"
    by (cases "on_db (registerDIDs now email otp ds skip) w")
  have "aw_db w1 = aw_db w2" using assms r
    by (auto simp: register_and_key_def split: sum.splits list.splits prod.splits bool.splits)
  then show ?thesis using on_db_only [OF only_registerDIDs r] by simp
qed

lemma post_did_only:
  assumes "post_did lib now user pass authorization email otp ds w = (x, w1)"
  shows "only_dids (set ds) (aw_db w) (aw_db w1)"
proof -
  have config: "on_db (getConfig k) w = (r, w2) \<Longrightarrow> only_dids ds (aw_db w) (aw_db w2)" for k r w2 ds
    using getConfig_dids by (rule only_dids_same)
  show ?thesis using assms
    by (auto simp: post_did_def only_history.later_refl
        intro: register_and_key_only config only_history.later_trans [OF config register_and_key_only]
        split: admin_answer.splits prod.splits sum.splits if_splits)
qed

lemma patch_did_only:
  assumes "patch_did now email otp d answers w = Some (x, w1)"
  shows "only_dids {d} (aw_db w) (aw_db w1)"
proof -
  obtain r w2 where r: "on_db (revokeDID now email otp d) w = (r, w2)"
    by (cases "on_db (revokeDID now email otp d) w")
  have "aw_db w1 = aw_db w2" using assms r
    by (auto simp: patch_did_def split: sum.splits option.splits prod.splits)
  then show ?thesis using on_db_only [OF only_revokeDID r] by simp
qed

lemma updateConfig_dids: "dids (snd (updateConfig now k v db)) = dids db"
  by (auto simp: updateConfig_def command_defs send_def split: list.split fault.split option.split)

lemma admin_only_dids:
  assumes "\<And>w. dids (aw_db (snd (run w))) = dids (aw_db w)"
  shows "admin_only lib now user pass a run w = (x, w1) \<Longrightarrow> dids (aw_db w1) = dids (aw_db w)"
  using assms [of w] by (auto simp: admin_only_def split: admin_answer.splits)

lemma only_code: "obeys (only_dids ds) (createEmailVerificationCode page now otp email)"
proof -
  have each: "obeys (only_dids ds) (expire_all now xs)" for xs
    by (induction xs) (auto simp: expireOTP_def updateOTP_def intro!: only_dids_same split: option.split)
  show ?thesis
    by (auto simp: createEmailVerificationCode_def new_verification_code_def getActiveOTPs_def addOTP_def
        intro!: each only_dids_same)
qed

lemma post_verification_only:
  assumes "post_verification page now otp mail_fails email w = (x, w1)"
  shows "only_dids ds (aw_db w) (aw_db w1)"
proof -
  obtain r w2 where r: "on_db (createEmailVerificationCode page now otp email) w = (r, w2)"
    by (cases "on_db (createEmailVerificationCode page now otp email) w")
  have "aw_db w1 = aw_db w2" using assms r
    by (auto simp: post_verification_def split: sum.splits option.splits prod.splits if_splits)
  then show ?thesis using on_db_only [OF only_code r] by simp
qed

lemma get_config_key_dids: "dids (aw_db (snd (get_config_key k w))) = dids (aw_db w)"
  using getConfig_dids [of k w] by (auto simp: get_config_key_def split: prod.split sum.split option.split)

lemma put_config_dids: "dids (aw_db (snd (put_config now k v w))) = dids (aw_db w)"
  using updateConfig_dids [of now k v "aw_db w"]
  by (auto simp: put_config_def on_db_def split: prod.splits sum.splits option.splits)

text \<open>What the schemas say of the bodies they accept.\<close>

lemma object_field:
  assumes "joi_sound j" and "accepts j s v" and "(n, True, f) \<in> set (os_fields s)"
  shows "\<exists>u. opt_prop v n = Some u \<and> field_ok j f u"
proof -
  have ok: "object_ok j s v" using assms(1,2) by (simp add: joi_sound_def)
  then obtain fs where fs: "v = Some (IMap fs)" by (auto simp: object_ok_def split: option.splits ipld.splits)
  have "\<forall>x\<in>set (os_fields s). case x of (n, required, f) \<Rightarrow>
      (case map_of fs n of None \<Rightarrow> \<not> required | Some u \<Rightarrow> field_ok j f u)"
    using ok fs by (simp add: object_ok_def list_all_iff)
  from bspec [OF this assms(3)] show ?thesis using fs by (simp add: opt_prop_def split: option.splits)
qed

lemma string_field: "field_ok j (StringField rules) u \<Longrightarrow> \<exists>t. u = IString t \<and> list_all (\<lambda>r. follows j r t) rules"
  by (cases u) auto

lemma string_member: "(case v of IString t \<Rightarrow> P t | _ \<Rightarrow> False) \<Longrightarrow> \<exists>t. v = IString t \<and> P t"
  by (cases v) simp_all

lemma strings_field:
  assumes "field_ok j (UniqueStrings n [DidPattern]) u"
  shows "\<exists>ts. u = IList (map IString ts) \<and> distinct ts \<and> length ts \<le> n \<and> list_all didRegex ts"
proof (cases u)
  case (IList vs)
  then have vs: "length vs \<le> n" "distinct vs" "\<forall>v\<in>set vs. \<exists>t. v = IString t \<and> didRegex t"
    using assms string_member [where P = didRegex] by (simp_all add: list_all_iff)
  define ts where "ts = map (\<lambda>v. case v of IString t \<Rightarrow> t | _ \<Rightarrow> []) vs"
  have "map IString ts = vs" using vs(3) unfolding ts_def map_map by (intro map_idI) auto
  then have "u = IList (map IString ts)" "distinct ts" "length ts \<le> n" "list_all didRegex ts"
    using vs IList by (auto simp: distinct_map list_all_iff)
  then show ?thesis by blast
qed (use assms in auto)

lemma texts_at_strings: "opt_prop v n = Some (IList (map IString ts)) \<Longrightarrow> texts_at v n = ts"
  by (simp add: texts_at_def comp_def)

lemma email_otp:
  assumes "joi_sound j" and "accepts j s v" and "email_field \<in> set (os_fields s)" and "otp_field \<in> set (os_fields s)"
  shows "\<exists>email otp. opt_prop v ''email'' = Some (IString email) \<and> is_email j email \<and> opt_prop v ''otp'' = Some (IString otp)"
proof -
  obtain u where u: "opt_prop v ''email'' = Some u" "field_ok j (StringField [EmailAddress]) u"
    using object_field [OF assms(1,2) assms(3) [unfolded email_field_def]] by blast
  obtain w where w: "opt_prop v ''otp'' = Some w" "field_ok j (StringField []) w"
    using object_field [OF assms(1,2) assms(4) [unfolded otp_field_def]] by blast
  show ?thesis using string_field [OF u(2)] string_field [OF w(2)] u(1) w(1) by auto
qed

lemma run_route_reads:
  assumes "run_route al ans r ev b w = Some (reply, w')" and "\<And>d. r \<noteq> PostDid \<and> r \<noteq> PatchDid d"
  shows "only_dids {} (aw_db w) (aw_db w')"
proof (cases r)
  case GetKeys
  then have "w' = w" using assms(1) by (auto simp: run_route_def Let_def split: if_splits admin_answer.splits)
  then show ?thesis by (auto intro: only_dids_same)
next
  case (GetKey k)
  obtain x w1 where a: "admin_only (al_creds al) (aa_now ans) (al_user al) (al_password al)
      (case ae_authorization ev of Some a \<Rightarrow> a | None \<Rightarrow> ''undefined'') (get_config_key k) w = (x, w1)" by fastforce
  then have "dids (aw_db w1) = dids (aw_db w)" by (rule admin_only_dids [rotated]) (rule get_config_key_dids)
  moreover have "w' = w \<or> w' = w1"
    using assms(1) a by (auto simp: run_route_def GetKey Let_def split: if_splits)
  ultimately show ?thesis by (auto intro: only_dids_same)
next
  case PutConfig
  obtain x w1 where a: "admin_only (al_creds al) (aa_now ans) (al_user al) (al_password al)
      (case ae_authorization ev of Some a \<Rightarrow> a | None \<Rightarrow> ''undefined'')
      (put_config (aa_now ans) (text_at b ''PK'') (opt_prop b ''v'')) w = (x, w1)" by fastforce
  then have "dids (aw_db w1) = dids (aw_db w)" by (rule admin_only_dids [rotated]) (rule put_config_dids)
  moreover have "w' = w \<or> w' = w1"
    using assms(1) a by (auto simp: run_route_def PutConfig Let_def split: if_splits)
  ultimately show ?thesis by (auto intro: only_dids_same)
next
  case PostVerification
  obtain x w1 where a: "post_verification (aa_page ans) (aa_now ans) (aa_otp ans) (aa_mail_fails ans) (text_at b ''email'') w
      = (x, w1)" by fastforce
  have "w' = w \<or> w' = w1"
    using assms(1) a by (auto simp: run_route_def PostVerification Let_def split: if_splits)
  then show ?thesis using post_verification_only [OF a] by (auto intro: only_dids_same)
qed (use assms(2) in simp_all)

definition well_formed_claim :: "joi \<Rightarrow> js_value \<Rightarrow> bool" where
  "well_formed_claim j b \<longleftrightarrow> (\<exists>email otp. opt_prop b ''email'' = Some (IString email) \<and> is_email j email
     \<and> opt_prop b ''otp'' = Some (IString otp))"

text \<open>
  C34 (handlers/api.ts, validators): whatever event reaches the function, a DID is registered or revoked only on
  a body that the schemas describe: a registration of at most four distinct DIDs, an email address and a
  password, which changes those DIDs only; or a revocation of the DID in the path, with email address and
  password, which changes that DID only.
\<close>

theorem auth_app_changes_validated:
  assumes "joi_sound (al_joi al)" and "auth_app al ans ev w = Some (reply, w')"
    and "get_item did_key k (dids (aw_db w')) \<noteq> get_item did_key k (dids (aw_db w))"
  shows "\<exists>b. parseAsJson al ev = Inr b \<and> well_formed_claim (al_joi al) b
    \<and> (case api_route_of (ae_method ev) (ae_path ev) of
         Some PostDid \<Rightarrow> \<exists>ds. opt_prop b ''dids'' = Some (IList (map IString ds)) \<and> length ds \<le> 4 \<and> distinct ds
            \<and> list_all didRegex ds \<and> fst k \<in> set ds
       | Some (PatchDid d) \<Rightarrow> fst k = d
       | _ \<Rightarrow> False)"
proof -
  obtain b r where b: "parseAsJson al ev = Inr b" and r: "api_route_of (ae_method ev) (ae_path ev) = Some r"
    and run: "run_route al ans r ev b w = Some (reply, w')"
    using assms(2,3) by (auto simp: auth_app_def split: if_splits sum.splits option.splits)
  have changed: "\<not> only_dids ds (aw_db w) (aw_db w')" if "fst k \<notin> ds" for ds
    using assms(3) that unfolding only_dids_def by blast
  note read = run_route_reads [OF run]
  show ?thesis
  proof (cases r)
    case PostDid
    have valid: "accepts (al_joi al) (the (va_body registerValidation)) b" and
      only: "only_dids (set (texts_at b ''dids'')) (aw_db w) (aw_db w')"
      using run PostDid changed [of "{}"]
      by (auto simp: run_route_def Let_def validated_def registerValidation_def only_history.later_refl
          split: if_splits prod.splits intro: post_did_only)
    obtain ds where ds: "opt_prop b ''dids'' = Some (IList (map IString ds))" "distinct ds" "length ds \<le> 4" "list_all didRegex ds"
      using object_field [OF assms(1) valid, of "''dids''" "UniqueStrings 4 [DidPattern]"] strings_field
      by (fastforce simp: registerValidation_def)
    have "well_formed_claim (al_joi al) b"
      unfolding well_formed_claim_def by (rule email_otp [OF assms(1) valid]) (simp_all add: registerValidation_def)
    moreover have "fst k \<in> set ds" using changed only texts_at_strings [OF ds(1)] by metis
    ultimately show ?thesis using b r PostDid ds by auto
  next
    case (PatchDid d)
    have valid: "accepts (al_joi al) (the (va_body revokeValidation)) b" and
      only: "only_dids {d} (aw_db w) (aw_db w')"
      using run PatchDid changed [of "{}"]
      by (auto simp: run_route_def Let_def validated_def revokeValidation_def only_history.later_refl
          split: if_splits prod.splits intro: patch_did_only)
    have "well_formed_claim (al_joi al) b"
      unfolding well_formed_claim_def by (rule email_otp [OF assms(1) valid]) (simp_all add: revokeValidation_def)
    moreover have "fst k = d" using changed [of "{d}"] only by auto
    ultimately show ?thesis using b r PatchDid by simp
  qed (use read changed [of "{}"] in simp_all)
qed

section \<open>A registration\<close>

lemma field_ok_email: "is_email j = is_email j' \<Longrightarrow> field_ok j f v = field_ok j' f v"
proof -
  assume same: "is_email j = is_email j'"
  have "follows j r s = follows j' r s" for r s by (cases r) (simp_all add: same)
  then have rules: "follows j = follows j'" by (simp add: fun_eq_iff)
  show ?thesis by (cases f; cases v) (simp_all add: rules)
qed

definition example_joi :: joi where
  "example_joi = \<lparr>accepts = object_ok \<lparr>accepts = (\<lambda>_ _. True), is_email = (\<lambda>s. js_includes s ''@'')\<rparr>,
     is_email = (\<lambda>s. js_includes s ''@'')\<rparr>"

lemma example_joi_sound: "joi_sound example_joi"
proof -
  have "field_ok \<lparr>accepts = (\<lambda>_ _. True), is_email = (\<lambda>s. js_includes s ''@'')\<rparr> = field_ok example_joi"
    by (intro ext, rule field_ok_email) (simp add: example_joi_def)
  then have "object_ok \<lparr>accepts = (\<lambda>_ _. True), is_email = (\<lambda>s. js_includes s ''@'')\<rparr> = object_ok example_joi"
    by (intro ext) (simp only: object_ok_def)
  then show ?thesis by (simp add: joi_sound_def example_joi_def)
qed

definition example_registration :: js_value where
  "example_registration = Some (IMap [(''email'', IString ''bob@x.io''), (''otp'', IString ''p1''),
     (''dids'', IList [IString ''did:key:c''])])"

definition example_api_lib :: api_lib where
  "example_api_lib = \<lparr>al_body_accepted = (\<lambda>_. True), al_json = (\<lambda>_. Inr example_registration), al_joi = example_joi,
     al_creds = example_creds, al_user = None, al_password = None\<rparr>"

definition example_api_answers :: api_answers where
  "example_api_answers = \<lparr>aa_now = 5, aa_page = 10, aa_otp = ''p9'', aa_mail_fails = False, aa_keys = []\<rparr>"

definition example_api_event :: api_event where
  "example_api_event = \<lparr>ae_method = ''POST'', ae_path = [''api'', ''v0'', ''auth'', ''did''], ae_authorization = None,
     ae_body = Some ''{}''\<rparr>"

theorem auth_app_changes_validated_witness:
  "\<exists>reply w' ds. auth_app example_api_lib example_api_answers example_api_event example_auth_world = Some (reply, w')
     \<and> opt_prop example_registration ''dids'' = Some (IList (map IString ds)) \<and> ''did:key:c'' \<in> set ds
     \<and> get_item did_key (''did:key:c'', ''0'') (dids (aw_db w')) \<noteq> None"
proof -
  let ?run = "auth_app example_api_lib example_api_answers example_api_event example_auth_world"
  have "case ?run of Some (reply, w') \<Rightarrow> get_item did_key (''did:key:c'', ''0'') (dids (aw_db w')) \<noteq> None | None \<Rightarrow> False"
    by code_simp
  then obtain reply w' where run: "?run = Some (reply, w')"
    and new: "get_item did_key (''did:key:c'', ''0'') (dids (aw_db w')) \<noteq> None"
    by (auto split: option.splits)
  have "get_item did_key (''did:key:c'', ''0'') (dids (aw_db example_auth_world)) = None" by code_simp
  then have changed: "get_item did_key (''did:key:c'', ''0'') (dids (aw_db w'))
      \<noteq> get_item did_key (''did:key:c'', ''0'') (dids (aw_db example_auth_world))" using new by simp
  have sound: "joi_sound (al_joi example_api_lib)" by (simp add: example_api_lib_def example_joi_sound)
  have route: "api_route_of (ae_method example_api_event) (ae_path example_api_event) = Some PostDid"
    and parsed: "parseAsJson example_api_lib example_api_event = Inr example_registration" by code_simp+
  from auth_app_changes_validated [OF sound run changed] obtain ds where
    "opt_prop example_registration ''dids'' = Some (IList (map IString ds))" "''did:key:c'' \<in> set ds"
    by (auto simp: route parsed)
  then show ?thesis using run new by blast
qed

end
