(* ===== verification/Issued_Codes.thy ===== *)
theory Issued_Codes
  imports Auth_Api
begin

text \<open>
  What leaves the authorization application beside its replies, \<open>src/auth/src/services/aws/ses.ts\<close> and
  \<open>src/auth/src/utils/metrics.ts\<close>; and the whole application over any sequence of events: without the
  credentials of the administrator a DID is registered or revoked only with a code that an earlier event
  made up for that email address and sent there.
\<close>

section \<open>Mail and metrics\<close>

record email_message =
  em_to :: "string list"
  em_source :: string
  em_subject :: string
  em_text :: string
  em_html :: string

definition verification_mail :: "string \<Rightarrow> string \<Rightarrow> email_message" where
  "verification_mail email secret =
     \<lparr>em_to = [email], em_source = ''no-reply@3boxlabs.com'', em_subject = ''Ceramic Anchor Service verification code'',
      em_text = ''Your secret verification code: '' @ secret,
      em_html = ''<html><body><p>This is your secret verification code. It will expire in 30 minutes:</p>''
        @ [CHR 0x0A] @ replicate 27 (CHR '' '') @ ''<h3>'' @ secret @ ''</h3></body></html>''\<rparr>"

text \<open>\<open>sendVerificationCode\<close>: what is handed to the client of SES, nothing in tests.\<close>

definition sendVerificationCode :: "bool \<Rightarrow> string \<Rightarrow> string \<Rightarrow> email_message list" where
  "sendVerificationCode testing email secret = (if testing then [] else [verification_mail email secret])"

definition outbox :: "bool \<Rightarrow> auth_world \<Rightarrow> email_message list" where
  "outbox testing w = concat (map (\<lambda>(email, code). sendVerificationCode testing email code) (aw_mails w))"

text \<open>
  \<open>CloudMetrics\<close>, with the data points that were put: namespace, name and value. Errors of the client, or
  that there is none, are logged; the parameters of \<open>count\<close> are not used.
\<close>

record cloud_metrics =
  base_name :: string
  namespace :: string
  cwclient :: bool
  put_data :: "(string \<times> string \<times> int) list"

definition newCloudMetrics :: "string option \<Rightarrow> string option \<Rightarrow> bool \<Rightarrow> cloud_metrics" where
  "newCloudMetrics base ns client_made =
     \<lparr>base_name = (case given base of Some b \<Rightarrow> b | None \<Rightarrow> ''cas_auth_did-testing''),
      namespace = (case given ns of Some n \<Rightarrow> n | None \<Rightarrow> ''CeramicAnchorService''), cwclient = client_made, put_data = []\<rparr>"

definition count_metric :: "cloud_metrics \<Rightarrow> string \<Rightarrow> int \<Rightarrow> string \<Rightarrow> bool \<Rightarrow> cloud_metrics" where
  "count_metric m label v params fails =
     (let metric_name = base_name m @ ''_'' @ label
      in if cwclient m \<and> \<not> fails then m\<lparr>put_data := put_data m @ [(namespace m, metric_name, v)]\<rparr> else m)"

text \<open>What the routes count: the name, and the result that is passed as a parameter.\<close>

fun route_metric :: "api_route \<Rightarrow> auth_reply \<Rightarrow> (string \<times> string) option" where
  "route_metric PostDid AtCapacity = Some (''did_registration_total'', ''refused'')"
| "route_metric PostDid (RegistrationFailed e) = Some (''did_registration_total'', ''register_error'')"
| "route_metric PostDid NoNewDIDs = Some (''did_registration_total'', ''no_data'')"
| "route_metric PostDid (Registered rs) = Some (''did_registration_total'', ''success'')"
| "route_metric PostDid GatewayFailed = Some (''did_registration_total'', ''gateway_error'')"
| "route_metric (PatchDid d) (Revoked e u s) = Some (''did_revocation_total'', ''success'')"
| "route_metric (PatchDid d) NotRevoked = Some (''did_revocation_total'', ''error'')"
| "route_metric PostVerification CodeSent = Some (''otp_request_total'', ''sent'')"
| "route_metric PostVerification Unavailable = Some (''otp_request_total'', ''unavailable'')"
| "route_metric r x = None"

definition count_reply :: "api_route \<Rightarrow> auth_reply \<Rightarrow> bool \<Rightarrow> cloud_metrics \<Rightarrow> cloud_metrics" where
  "count_reply r x fails m =
     (case route_metric r x of None \<Rightarrow> m | Some (label, params) \<Rightarrow> count_metric m label 1 params fails)"

text \<open>
  The counter of registrations can not tell those that were refused or failed from those that succeeded: the
  result that every route passes is lost.
\<close>

lemma registrations_counted_alike:
  "count_reply PostDid (Registered rs) fails m = count_reply PostDid AtCapacity fails m"
  "count_reply PostDid (Registered rs) fails m = count_reply PostDid (RegistrationFailed e) fails m"
  "count_reply (PatchDid d) (Revoked owner u s) fails m = count_reply (PatchDid d) NotRevoked fails m"
  by (simp_all add: count_reply_def count_metric_def)

section \<open>Sequences of events\<close>

text \<open>A code that an event makes up, for whom and when.\<close>

record issued =
  ic_email :: string
  ic_code :: string
  ic_at :: int

definition issue :: "api_lib \<Rightarrow> api_answers \<Rightarrow> api_event \<Rightarrow> issued list" where
  "issue al ans ev =
     (if \<not> al_body_accepted al ev then []
      else case parseAsJson al ev of
        Inl e \<Rightarrow> []
      | Inr b \<Rightarrow>
          (if api_route_of (ae_method ev) (ae_path ev) = Some PostVerification \<and> validated (al_joi al) verifyValidation ev [] b
           then [\<lparr>ic_email = text_at b ''email'', ic_code = aa_otp ans, ic_at = aa_now ans\<rparr>] else []))"

text \<open>
  The world after an event. A revocation whose search for the API key does not end is cut off, and has been
  done.
\<close>

definition auth_after :: "api_lib \<Rightarrow> api_answers \<times> api_event \<Rightarrow> auth_world \<Rightarrow> auth_world" where
  "auth_after al e w =
     (case e of (ans, ev) \<Rightarrow>
        (case auth_app al ans ev w of
           Some (reply, w') \<Rightarrow> w'
         | None \<Rightarrow>
             (case (parseAsJson al ev, api_route_of (ae_method ev) (ae_path ev)) of
                (Inr b, Some (PatchDid d)) \<Rightarrow>
                  snd (on_db (revokeDID (aa_now ans) (text_at b ''email'') (text_at b ''otp'') d) w)
              | _ \<Rightarrow> w)))"

definition auth_run :: "api_lib \<Rightarrow> (api_answers \<times> api_event) list \<Rightarrow> auth_world \<Rightarrow> auth_world" where
  "auth_run al = fold (auth_after al)"

definition issued_in :: "api_lib \<Rightarrow> (api_answers \<times> api_event) list \<Rightarrow> issued list" where
  "issued_in al evs = concat (map (\<lambda>(ans, ev). issue al ans ev) evs)"

section \<open>Codes in the registry\<close>

text \<open>
  From one state to a later one no codes appear but the given ones, keys stay distinct, and commands that do
  not fail go on not failing.
\<close>

definition code_of :: "otp_item \<Rightarrow> item_key \<times> int" where
  "code_of x = (otp_key x, otp_expires x)"

definition codes_within :: "(item_key \<times> int) set \<Rightarrow> registry \<Rightarrow> registry \<Rightarrow> bool" where
  "codes_within N a b \<longleftrightarrow> code_of ` set (otps b) \<subseteq> N \<union> code_of ` set (otps a)
     \<and> (distinct (map otp_key (otps a)) \<longrightarrow> distinct (map otp_key (otps b)))
     \<and> (faults a = [] \<longrightarrow> faults b = [])"

interpretation code_history: history "codes_within N" for N
proof
  fix a b c
  assume ab: "codes_within N a b" and bc: "codes_within N b c"
  have "code_of ` set (otps c) \<subseteq> N \<union> code_of ` set (otps b)" using bc by (simp add: codes_within_def)
  also have "\<dots> \<subseteq> N \<union> code_of ` set (otps a)" using ab by (simp add: codes_within_def)
  finally show "codes_within N a c" using ab bc by (simp add: codes_within_def)
qed (simp_all add: codes_within_def)

lemma codes_within_same: "otps b = otps a \<Longrightarrow> (faults a = [] \<longrightarrow> faults b = []) \<Longrightarrow> codes_within N a b"
  by (simp add: codes_within_def)

lemma codes_within_mono: "codes_within N a b \<Longrightarrow> N \<subseteq> N' \<Longrightarrow> codes_within N' a b"
  by (auto simp: codes_within_def)

lemma codes_within_change:
  assumes "\<And>i. code_of (f i) = code_of i"
  shows "codes_within N db (db\<lparr>otps := change_item otp_key k f (otps db)\<rparr>)"
proof -
  have "otp_key (f i) = otp_key i" for i using assms [of i] by (simp add: code_of_def)
  then have "map otp_key (change_item otp_key k f (otps db)) = map otp_key (otps db)" by simp
  moreover have "map code_of (change_item otp_key k f (otps db)) = map code_of (otps db)"
    by (simp add: change_item_def assms)
  then have "code_of ` set (change_item otp_key k f (otps db)) = code_of ` set (otps db)" by (metis set_map)
  ultimately show ?thesis by (simp add: codes_within_def)
qed

lemma codes_checkCorrectOTP [intro!]: "obeys (codes_within N) (checkCorrectOTP now email otp)"
  by (auto simp: checkCorrectOTP_def code_history.later_refl code_of_def intro!: codes_within_change split: option.split)

lemma codes_put_new_did [intro!]: "obeys (codes_within N) (put_new_did i)"
  by (auto simp: put_new_did_def intro!: codes_within_same)

lemma codes_register_each [intro!]: "obeys (codes_within N) (register_each now email otp ds)"
  by (induction ds) (auto simp: registerDID_def)

lemma codes_operations:
  "obeys (codes_within N) (registerDIDs now email otp ds skip)"
  "obeys (codes_within N) (revokeDID now email otp did)"
  "obeys (codes_within N) (getConfig key)"
  "obeys (codes_within N) (updateConfig now key v)"
  by (auto simp: registerDIDs_def revokeDID_def revoke_command_def getConfig_def updateConfig_def
      intro!: codes_within_same split: option.split)

lemma codes_expire_all [intro!]: "obeys (codes_within N) (expire_all now xs)"
  by (induction xs) (auto simp: expireOTP_def updateOTP_def code_history.later_refl code_of_def
      intro!: codes_within_change split: option.split)

lemma codes_createEmailVerificationCode:
  "obeys (codes_within {((email, otp), now + 1800)}) (createEmailVerificationCode page now otp email)"
proof -
  have "codes_within {((email, otp), now + 1800)} db (snd (Inr (), db\<lparr>otps := put_item otp_key
      \<lparr>otp_key = (email, otp), otp_attempts = 0, otp_status = OtpActive, otp_created = now, otp_updated = now,
        otp_expires = now + 30 * 60\<rparr> (otps db)\<rparr>))" for db
    by (auto simp: codes_within_def put_item_def code_of_def distinct_map_filter)
  then have "obeys (codes_within {((email, otp), now + 1800)}) (addOTP now email otp)"
    unfolding addOTP_def by (intro code_history.obeys_send)
  then show ?thesis
    by (auto simp: createEmailVerificationCode_def new_verification_code_def getActiveOTPs_def
        intro!: code_history.later_refl)
qed

text \<open>A verification request is answered with its code as long as no command fails.\<close>

lemma code_returned:
  assumes "faults db = []" and "distinct (map otp_key (otps db))"
  shows "fst (createEmailVerificationCode page now otp email db) = Inr (Some otp)"
proof -
  let ?active = "filter (\<lambda>i. otp_status i = OtpActive) (take page (filter (\<lambda>i. fst (otp_key i) = email) (otps db)))"
  have "distinct (map otp_key (take page (filter (\<lambda>i. fst (otp_key i) = email) (otps db))))"
    using assms(2) by (simp add: distinct_map_filter flip: take_map)
  then have "distinct (map otp_key ?active)" by (rule distinct_map_filter)
  moreover have "\<exists>j. get_item otp_key (otp_key i) (otps db) = Some j \<and> otp_status j \<noteq> OtpExpired" if "i \<in> set ?active" for i
  proof -
    have "i \<in> set (otps db)" "otp_status i = OtpActive" using that by (auto dest: in_set_takeD)
    then show ?thesis using find_unique_key [OF assms(2)] by (simp add: get_item_def)
  qed
  ultimately have "expire_all now ?active db = (Inr (), db\<lparr>otps := expire_items now (otp_key ` set ?active) (otps db)\<rparr>)"
    using expire_all_run [OF assms(1)] by blast
  then show ?thesis using assms(1)
    by (simp add: createEmailVerificationCode_def new_verification_code_def getActiveOTPs_def addOTP_def send_def command_defs)
qed

section \<open>What an event does to the codes\<close>

definition new_codes :: "issued list \<Rightarrow> (item_key \<times> int) set" where
  "new_codes xs = (\<lambda>i. ((ic_email i, ic_code i), ic_at i + 1800)) ` set xs"

lemma on_db_codes:
  assumes "obeys (codes_within N) m" and "on_db m w = (r, w1)"
  shows "codes_within N (aw_db w) (aw_db w1) \<and> aw_mails w1 = aw_mails w"
  using assms by (auto simp: on_db_def dest: code_history.obeysD split: prod.splits)

lemma register_and_key_codes:
  assumes "register_and_key now email otp ds skip w = (x, w1)"
  shows "codes_within {} (aw_db w) (aw_db w1) \<and> aw_mails w1 = aw_mails w"
proof -
  obtain r w2 where r: "on_db (registerDIDs now email otp ds skip) w = (r, w2)"
    by (cases "on_db (registerDIDs now email otp ds skip) w")
  have "aw_db w1 = aw_db w2 \<and> aw_mails w1 = aw_mails w2" using assms r
    by (auto simp: register_and_key_def split: sum.splits list.splits prod.splits bool.splits)
  then show ?thesis using on_db_codes [OF codes_operations(1) r] by simp
qed

lemma post_did_codes:
  assumes "post_did lib now user pass authorization email otp ds w = (x, w1)"
  shows "codes_within {} (aw_db w) (aw_db w1) \<and> aw_mails w1 = aw_mails w"
proof -
  obtain r w2 where config: "on_db (getConfig REGISTRATION_ENABLED) w = (r, w2)"
    by (cases "on_db (getConfig REGISTRATION_ENABLED) w")
  note read = on_db_codes [where N = "{}", OF codes_operations(3) config]
  show ?thesis
  proof (cases "w1 = w \<or> w1 = w2")
    case True
    then show ?thesis using read by (auto simp: code_history.later_refl)
  next
    case False
    then obtain w3 skip where "register_and_key now email otp ds skip w3 = (x, w1)" "w3 = w \<or> w3 = w2"
      using assms config by (auto simp: post_did_def split: admin_answer.splits sum.splits if_splits)
    then show ?thesis using register_and_key_codes read
      by (metis code_history.later_refl code_history.later_trans)
  qed
qed

lemma patch_did_codes:
  assumes "patch_did now email otp d answers w = Some (x, w1)"
  shows "codes_within {} (aw_db w) (aw_db w1) \<and> aw_mails w1 = aw_mails w"
proof -
  obtain r w2 where r: "on_db (revokeDID now email otp d) w = (r, w2)"
    by (cases "on_db (revokeDID now email otp d) w")
  have "aw_db w1 = aw_db w2 \<and> aw_mails w1 = aw_mails w2" using assms r
    by (auto simp: patch_did_def split: sum.splits option.splits prod.splits)
  then show ?thesis using on_db_codes [OF codes_operations(2) r] by simp
qed

lemma admin_only_codes:
  assumes "\<And>w r w1. run w = (r, w1) \<Longrightarrow> codes_within {} (aw_db w) (aw_db w1) \<and> aw_mails w1 = aw_mails w"
    and "admin_only lib now user pass a run w = (x, w1)"
  shows "codes_within {} (aw_db w) (aw_db w1) \<and> aw_mails w1 = aw_mails w"
  using assms(2) assms(1) [of w] by (auto simp: admin_only_def code_history.later_refl split: admin_answer.splits)

lemma config_codes:
  "get_config_key k w = (x, w1) \<Longrightarrow> codes_within {} (aw_db w) (aw_db w1) \<and> aw_mails w1 = aw_mails w"
  "put_config now k v w = (x, w1) \<Longrightarrow> codes_within {} (aw_db w) (aw_db w1) \<and> aw_mails w1 = aw_mails w"
  using on_db_codes [where N = "{}", OF codes_operations(3), of k w] on_db_codes [where N = "{}", OF codes_operations(4), of now k v w]
  by (auto simp: get_config_key_def put_config_def split: prod.splits sum.splits option.splits)

lemma post_verification_codes:
  assumes "post_verification page now otp mail_fails email w = (x, w1)"
  shows "codes_within {((email, otp), now + 1800)} (aw_db w) (aw_db w1)
    \<and> (\<exists>ms. aw_mails w1 = aw_mails w @ ms)
    \<and> (faults (aw_db w) = [] \<longrightarrow> distinct (map otp_key (otps (aw_db w))) \<longrightarrow> \<not> mail_fails \<longrightarrow> otp \<noteq> []
        \<longrightarrow> (email, otp) \<in> set (aw_mails w1))"
proof -
  obtain r w2 where r: "on_db (createEmailVerificationCode page now otp email) w = (r, w2)"
    by (cases "on_db (createEmailVerificationCode page now otp email) w")
  have same: "aw_db w1 = aw_db w2" using assms r
    by (auto simp: post_verification_def split: sum.splits option.splits prod.splits if_splits)
  have r_is: "r = fst (createEmailVerificationCode page now otp email (aw_db w))"
    using r by (simp add: on_db_def split: prod.splits)
  note codes = on_db_codes [OF codes_createEmailVerificationCode r]
  have mails: "\<exists>ms. aw_mails w1 = aw_mails w @ ms" using assms r codes
    by (auto simp: post_verification_def split: sum.splits option.splits prod.splits if_splits)
  have sent: "(email, otp) \<in> set (aw_mails w1)"
    if "faults (aw_db w) = []" "distinct (map otp_key (otps (aw_db w)))" "\<not> mail_fails" "otp \<noteq> []"
    using assms r code_returned [OF that(1,2), of page now otp email] that(3,4)
    by (auto simp: post_verification_def r_is)
  show ?thesis using codes same mails sent by simp
qed

definition event_codes :: "issued list \<Rightarrow> bool \<Rightarrow> auth_world \<Rightarrow> auth_world \<Rightarrow> bool" where
  "event_codes xs mail_fails w w' \<longleftrightarrow> codes_within (new_codes xs) (aw_db w) (aw_db w')
     \<and> set (aw_mails w) \<subseteq> set (aw_mails w')
     \<and> (faults (aw_db w) = [] \<and> distinct (map otp_key (otps (aw_db w))) \<and> \<not> mail_fails \<longrightarrow>
          (\<forall>i\<in>set xs. ic_code i \<noteq> [] \<longrightarrow> (ic_email i, ic_code i) \<in> set (aw_mails w')))"

lemma no_codes:
  "codes_within {} (aw_db w) (aw_db w') \<and> aw_mails w' = aw_mails w \<Longrightarrow> event_codes [] f w w'"
  by (simp add: event_codes_def new_codes_def)

lemma run_route_codes:
  assumes run: "run_route al ans r ev b w = Some (reply, w')"
  shows "event_codes (if r = PostVerification \<and> validated (al_joi al) verifyValidation ev [] b
    then [\<lparr>ic_email = text_at b ''email'', ic_code = aa_otp ans, ic_at = aa_now ans\<rparr>] else []) (aa_mail_fails ans) w w'"
proof (cases r)
  case PostVerification
  obtain x w1 where a: "post_verification (aa_page ans) (aa_now ans) (aa_otp ans) (aa_mail_fails ans) (text_at b ''email'') w
      = (x, w1)" by fastforce
  have "w' = (if validated (al_joi al) verifyValidation ev [] b then w1 else w)"
    using run a by (auto simp: run_route_def PostVerification Let_def split: if_splits)
  then show ?thesis using post_verification_codes [OF a] PostVerification
    by (auto simp: event_codes_def new_codes_def code_history.later_refl)
next
  case GetKeys
  then have "w' = w" using run by (auto simp: run_route_def Let_def split: if_splits admin_answer.splits)
  then show ?thesis using GetKeys by (simp add: no_codes code_history.later_refl)
next
  case (GetKey k)
  obtain x w1 where a: "admin_only (al_creds al) (aa_now ans) (al_user al) (al_password al)
      (case ae_authorization ev of Some a \<Rightarrow> a | None \<Rightarrow> ''undefined'') (get_config_key k) w = (x, w1)" by fastforce
  have "w' = w \<or> w' = w1" using run a by (auto simp: run_route_def GetKey Let_def split: if_splits)
  then show ?thesis using admin_only_codes [OF config_codes(1) a] GetKey by (auto intro!: no_codes simp: code_history.later_refl)
next
  case PutConfig
  obtain x w1 where a: "admin_only (al_creds al) (aa_now ans) (al_user al) (al_password al)
      (case ae_authorization ev of Some a \<Rightarrow> a | None \<Rightarrow> ''undefined'')
      (put_config (aa_now ans) (text_at b ''PK'') (opt_prop b ''v'')) w = (x, w1)" by fastforce
  have "w' = w \<or> w' = w1" using run a by (auto simp: run_route_def PutConfig Let_def split: if_splits)
  then show ?thesis using admin_only_codes [OF config_codes(2) a] PutConfig by (auto intro!: no_codes simp: code_history.later_refl)
next
  case PostDid
  obtain x w1 where a: "post_did (al_creds al) (aa_now ans) (al_user al) (al_password al) (ae_authorization ev)
      (text_at b ''email'') (text_at b ''otp'') (texts_at b ''dids'') w = (x, w1)" by fastforce
  have "w' = w \<or> w' = w1" using run a by (auto simp: run_route_def PostDid Let_def split: if_splits)
  then show ?thesis using post_did_codes [OF a] PostDid by (auto intro!: no_codes simp: code_history.later_refl)
next
  case (PatchDid d)
  have "w' = w \<or> (\<exists>x. patch_did (aa_now ans) (text_at b ''email'') (text_at b ''otp'') d (aa_keys ans) w = Some (x, w'))"
    using run by (auto simp: run_route_def PatchDid Let_def split: if_splits)
  then show ?thesis using patch_did_codes PatchDid
    by (auto intro!: no_codes simp: code_history.later_refl)
qed

lemma event_codes_refl: "event_codes [] f w w"
  by (simp add: no_codes code_history.later_refl)

lemma auth_after_codes: "event_codes (issue al ans ev) (aa_mail_fails ans) w (auth_after al (ans, ev) w)"
proof (cases "auth_app al ans ev w")
  case None
  then obtain b r where b: "al_body_accepted al ev" "parseAsJson al ev = Inr b"
      "api_route_of (ae_method ev) (ae_path ev) = Some r" "run_route al ans r ev b w = None"
    by (auto simp: auth_app_def split: if_splits sum.splits option.splits)
  then obtain d where d: "r = PatchDid d"
    by (cases r) (auto simp: run_route_def Let_def split: if_splits admin_answer.splits prod.splits)
  obtain x w1 where w1: "on_db (revokeDID (aa_now ans) (text_at b ''email'') (text_at b ''otp'') d) w = (x, w1)"
    by fastforce
  have "auth_after al (ans, ev) w = w1" using None b d w1 by (simp add: auth_after_def)
  moreover have "issue al ans ev = []" using b d by (simp add: issue_def)
  ultimately show ?thesis using on_db_codes [OF codes_operations(2) w1] by (simp add: no_codes)
next
  case (Some a)
  then obtain reply w' where run: "auth_app al ans ev w = Some (reply, w')" by (cases a) simp
  then have after: "auth_after al (ans, ev) w = w'" by (simp add: auth_after_def)
  show ?thesis
  proof (cases "al_body_accepted al ev")
    case True
    show ?thesis
    proof (cases "parseAsJson al ev")
      case (Inl e)
      then show ?thesis using run after True by (simp add: auth_app_def issue_def event_codes_refl)
    next
      case (Inr b)
      then show ?thesis using run after True run_route_codes
        by (cases "api_route_of (ae_method ev) (ae_path ev)") (auto simp: auth_app_def issue_def event_codes_refl)
    qed
  qed (use run after in \<open>simp add: auth_app_def issue_def event_codes_refl\<close>)
qed

text \<open>Along a sequence of events every code of the registry was issued, and mailed where nothing failed.\<close>

lemma run_codes:
  assumes "otps (aw_db w) = []"
  shows "code_of ` set (otps (aw_db (auth_run al evs w))) \<subseteq> new_codes (issued_in al evs)
    \<and> distinct (map otp_key (otps (aw_db (auth_run al evs w))))
    \<and> (faults (aw_db w) = [] \<longrightarrow> faults (aw_db (auth_run al evs w)) = []
        \<and> ((\<forall>(ans, ev)\<in>set evs. \<not> aa_mail_fails ans) \<longrightarrow> (\<forall>i\<in>set (issued_in al evs). ic_code i \<noteq> [] \<longrightarrow>
             (ic_email i, ic_code i) \<in> set (aw_mails (auth_run al evs w)))))"
proof (induction evs rule: rev_induct)
  case Nil
  then show ?case using assms by (simp add: auth_run_def issued_in_def)
next
  case (snoc e evs)
  obtain ans ev where e: "e = (ans, ev)" by (cases e)
  let ?u = "auth_run al evs w" and ?v = "auth_run al (evs @ [e]) w"
  have step: "event_codes (issue al ans ev) (aa_mail_fails ans) ?u ?v"
    using auth_after_codes by (simp add: auth_run_def e)
  have issued: "issued_in al (evs @ [e]) = issued_in al evs @ issue al ans ev" by (simp add: issued_in_def e)
  have codes: "codes_within (new_codes (issue al ans ev)) (aw_db ?u) (aw_db ?v)" using step by (simp add: event_codes_def)
  have "code_of ` set (otps (aw_db ?v)) \<subseteq> new_codes (issue al ans ev) \<union> code_of ` set (otps (aw_db ?u))"
    using codes by (simp add: codes_within_def)
  also have "\<dots> \<subseteq> new_codes (issued_in al (evs @ [e]))" using snoc.IH by (auto simp: issued new_codes_def)
  finally have within: "code_of ` set (otps (aw_db ?v)) \<subseteq> new_codes (issued_in al (evs @ [e]))" .
  have "distinct (map otp_key (otps (aw_db ?v)))" using codes snoc.IH by (simp add: codes_within_def)
  moreover have "faults (aw_db ?v) = []" if "faults (aw_db w) = []"
    using codes snoc.IH that by (simp add: codes_within_def)
  moreover have "(ic_email i, ic_code i) \<in> set (aw_mails ?v)"
    if "faults (aw_db w) = []" "\<forall>(ans, ev)\<in>set (evs @ [e]). \<not> aa_mail_fails ans" "i \<in> set (issued_in al (evs @ [e]))" "ic_code i \<noteq> []" for i
  proof -
    have "i \<in> set (issued_in al evs) \<union> set (issue al ans ev)" using that(3) by (simp add: issued)
    then show ?thesis using step snoc.IH that(1,2,4) by (auto simp: event_codes_def e)
  qed
  ultimately show ?case using within by blast
qed

section \<open>Who registers and revokes\<close>

lemma dids_kept_config: "on_db (getConfig k) w = (r, w1) \<Longrightarrow> otps (aw_db w1) = otps (aw_db w) \<and> dids (aw_db w1) = dids (aw_db w)"
  using getConfig_reads [of k "aw_db w"] by (auto simp: on_db_def split: prod.splits)

lemma unchecked_keeps_dids:
  assumes "checkCorrectOTP now email otp db = (r, db1)"
  shows "dids db1 = dids db"
  using assms by (auto simp: checkCorrectOTP_def command_defs send_def split: list.splits fault.splits option.splits if_splits)

text \<open>The code a change of the DIDs was checked against is in the registry and has not expired.\<close>

definition valid_code :: "int \<Rightarrow> string \<Rightarrow> string \<Rightarrow> registry \<Rightarrow> bool" where
  "valid_code now email otp db \<longleftrightarrow> (\<exists>x\<in>set (otps db). otp_key x = (email, otp) \<and> now < otp_expires x)"

lemma checked_code: "checkCorrectOTP now email otp db = (Inr True, db') \<Longrightarrow> valid_code now email otp db"
  by (elim checkCorrectOTP_True) (auto simp: valid_code_def get_item_def dest: find_some_mem)

lemma registration_needs_code:
  assumes "registerDIDs now email otp ds False db = (r, db')" and "dids db' \<noteq> dids db"
  shows "valid_code now email otp db"
proof -
  obtain c db1 where c: "checkCorrectOTP now email otp db = (c, db1)" by fastforce
  have "c = Inr True"
    using assms c unchecked_keeps_dids [OF c] by (auto simp: registerDIDs_def command_defs split: sum.splits if_splits)
  then show ?thesis using c checked_code by simp
qed

lemma revocation_needs_code:
  assumes "revokeDID now email otp d db = (r, db')" and "dids db' \<noteq> dids db"
  shows "valid_code now email otp db"
proof -
  obtain c db1 where c: "checkCorrectOTP now email otp db = (c, db1)" by fastforce
  have "c = Inr True"
    using assms c unchecked_keeps_dids [OF c] by (auto simp: revokeDID_def command_defs split: sum.splits if_splits)
  then show ?thesis using c checked_code by simp
qed

lemma register_and_key_needs_code:
  assumes "register_and_key now email otp ds False w = (x, w1)" and "dids (aw_db w1) \<noteq> dids (aw_db w)"
  shows "valid_code now email otp (aw_db w)"
proof -
  obtain r w2 where r: "on_db (registerDIDs now email otp ds False) w = (r, w2)"
    by (cases "on_db (registerDIDs now email otp ds False) w")
  have "aw_db w1 = aw_db w2" using assms r
    by (auto simp: register_and_key_def split: sum.splits list.splits prod.splits bool.splits)
  then show ?thesis using r assms(2) registration_needs_code by (auto simp: on_db_def split: prod.splits)
qed

lemma post_did_needs_code:
  assumes "post_did lib now user pass authorization email otp ds w = (x, w1)" and "dids (aw_db w1) \<noteq> dids (aw_db w)"
    and "caller lib now user pass authorization \<noteq> Admin"
  shows "valid_code now email otp (aw_db w)"
proof -
  obtain r w2 where config: "on_db (getConfig REGISTRATION_ENABLED) w = (r, w2)"
    by (cases "on_db (getConfig REGISTRATION_ENABLED) w")
  note read = dids_kept_config [OF config]
  have "register_and_key now email otp ds False w2 = (x, w1)"
    using assms config read by (auto simp: post_did_def split: admin_answer.splits sum.splits if_splits)
  then have "valid_code now email otp (aw_db w2)" using register_and_key_needs_code read assms(2) by metis
  then show ?thesis using read by (simp add: valid_code_def)
qed

lemma patch_did_needs_code:
  assumes "patch_did now email otp d answers w = Some (x, w1)" and "dids (aw_db w1) \<noteq> dids (aw_db w)"
  shows "valid_code now email otp (aw_db w)"
proof -
  obtain r w2 where r: "on_db (revokeDID now email otp d) w = (r, w2)"
    by (cases "on_db (revokeDID now email otp d) w")
  have "aw_db w1 = aw_db w2" using assms r
    by (auto simp: patch_did_def split: sum.splits option.splits prod.splits)
  then show ?thesis using r assms(2) revocation_needs_code by (auto simp: on_db_def split: prod.splits)
qed


lemma event_needs_code:
  assumes run: "run_route al ans r ev b w = Some (reply, w')"
    and changed: "get_item did_key k (dids (aw_db w')) \<noteq> get_item did_key k (dids (aw_db w))"
    and caller: "caller (al_creds al) (aa_now ans) (al_user al) (al_password al) (ae_authorization ev) \<noteq> Admin"
  shows "valid_code (aa_now ans) (text_at b ''email'') (text_at b ''otp'') (aw_db w)"
proof -
  have dids: "dids (aw_db w') \<noteq> dids (aw_db w)" using changed by auto
  have "\<not> only_dids {} (aw_db w) (aw_db w')" using changed by (metis empty_iff only_dids_def)
  then consider "r = PostDid" | d where "r = PatchDid d" using run_route_reads [OF run] by blast
  then show ?thesis
  proof cases
    case 1
    then have "\<exists>x. post_did (al_creds al) (aa_now ans) (al_user al) (al_password al) (ae_authorization ev)
        (text_at b ''email'') (text_at b ''otp'') (texts_at b ''dids'') w = (x, w')"
      using run dids by (auto simp: run_route_def Let_def split: if_splits prod.splits)
    then show ?thesis using post_did_needs_code dids caller by metis
  next
    case 2
    then have "\<exists>x. patch_did (aa_now ans) (text_at b ''email'') (text_at b ''otp'') d (aa_keys ans) w = Some (x, w')"
      using run dids by (auto simp: run_route_def Let_def split: if_splits)
    then show ?thesis using patch_did_needs_code dids by metis
  qed
qed

text \<open>
  C35 (handlers/api.ts, dynamodb.ts, db.ts, ses.ts): after any events on a registry that started without codes,
  an event without the credentials of the administrator registers or revokes a DID only with a code that an
  earlier verification request for the very email address of its body made up, less than half an hour before;
  and if no command and no mail failed, that code had been mailed to that address.
\<close>

theorem only_issued_codes:
  assumes "otps (aw_db w0) = []" and "w = auth_run al evs w0" and "auth_app al ans ev w = Some (reply, w')"
    and "caller (al_creds al) (aa_now ans) (al_user al) (al_password al) (ae_authorization ev) \<noteq> Admin"
    and "get_item did_key k (dids (aw_db w')) \<noteq> get_item did_key k (dids (aw_db w))"
  shows "\<exists>b i. parseAsJson al ev = Inr b \<and> i \<in> set (issued_in al evs)
    \<and> ic_email i = text_at b ''email'' \<and> ic_code i = text_at b ''otp'' \<and> aa_now ans < ic_at i + 1800
    \<and> (faults (aw_db w0) = [] \<and> (\<forall>(a, e)\<in>set evs. \<not> aa_mail_fails a) \<and> ic_code i \<noteq> [] \<longrightarrow>
         verification_mail (ic_email i) (ic_code i) \<in> set (outbox False w))"
proof -
  obtain b r where b: "parseAsJson al ev = Inr b" and run: "run_route al ans r ev b w = Some (reply, w')"
    using assms(3,5) by (auto simp: auth_app_def split: if_splits sum.splits option.splits)
  obtain x where x: "x \<in> set (otps (aw_db w))" "otp_key x = (text_at b ''email'', text_at b ''otp'')" "aa_now ans < otp_expires x"
    using event_needs_code [OF run assms(5,4)] by (auto simp: valid_code_def)
  have "code_of x \<in> new_codes (issued_in al evs)" using run_codes [OF assms(1)] x(1) assms(2) by blast
  then obtain i where i: "i \<in> set (issued_in al evs)" "otp_key x = (ic_email i, ic_code i)" "otp_expires x = ic_at i + 1800"
    by (auto simp: new_codes_def code_of_def)
  have "verification_mail (ic_email i) (ic_code i) \<in> set (outbox False w)"
    if "faults (aw_db w0) = [] \<and> (\<forall>(a, e)\<in>set evs. \<not> aa_mail_fails a) \<and> ic_code i \<noteq> []"
  proof -
    have "(ic_email i, ic_code i) \<in> set (aw_mails w)" using run_codes [OF assms(1)] assms(2) i(1) that by blast
    then show ?thesis by (force simp: outbox_def sendVerificationCode_def)
  qed
  then show ?thesis using b i x by auto
qed

section \<open>A code that is mailed and used\<close>

definition example_bodies :: "string \<Rightarrow> cas_error + js_value" where
  "example_bodies t = Inr (Some (IMap (if t = ''verify'' then [(''email'', IString ''bob@x.io'')]
     else [(''email'', IString ''bob@x.io''), (''otp'', IString ''p9''), (''dids'', IList [IString ''did:key:c''])])))"

definition example_bodies_lib :: api_lib where
  "example_bodies_lib = example_api_lib\<lparr>al_json := example_bodies\<rparr>"

definition example_verification :: "api_answers \<times> api_event" where
  "example_verification = (example_api_answers, \<lparr>ae_method = ''POST'', ae_path = [''api'', ''v0'', ''auth'', ''verification''],
     ae_authorization = None, ae_body = Some ''verify''\<rparr>)"

definition example_empty_world :: auth_world where
  "example_empty_world = \<lparr>aw_db = \<lparr>otps = [], dids = [], configs = [], faults = []\<rparr>,
     aw_gateway = \<lparr>gw_keys = [], gw_plan = [], gw_next = 1, gw_fails = []\<rparr>, aw_mails = []\<rparr>"

theorem only_issued_codes_witness:
  "\<exists>i\<in>set (issued_in example_bodies_lib [example_verification]). ic_email i = ''bob@x.io'' \<and> ic_code i = ''p9''
     \<and> verification_mail ''bob@x.io'' ''p9''
         \<in> set (outbox False (auth_run example_bodies_lib [example_verification] example_empty_world))"
proof -
  let ?lib = example_bodies_lib and ?evs = "[example_verification]"
  let ?w = "auth_run ?lib ?evs example_empty_world" and ?k = "(''did:key:c'', ''0'')"
  let ?run = "auth_app ?lib example_api_answers example_api_event ?w"
  have "case ?run of Some (reply, w') \<Rightarrow> get_item did_key ?k (dids (aw_db w')) \<noteq> None | None \<Rightarrow> False"
    by code_simp
  then obtain reply w' where run: "?run = Some (reply, w')" and new: "get_item did_key ?k (dids (aw_db w')) \<noteq> None"
    by (auto split: option.splits)
  have "get_item did_key ?k (dids (aw_db ?w)) = None" by code_simp
  then have changed: "get_item did_key ?k (dids (aw_db w')) \<noteq> get_item did_key ?k (dids (aw_db ?w))" using new by simp
  have start: "otps (aw_db example_empty_world) = []" "faults (aw_db example_empty_world) = []"
    by (simp_all add: example_empty_world_def)
  have none: "caller (al_creds ?lib) (aa_now example_api_answers) (al_user ?lib) (al_password ?lib)
      (ae_authorization example_api_event) \<noteq> Admin" by code_simp
  have mails: "\<forall>(a, e)\<in>set ?evs. \<not> aa_mail_fails a" by code_simp
  obtain b i where b: "parseAsJson ?lib example_api_event = Inr b" and i: "i \<in> set (issued_in ?lib ?evs)"
    "ic_email i = text_at b ''email''" "ic_code i = text_at b ''otp''"
    and mailed: "ic_code i \<noteq> [] \<longrightarrow> verification_mail (ic_email i) (ic_code i) \<in> set (outbox False ?w)"
    using only_issued_codes [OF start(1) refl run none changed] start(2) mails by blast
  have "parseAsJson ?lib example_api_event = example_bodies ''{}''" by code_simp
  then have "ic_email i = ''bob@x.io''" "ic_code i = ''p9''"
    using b i by (simp_all add: example_bodies_def text_at_def opt_prop_def)
  then show ?thesis using i mailed by auto
qed

end
