(* ===== verification/Spec2Isabelle.thy ===== *)
theory Spec2Isabelle
  imports Service Ethereum Migration_Rollback Column_Names Ipfs_Reads Clients Observability Utilities Issued_Codes
begin

text \<open>
  The Ceramic Anchor Service (CAS) collects requests to anchor CIDs of streams, puts the newest CID of every
  stream into a Merkle tree, submits the root to an Ethereum chain, and hands out to each client the anchor
  commit with a CAR file that witnesses it. This library models its program: \<open>src/src\<close> (the service) and
  \<open>src/auth/src\<close> (the authorization application in front of it).

  How the parts interact. A request comes in over HTTP (\<open>Auth_Middleware\<close>, \<open>Http_Api\<close>), is stored as a row of
  the table \<open>request\<close> (\<open>Request_Service\<close>, \<open>Request_Repository\<close>) and queued or marked (\<open>Sqs_Queue\<close>). A worker
  started by the application (\<open>Application\<close>, \<open>Task_Scheduler\<close>) takes a batch, turns it into candidates
  (\<open>Candidate\<close>), builds the tree and the commits (\<open>Anchor_Service\<close>), submits the root (\<open>Ethereum\<close>) under a lock
  of the database (\<open>Transaction_Mutex\<close>), stores Merkle and witness CARs (\<open>Witness_Service\<close>, \<open>Car_Stores\<close>) and
  persists the anchors (\<open>Anchor_Repository\<close>). Clients read them back through \<open>Request_Service\<close> and
  \<open>Ipfs_Service\<close>. \<open>Service\<close> puts the operations of all processes on the database and the stores into step
  relations, and the section below states what holds in every state they reach.

  Theories, in the order of their imports:
  \<^item> \<open>CAS_Prelude\<close>: error sequencing (\<open>bindE\<close>), lists, the operations of JavaScript strings, decimal numbers, and
    the collections \<open>err_simps\<close>, \<open>repo_simps\<close>, \<open>table_inv\<close>.
  \<^item> \<open>Models\<close> (\<open>src/src/models\<close>): requests, statuses, anchors, messages, and the errors of the service.
  \<^item> \<open>Sql\<close>: what the repositories rely on of PostgreSQL. An \<open>attempt\<close> is one run of a repeatable-read
    transaction, on the state it sees; \<open>retrying\<close> is the loop that repeats it after error 40001. The order of
    result rows is the parameter \<open>db_engine\<close>, and \<open>sql_engine\<close> says that it sorts and loses nothing.
  \<^item> \<open>Request_Repository\<close>, \<open>Request_Laws\<close>, \<open>Request_Batching\<close> (\<open>repositories/request-repository.ts\<close>): the queries
    and updates, the facts they share (locale \<open>row_update\<close> for updates that keep the identity of rows, locale
    \<open>retried_transaction\<close> for the transactions), and their properties.
  \<^item> \<open>Anchor_Repository\<close> (\<open>repositories/anchor-repository.ts\<close>): the table \<open>anchor\<close> with its constraints.
  \<^item> \<open>Transaction_Mutex\<close> (\<open>repositories/transaction-repository.ts\<close>): the retry loop, and processes competing for
    the advisory lock as a step relation.
  \<^item> \<open>Path_Line\<close> (\<open>ancillary/codecs.ts\<close>), \<open>Car\<close>, \<open>Witness_Service\<close> (\<open>services/witness-service.ts\<close>): Merkle paths, CAR
    files over an abstract package (\<open>car_lib\<close>), building, walking and verifying witnesses. \<open>proves_anchor\<close> is the
    specification that both \<open>build_witness\<close> and \<open>verify\<close> are proved against.
  \<^item> \<open>Effects\<close>: programs that change a state, fail, or still wait for an answer.
  \<^item> \<open>Candidate\<close>, \<open>Anchor_Service\<close>, \<open>Anchoring\<close> (\<open>services/candidate.ts\<close>, \<open>services/anchor-service.ts\<close>,
    \<open>merkle/merkle-car-factory.ts\<close>): the whole handling of a batch and its properties.
  \<^item> \<open>Anchor_Storage\<close>, \<open>Service\<close>: what batches leave in the stores whatever their end, and all processes as one
    step relation on the database (\<open>cas_step\<close>) and on the database with the stores (\<open>service_step\<close>).
  \<^item> \<open>Ethereum\<close> (\<open>services/blockchain/ethereum/ethereum-blockchain-service.ts\<close>): fees, submission, confirmation.
  \<^item> \<open>Car_Stores\<close> (\<open>services/merkle-car-service.ts\<close> and the stores of the witness service): every store is an
    interpretation of the locale \<open>car_store\<close> (what is read was written) or \<open>durable_car_store\<close> (and stays).
  \<^item> \<open>Auth_Middleware\<close> (\<open>auth/auth.middleware.ts\<close>, \<open>ancillary/anchor-request-params-parser.ts\<close>), \<open>Request_Service\<close>
    (\<open>services/request-service.ts\<close>, \<open>services/request-presentation-service.ts\<close>), \<open>Http_Api\<close> (\<open>controllers\<close>,
    \<open>services/healthcheck-service.ts\<close>): requests from the headers to the reply.
  \<^item> \<open>Sqs_Queue\<close> (\<open>services/queue\<close>), \<open>Ipfs_Service\<close> (\<open>services/ipfs-service.ts\<close>), \<open>Task_Scheduler\<close>
    (\<open>services/task-scheduler-service.ts\<close>).
  \<^item> \<open>App_Config\<close> (\<open>normalize-config.util.ts\<close>, \<open>db-connection.ts\<close>), \<open>Multiprocess\<close> (\<open>ancillary/multiprocess.ts\<close>,
    \<open>server.ts\<close>), \<open>Application\<close> (\<open>app.ts\<close>, \<open>main.ts\<close>): configuration, worker processes, the modes of the
    process, and the two modes that run the anchor service periodically, on the models of both.
  \<^item> \<open>Did_Registry\<close>, \<open>Did_Registry_Laws\<close> (\<open>src/auth/src/services\<close>): the registry as commands to DynamoDB, each of
    which may fail before or after it took effect; the locale \<open>history\<close> is what every relation between
    earlier and later states shares, and \<open>registry_step\<close> interleaves the clients.
  \<^item> \<open>Auth_App\<close>, \<open>Auth_Routes\<close> (\<open>src/auth/src/authorizers\<close>, \<open>utils\<close>, \<open>routes\<close>, \<open>services/aws/apiGateway.ts\<close>):
    administrators, the authorizer of the gateway, API keys and the routes.
  \<^item> \<open>Migrations\<close>, \<open>Migration_Rollback\<close> (\<open>src/migrations\<close>, \<open>db-connection.ts\<close>): the migrations as statements on a
    catalog of tables with columns, defaults, indexes and constraints; that the constraints they declare are
    the well-formedness the repositories are proved to keep, and that every rollback undoes its migration.
  \<^item> \<open>Server\<close> (\<open>server.ts\<close>): one request from the socket through the body parsers, the authorization and the
    routes to the handlers of \<open>Http_Api\<close>.
  \<^item> \<open>Pubsub\<close> (\<open>services/ipfs-service.ts\<close>): the subscription of a responder as a machine over messages, errors,
    delays and stops, against the answers it owes (\<open>answers_due\<close>).
  \<^item> \<open>Auth_Api\<close> (\<open>src/auth/src/handlers/api.ts\<close>, \<open>validators\<close>, \<open>services/aws/dynamodb.ts\<close>): the function behind the
    gateway from an event to the reply, its schemas over the documented laws of Joi (\<open>joi_sound\<close>), its tables.
  \<^item> \<open>Issued_Codes\<close> (the same with \<open>services/aws/ses.ts\<close>, \<open>utils/metrics.ts\<close>): sequences of events, the mails and
    counts they leave, and the way of a code from the request that made it up to the registration it allows.
  \<^item> \<open>Wiring\<close>: what the constructors and factories of all services read from one configuration, the event
    producer, and how a process stops. \<open>Clients\<close>: the clients, the wallet and the shared loggers they are given.
  \<^item> \<open>Ipfs_Reads\<close> (\<open>services/ipfs-service.ts\<close>): parallel reads as interleaved steps over one cache and one
    semaphore.
  \<^item> \<open>Column_Names\<close> (\<open>db-connection.ts\<close>, \<open>src/src/models\<close>): the connection to the database, its renaming of
    identifiers and results, and what becomes of an object on its way into a table and back.
  \<^item> \<open>Observability\<close> (\<open>settings.ts\<close>, \<open>logger/index.ts\<close>, \<open>app.ts\<close>): names and groups of metrics, the start of their
    exporter, and the access and error log of the server. \<open>Utilities\<close> (\<open>utils.ts\<close>): delays and polling.

  What the lemmas show. Batching: which streams a batch takes, that marking is exact, that the transactions
  end. Anchoring: a batch that succeeds leaves every request completed with an anchor whose witness
  verifies, a batch that fails leaves no anchor and frees its requests, and no interleaving of clients and
  workers completes a request without an anchor. Witnesses: \<open>verify\<close> accepts exactly the CARs that prove an
  anchor, and what is presented verifies whatever the stores lose. Submission: one process at a time, at most
  three attempts with rising fees, a result only with a receipt. HTTP and authorization: what a signature
  covers, that passwords and nonces count once, that revocation is final. Processes: when they start, go on
  and end. Tables: what the migrations declare is what the repositories keep, and objects are read back as they
  were inserted. Reading: parallel reads end and keep to the semaphore. Together: whatever batches fail
  and however processes interleave, whoever asks for a completed request gets a witness that verifies.

  Conventions. Code outside the repository is a parameter: packages are records of functions (\<open>car_lib\<close>,
  \<open>platform\<close>, \<open>verify_lib\<close>, \<open>id_parsers\<close>, ...), and calls to services are answered from given lists or records
  (\<open>answers\<close>, \<open>queue_answers\<close>, \<open>start_answers\<close>, ...). What is assumed of packages is named: \<open>lawful_car\<close>
  (what is put into a CAR can be read), \<open>lawful_tree\<close> (the tree has the candidates as leaves and the paths lead
  to them), \<open>sql_engine\<close>, \<open>faithful_bytes\<close> and \<open>faithful_creds\<close> (coding and decoding are inverse),
  \<open>lawful_lodash\<close> and \<open>lawful_stamps\<close> (identifiers change case and dates are written as documented); the example
  instances of the theories satisfy them. Time is a number in milliseconds that each operation is given. Loops
  over answers of the outside end with \<open>None\<close> when the answers are used up, that is while the code waits;
  theorems that the code returns say which answers are enough. No fuel is used: the recursions that are not
  structural are the attempts of a transaction (\<open>attempt_from\<close>, with a measure), decimal rendering, and the
  loop that forks workers (\<open>fork_loop\<close>, a partial function, whose termination is characterized). JavaScript
  numbers are integers where only integers occur; \<open>NaN\<close> is \<open>None\<close>.

  Not modelled: tracing spans and the texts of log messages; the container that injects services (what they are
  given is in \<open>Wiring\<close> and \<open>Clients\<close>); timers and delays as durations; the generation of random DIDs, which only
  scripts use; scripts, type declarations and build files; the clients of AWS, Express, Joi and RxJS, the JWS
  verifier and the tree library beyond the operations that are used, which are parameters or written out
  where they are.
\<close>

section \<open>The service as a whole\<close>

text \<open>
  C1 (the service): in every state that any number of clients and workers can reach, however
  their operations interleave, fail or are retried, ids, CIDs and anchors are unique, every
  anchor belongs to a request, and a request that is \<open>COMPLETED\<close> has its anchor.
\<close>

theorem completed_requests_are_anchored:
  assumes "lawful_car (lib P)" and "lawful_tree P" and "cas_reachable P cfg db"
  shows "database_wf db
    \<and> (\<forall>r\<in>set (requests db). status r = COMPLETED \<longrightarrow> (\<exists>a\<in>set (anchors db). requestId a = req_id r))"
  using cas_reachable_inv [OF assms] by (simp add: cas_inv_def)

text \<open>
  C20 (IpfsService.handleMessage): in every state the service can reach, a query of another node for
  a stream with a request completed within the window is answered: one message goes to the
  publishing queue, whose tip is the anchor commit of the request of that stream that was updated last.
\<close>

theorem queries_are_answered:
  assumes "lawful_car (lib P)" and "lawful_tree P" and "cas_reachable P cfg db" and "sql_engine e"
    and "\<exists>r\<in>set (requests db). streamId r = sid \<and> status r = COMPLETED \<and> now - responder_window icfg \<le> updatedAt r"
  shows "\<exists>r\<in>set (requests db). \<exists>a\<in>set (anchors db). streamId r = sid \<and> status r = COMPLETED \<and> requestId a = req_id r
    \<and> (\<forall>q\<in>set (requests db). streamId q = sid \<longrightarrow> status q = COMPLETED \<longrightarrow> updatedAt q \<le> updatedAt r)
    \<and> handleMessage icfg e db now None (Query i sid) s = Some (Inr (), s\<lparr>ipfs_queue := ipfs_queue s @
        [\<lparr>iq_createdAt = now, iq_topic = if_topic icfg, iq_data = if_serialize icfg (Response i [(sid, anchor_cid a)])\<rparr>]\<rparr>)"
  using cas_reachable_inv [OF assms(1-3)] by (intro handleMessage_answer [OF assms(4) _ assms(5)]) (auto simp: cas_inv_def)

lemma findByRequest_unique:
  assumes "distinct (map requestId tbl)" and "a \<in> set tbl" and "requestId a = req_id r"
  shows "findByRequest r tbl = Some (with_request a (OfRequest r))"
  using find_unique_key [OF assms(1,2)] assms(3) by (simp add: findByRequest_def)

lemma find_request_row:
  assumes "request_table_wf tbl" and "r \<in> set tbl"
    and "\<forall>rows. replica = Inr rows \<longrightarrow> (\<forall>q\<in>set rows. req_cid q = req_cid r \<longrightarrow> q = r)"
  shows "find_request (replica_findByCid (req_cid r) replica) (findByCid (req_cid r) tbl) (req_cid r) = Inr r"
proof -
  have main: "findByCid (req_cid r) tbl = Some r"
    using find_unique_key [of req_cid tbl r] assms(1,2) by (simp add: findByCid_def request_table_wf_def)
  show ?thesis
  proof (cases "replica_findByCid (req_cid r) replica")
    case (Inr found)
    then obtain rows where rows: "replica = Inr rows" "found = find (\<lambda>q. req_cid q = req_cid r) rows"
      by (cases replica) (auto simp: replica_findByCid_def)
    have "q = r" if "found = Some q" for q
      using find_some_mem [OF trans [OF rows(2) [symmetric] that]] rows(1) assms(3) by blast
    then show ?thesis using Inr main by (cases found) (simp_all add: find_request_def need_def)
  qed (simp add: find_request_def need_def main)
qed

text \<open>
  The stores as a client's request meets them: the witness store holds nothing but what was put into it, the
  Merkle CARs are there, the later one if two were stored under one proof, and a witness can be stored.
\<close>

definition stores_serve :: "'car world \<Rightarrow> ('car, 's) car_stores \<Rightarrow> 's \<Rightarrow> bool" where
  "stores_serve w st s \<longleftrightarrow> (\<forall>c car. cs_witness st c s = Some car \<longrightarrow> (c, car) \<in> set (w_witness_cars w))
     \<and> (\<forall>p. cs_merkle st p s = map_of (w_merkle_cars w) p) \<and> (\<forall>c car. fst (cs_put_witness st c car s) = None)"


text \<open>Two requests submitted to an empty database, and anchored together.\<close>

definition run_db0 :: database where
  "run_db0 = \<lparr>requests = [], anchors = []\<rparr>"

definition submit_to :: "string \<Rightarrow> string \<Rightarrow> database \<Rightarrow> database" where
  "submit_to i c db = (case create i 5 (example_params c) (requests db) of
     Inr (tbl, r) \<Rightarrow> db\<lparr>requests := tbl\<rparr> | Inl e \<Rightarrow> db)"

definition run_db2 :: database where
  "run_db2 = submit_to ''2'' ''cid2'' (submit_to ''1'' ''cid1'' run_db0)"

definition run_world :: "assoc_car world" where
  "run_world = example_world\<lparr>w_db := run_db2\<rparr>"

definition run_answers :: answers where
  "run_answers = example_answers\<lparr>persist_attempts :=
     [\<lparr>att_db = run_db2, att_now = 7, att_clock = 8, att_aborted = True\<rparr>,
      \<lparr>att_db = run_db2, att_now = 9, att_clock = 10, att_aborted = False\<rparr>]\<rparr>"

definition run_end :: "assoc_car world" where
  "run_end = (case anchor_batch example_platform (example_config False) run_answers (requests run_db2) ''b'' run_world of
     Some (r, w') \<Rightarrow> w' | None \<Rightarrow> run_world)"

lemma run_reaches: "cas_reachable example_platform (example_config False) (w_db run_end)"
proof -
  have submit: "cas_step example_platform (example_config False) db (submit_to i c db)"
    if "\<exists>tbl r. create i 5 (example_params c) (requests db) = Inr (tbl, r)" for i c db
    using that cas_step.submit_request [where p = "example_params c"]
    by (auto simp: submit_to_def example_params_def)
  have one: "cas_reachable example_platform (example_config False) (submit_to ''1'' ''cid1'' run_db0)"
    by (rule cas_reachable.step [OF cas_reachable.empty], unfold run_db0_def [symmetric], rule submit)
      (simp add: create_def toDB_def insert_row_def example_params_def empty_request_def run_db0_def)
  have two: "cas_reachable example_platform (example_config False) run_db2"
    unfolding run_db2_def
    by (rule cas_reachable.step [OF one submit])
      (simp add: create_def toDB_def insert_row_def example_params_def empty_request_def run_db0_def submit_to_def)
  have "completes (anchor_batch example_platform (example_config False) run_answers (requests run_db2) ''b'') run_world"
    by code_simp
  then obtain r where "anchor_batch example_platform (example_config False) run_answers (requests run_db2) ''b'' run_world
      = Some (r, run_end)"
    by (rule completesE) (simp add: run_end_def)
  then have "cas_step example_platform (example_config False) run_db2 (w_db run_end)"
    by (rule cas_step.anchor) (simp_all add: run_world_def run_answers_def)
  then show ?thesis by (rule cas_reachable.step [OF two])
qed

theorem completed_requests_are_anchored_witness:
  "\<exists>db. (\<exists>r\<in>set (requests db). status r = COMPLETED) \<and> database_wf db
    \<and> (\<forall>r\<in>set (requests db). status r = COMPLETED \<longrightarrow> (\<exists>a\<in>set (anchors db). requestId a = req_id r))"
proof (rule exI [of _ "w_db run_end"], rule conjI)
  show "\<exists>r\<in>set (requests (w_db run_end)). status r = COMPLETED" by code_simp
qed (rule completed_requests_are_anchored [OF lawful_example(2,1) run_reaches])

text \<open>The same run with its stores, and a client of a server that was given them.\<close>

lemma run_stored: "service_reachable example_platform (example_config False) run_end"
proof -
  let ?w0 = "example_world\<lparr>w_db := run_db0\<rparr>" and ?db1 = "submit_to ''1'' ''cid1'' run_db0"
  have submit: "service_step example_platform (example_config False) w (w\<lparr>w_db := submit_to i c db\<rparr>)"
    if "w_db w = db" and "\<exists>tbl r. create i 5 (example_params c) (requests db) = Inr (tbl, r)" for i c db and w :: "assoc_car world"
    using that cas_step.submit_request [where p = "example_params c"]
    by (intro service_step.on_rows) (auto simp: submit_to_def example_params_def)
  have zero: "service_reachable example_platform (example_config False) ?w0"
    by (rule service_reachable.start) (simp_all add: example_world_def run_db0_def)
  have one: "service_reachable example_platform (example_config False) (?w0\<lparr>w_db := ?db1\<rparr>)"
    by (rule service_reachable.step [OF zero submit])
      (simp_all add: create_def toDB_def insert_row_def example_params_def empty_request_def run_db0_def)
  have "service_reachable example_platform (example_config False) (?w0\<lparr>w_db := ?db1, w_db := run_db2\<rparr>)"
    unfolding run_db2_def
    by (rule service_reachable.step [OF one submit])
      (simp_all add: create_def toDB_def insert_row_def example_params_def empty_request_def run_db0_def submit_to_def)
  then have two: "service_reachable example_platform (example_config False) run_world" by (simp add: run_world_def)
  have "completes (anchor_batch example_platform (example_config False) run_answers (requests run_db2) ''b'') run_world"
    by code_simp
  then obtain r where "anchor_batch example_platform (example_config False) run_answers (requests run_db2) ''b'' run_world
      = Some (r, run_end)"
    by (rule completesE) (simp add: run_end_def)
  then have "service_step example_platform (example_config False) run_world run_end"
    by (rule service_step.on_batch) (simp_all add: run_world_def run_answers_def)
  then show ?thesis by (rule service_reachable.step [OF two])
qed

definition run_api :: "(string, assoc_car, cid \<times> ipld, unit) api" where
  "run_api = example_api\<lparr>api_stores := \<lparr>cs_witness = (\<lambda>_ _. None), cs_merkle = (\<lambda>p _. map_of (w_merkle_cars run_end) p),
     cs_put_witness = (\<lambda>_ _ s. (None, s))\<rparr>\<rparr>"


definition example_ipfs :: ipfs_config where
  "example_ipfs = \<lparr>if_topic = ''/ceramic'', if_window = None, if_serialize = (\<lambda>_. [1, 2])\<rparr>"

definition example_ipfs_state :: ipfs_state where
  "example_ipfs_state = \<lparr>ipfs_cache = (\<lambda>_. None), ipfs_imported = [], ipfs_pins = [], ipfs_published = [], ipfs_queue = []\<rparr>"

theorem queries_are_answered_witness:
  "\<exists>sid s'. handleMessage example_ipfs stable_engine (w_db run_end) 100 None (Query ''q'' sid) example_ipfs_state
      = Some (Inr (), s') \<and> length (ipfs_queue s') = 1"
proof -
  have "\<exists>r\<in>set (requests (w_db run_end)). status r = COMPLETED \<and> 100 - responder_window example_ipfs \<le> updatedAt r"
    by code_simp
  then obtain sid where "\<exists>r\<in>set (requests (w_db run_end)). streamId r = sid \<and> status r = COMPLETED
      \<and> 100 - responder_window example_ipfs \<le> updatedAt r" by blast
  from queries_are_answered [OF lawful_example(2,1) run_reaches sql_engine_stable this] show ?thesis
    by (fastforce simp: example_ipfs_state_def)
qed

end
